(* ===== verification/Prelude.thy ===== *)
theory Prelude
  imports Main "HOL-Library.Word" "HOL-Library.Char_ord" "HOL-Library.List_Lexorder"
begin

text \<open>
  Shared vocabulary of the development: the types that stand for the Rust types, the
  ASCII and decimal conversions of the Rust standard library that the server calls, the
  little-endian encoding of 64-bit integers, and the generic lemmas on lists and maps
  that the component theories use.

  A \<open>u8\<close> is a HOL \<open>char\<close> (256 values, literals such as \<open>CHR 0x0D\<close>), so a byte string
  (\<open>Vec<u8>\<close>, \<open>Bytes\<close>, and the UTF-8 bytes of a \<open>String\<close>) is a \<open>char list\<close>, and the
  source's \<open>b"GET"\<close> is the literal \<open>''GET''\<close>. An \<open>i64\<close> or \<open>u64\<close> is a \<open>64 word\<close>, read by
  \<open>sint\<close> or \<open>unat\<close>; arithmetic wraps, as in a release build. Lengths (\<open>usize\<close>) that
  count bytes held in memory are \<open>nat\<close>.
\<close>

type_synonym bytes = "char list"
type_synonym i64 = "64 word"
type_synonym u64 = "64 word"

named_theorems byte_simps "evaluation of byte-string constants"
named_theorems inv_intros "preservation of component invariants"

abbreviation bval :: "char \<Rightarrow> nat" where
  "bval c \<equiv> of_char c"

section \<open>ASCII case\<close>

definition byte_upper :: "char \<Rightarrow> char" where
  "byte_upper c = (if 97 \<le> bval c \<and> bval c \<le> 122 then char_of (bval c - 32) else c)"

definition byte_lower :: "char \<Rightarrow> char" where
  "byte_lower c = (if 65 \<le> bval c \<and> bval c \<le> 90 then char_of (bval c + 32) else c)"

definition to_ascii_uppercase :: "bytes \<Rightarrow> bytes" where
  "to_ascii_uppercase = map byte_upper"

definition to_ascii_lowercase :: "bytes \<Rightarrow> bytes" where
  "to_ascii_lowercase = map byte_lower"

definition eq_ignore_ascii_case :: "bytes \<Rightarrow> bytes \<Rightarrow> bool" where
  "eq_ignore_ascii_case a b \<longleftrightarrow> to_ascii_lowercase a = to_ascii_lowercase b"

lemma char_of_bval [simp]: "char_of (bval c) = c"
  by simp

lemma bval_char_of [simp]: "bval (char_of n) = n mod 256"
  by (simp add: of_char_of)

lemma byte_upper_idem: "byte_upper (byte_upper c) = byte_upper c"
  by (auto simp: byte_upper_def)

lemma byte_upper_lower: "byte_upper (byte_lower c) = byte_upper c"
  by (auto simp: byte_upper_def byte_lower_def)

lemma byte_lower_upper: "byte_lower (byte_upper c) = byte_lower c"
  by (auto simp: byte_upper_def byte_lower_def)

lemma to_ascii_uppercase_idem: "to_ascii_uppercase (to_ascii_uppercase s) = to_ascii_uppercase s"
  by (simp add: to_ascii_uppercase_def byte_upper_idem)

lemma length_to_ascii_uppercase [simp]: "length (to_ascii_uppercase s) = length s"
  by (simp add: to_ascii_uppercase_def)

lemma eq_ignore_ascii_case_upper:
  "eq_ignore_ascii_case a b \<longleftrightarrow> to_ascii_uppercase a = to_ascii_uppercase b"
proof -
  have "to_ascii_uppercase (to_ascii_lowercase s) = to_ascii_uppercase s" for s
    by (simp add: to_ascii_uppercase_def to_ascii_lowercase_def byte_upper_lower)
  moreover have "to_ascii_lowercase (to_ascii_uppercase s) = to_ascii_lowercase s" for s
    by (simp add: to_ascii_uppercase_def to_ascii_lowercase_def byte_lower_upper)
  ultimately show ?thesis
    unfolding eq_ignore_ascii_case_def by metis
qed

lemmas [byte_simps] =
  to_ascii_uppercase_def to_ascii_lowercase_def byte_upper_def byte_lower_def char_of_def bit_0

lemma to_ascii_uppercase_get: "to_ascii_uppercase ''gEt'' = ''GET''"
  by (simp add: byte_simps)

section \<open>Lists\<close>

lemma find_SomeD: "find P xs = Some x \<Longrightarrow> P x \<and> x \<in> set xs"
  by (induction xs) (auto split: if_splits)

lemma find_None_not: "(\<And>x. x \<in> set xs \<Longrightarrow> \<not> P x) \<Longrightarrow> find P xs = None"
  by (auto simp: find_None_iff)

section \<open>Pairs\<close>

text \<open>How the result and the state of a call are taken apart in an existential statement.\<close>

lemma ex_pair_conv:
  "(\<exists>s'. p = (a, s') \<and> P s') \<longleftrightarrow> fst p = a \<and> P (snd p)"
  by (cases p) auto

section \<open>Results\<close>

text \<open>
  \<open>Result<T, E>\<close> is \<open>'e + 'a\<close>, with \<open>Inl\<close> for the error. \<open>try_bind\<close> is the \<open>?\<close> operator:
  it hands a value on and returns early with an error.
\<close>

definition try_bind :: "'e + 'a \<Rightarrow> ('a \<Rightarrow> 'e + 'b) \<Rightarrow> 'e + 'b" where
  "try_bind r f = (case r of Inl e \<Rightarrow> Inl e | Inr a \<Rightarrow> f a)"

lemma try_bind_simps [simp]:
  "try_bind (Inl e) f = Inl e" "try_bind (Inr a) f = f a"
  by (simp_all add: try_bind_def)

lemma try_bind_Inr: "try_bind r f = Inr b \<longleftrightarrow> (\<exists>a. r = Inr a \<and> f a = Inr b)"
  by (cases r) auto

text \<open>Mapping a fallible function over a list, stopping at the first error.\<close>

fun try_map :: "('a \<Rightarrow> 'e + 'b) \<Rightarrow> 'a list \<Rightarrow> 'e + 'b list" where
  "try_map f [] = Inr []"
| "try_map f (x # xs) = try_bind (f x) (\<lambda>y. try_bind (try_map f xs) (\<lambda>ys. Inr (y # ys)))"

lemma try_map_all: "(\<And>x. x \<in> set xs \<Longrightarrow> f x = Inr (g x)) \<Longrightarrow> try_map f xs = Inr (map g xs)"
  by (induction xs) auto

lemma try_map_length: "try_map f xs = Inr ys \<Longrightarrow> length ys = length xs"
  by (induction xs arbitrary: ys) (auto simp: try_bind_Inr)

end
