(* ===== verification/Rust_Ints.thy ===== *)
theory Rust_Ints
  imports Prelude
begin

text \<open>
  The integer side of the Rust standard library that the server calls: decimal printing
  (\<open>itoa\<close>, \<open>to_string\<close>, \<open>format!("{}")\<close>), decimal parsing (\<open>str::parse::<i64>\<close>,
  \<open>parse::<usize>\<close>), \<open>to_le_bytes\<close> and \<open>from_le_bytes\<close>, and \<open>saturating_add\<close>, with the
  round trips between them.
\<close>

section \<open>Decimal printing\<close>

definition digit_char :: "nat \<Rightarrow> char" where
  "digit_char d = char_of (48 + d)"

fun show_nat :: "nat \<Rightarrow> bytes" where
  "show_nat n = (if n < 10 then [digit_char n]
                 else show_nat (n div 10) @ [digit_char (n mod 10)])"

declare show_nat.simps [simp del]

definition show_int :: "int \<Rightarrow> bytes" where
  "show_int i = (if i < 0 then CHR ''-'' # show_nat (nat (- i)) else show_nat (nat i))"

definition show_i64 :: "i64 \<Rightarrow> bytes" where
  "show_i64 w = show_int (sint w)"

section \<open>Decimal parsing\<close>

definition is_digit :: "char \<Rightarrow> bool" where
  "is_digit c \<longleftrightarrow> 48 \<le> bval c \<and> bval c \<le> 57"

definition digit_val :: "char \<Rightarrow> nat" where
  "digit_val c = bval c - 48"

definition digits_val :: "bytes \<Rightarrow> nat" where
  "digits_val = foldl (\<lambda>acc c. 10 * acc + digit_val c) 0"

text \<open>
  \<open>parse::<i64>\<close> accepts one optional sign, then at least one digit and nothing else, and
  fails when the value does not fit. \<open>parse::<usize>\<close> accepts a plus sign only.
\<close>

definition split_sign :: "bytes \<Rightarrow> bool \<times> bytes" where
  "split_sign s = (case s of
     [] \<Rightarrow> (False, [])
   | c # cs \<Rightarrow> if c = CHR ''-'' then (True, cs)
               else if c = CHR ''+'' then (False, cs) else (False, s))"

definition parse_i64 :: "bytes \<Rightarrow> i64 option" where
  "parse_i64 s = (let (neg, ds) = split_sign s in
     if ds = [] \<or> \<not> list_all is_digit ds then None
     else let n = int (digits_val ds); v = (if neg then - n else n) in
       if - (2 ^ 63) \<le> v \<and> v < 2 ^ 63 then Some (word_of_int v) else None)"

definition parse_usize :: "bytes \<Rightarrow> nat option" where
  "parse_usize s = (let ds = (case s of c # cs \<Rightarrow> if c = CHR ''+'' then cs else s | [] \<Rightarrow> []) in
     if ds = [] \<or> \<not> list_all is_digit ds then None
     else if digits_val ds < 2 ^ 64 then Some (digits_val ds) else None)"

lemma is_digit_digit_char [simp]: "d < 10 \<Longrightarrow> is_digit (digit_char d)"
  by (simp add: is_digit_def digit_char_def)

lemma digit_val_digit_char [simp]: "d < 10 \<Longrightarrow> digit_val (digit_char d) = d"
  by (simp add: digit_val_def digit_char_def)

lemma digits_val_append [simp]: "digits_val (ds @ [c]) = 10 * digits_val ds + digit_val c"
  by (simp add: digits_val_def)

lemma show_nat_digits: "list_all is_digit (show_nat n)"
proof (induction n rule: show_nat.induct)
  case (1 n)
  then show ?case by (subst show_nat.simps) simp
qed

lemma show_nat_not_Nil [simp]: "show_nat n \<noteq> []"
  by (subst show_nat.simps) simp

lemma digits_val_show_nat [simp]: "digits_val (show_nat n) = n"
proof (induction n rule: show_nat.induct)
  case (1 n)
  show ?case
  proof (cases "n < 10")
    case True
    then show ?thesis by (subst show_nat.simps) (simp add: digits_val_def)
  next
    case False
    with 1 show ?thesis by (subst show_nat.simps) simp
  qed
qed

lemma show_nat_inj: "show_nat m = show_nat n \<Longrightarrow> m = n"
  by (metis digits_val_show_nat)

lemma hd_show_nat_digit: "is_digit (hd (show_nat n))"
  using show_nat_digits [of n] by (cases "show_nat n") (auto simp: list_all_iff)

lemma is_digit_not [simp]:
  "is_digit c \<Longrightarrow> c \<noteq> CHR ''-''" "is_digit c \<Longrightarrow> c \<noteq> CHR ''+''"
  "is_digit c \<Longrightarrow> c \<noteq> CHR '':''" "is_digit c \<Longrightarrow> c \<noteq> CHR 0x0D" "is_digit c \<Longrightarrow> c \<noteq> CHR 0x0A"
  by (auto simp: is_digit_def)

lemma show_nat_mem: "c \<in> set (show_nat n) \<Longrightarrow> is_digit c"
  using show_nat_digits [of n] by (auto simp: list_all_iff)

lemma show_int_mem: "c \<in> set (show_int i) \<Longrightarrow> is_digit c \<or> c = CHR ''-''"
  by (auto simp: show_int_def dest: show_nat_mem split: if_splits)

lemma show_int_not_Nil [simp]: "show_int i \<noteq> []"
  by (simp add: show_int_def)

lemma split_sign_show_int: "split_sign (show_int i) = (i < 0, show_nat (nat \<bar>i\<bar>))"
proof (cases "i < 0")
  case False
  obtain c cs where "show_nat (nat i) = c # cs"
    by (cases "show_nat (nat i)") auto
  moreover have "is_digit c" using hd_show_nat_digit [of "nat i"] calculation by simp
  ultimately show ?thesis using False by (simp add: split_sign_def show_int_def)
qed (simp add: split_sign_def show_int_def)

lemma show_int_inj: "show_int i = show_int j \<Longrightarrow> i = j"
proof -
  assume "show_int i = show_int j"
  then have "split_sign (show_int i) = split_sign (show_int j)" by simp
  then have "(i < 0) = (j < 0)" and "nat \<bar>i\<bar> = nat \<bar>j\<bar>"
    by (auto simp: split_sign_show_int dest: show_nat_inj)
  then show ?thesis by linarith
qed

lemma show_i64_inj: "show_i64 v = show_i64 w \<Longrightarrow> v = w"
  by (auto simp: show_i64_def signed_word_eqI dest: show_int_inj)

lemma sint_range64: "- (2 ^ 63) \<le> sint (w :: i64)" "sint (w :: i64) < 2 ^ 63"
  using sint_ge [of w] sint_less [of w] by simp_all

lemma parse_i64_show_int:
  assumes "- (2 ^ 63) \<le> i" and "i < 2 ^ 63"
  shows "parse_i64 (show_int i) = Some (word_of_int i)"
  using assms by (simp add: parse_i64_def split_sign_show_int show_nat_digits Let_def)

lemma parse_i64_show_i64 [simp]: "parse_i64 (show_i64 w) = Some w"
  unfolding show_i64_def using sint_range64 [of w] by (subst parse_i64_show_int) simp_all

lemma parse_i64_show_nat: "n < 2 ^ 63 \<Longrightarrow> parse_i64 (show_nat n) = Some (word_of_nat n)"
  using parse_i64_show_int [of "int n"] by (simp add: show_int_def)

lemma parse_usize_show_nat: "n < 2 ^ 64 \<Longrightarrow> parse_usize (show_nat n) = Some n"
  using hd_show_nat_digit [of n] show_nat_digits [of n]
  by (auto simp: parse_usize_def Let_def is_digit_def split: list.splits)
    (metis digits_val_show_nat)+

section \<open>Little-endian encoding\<close>

fun nat_to_le :: "nat \<Rightarrow> nat \<Rightarrow> bytes" where
  "nat_to_le 0 n = []"
| "nat_to_le (Suc k) n = char_of (n mod 256) # nat_to_le k (n div 256)"

fun nat_of_le :: "bytes \<Rightarrow> nat" where
  "nat_of_le [] = 0"
| "nat_of_le (c # cs) = bval c + 256 * nat_of_le cs"

definition to_le_bytes :: "u64 \<Rightarrow> bytes" where
  "to_le_bytes w = nat_to_le 8 (unat w)"

definition from_le_bytes :: "bytes \<Rightarrow> u64" where
  "from_le_bytes bs = word_of_nat (nat_of_le bs)"

lemma length_nat_to_le [simp]: "length (nat_to_le k n) = k"
  by (induction k arbitrary: n) auto

lemma length_to_le_bytes [simp]: "length (to_le_bytes w) = 8"
  by (simp add: to_le_bytes_def)

lemma nat_of_le_nat_to_le: "nat_of_le (nat_to_le k n) = n mod 256 ^ k"
proof (induction k arbitrary: n)
  case (Suc k)
  have "n mod 256 + 256 * (n div 256 mod 256 ^ k) = n mod (256 * 256 ^ k)"
    by (simp add: mod_mult2_eq)
  with Suc show ?case by simp
qed simp

lemma from_to_le_bytes [simp]: "from_le_bytes (to_le_bytes w) = w"
proof -
  have "unat w < 256 ^ 8" using unsigned_less [of w] by simp
  then show ?thesis
    by (simp add: from_le_bytes_def to_le_bytes_def nat_of_le_nat_to_le)
qed

lemma nat_to_le_nat_of_le: "nat_to_le (length bs) (nat_of_le bs) = bs"
  by (induction bs) auto

lemma nat_of_le_bound: "nat_of_le bs < 256 ^ length bs"
proof (induction bs)
  case (Cons c cs)
  have "bval c + 256 * nat_of_le cs < 256 * Suc (nat_of_le cs)" by simp
  also have "\<dots> \<le> 256 * 256 ^ length cs" using Cons by (simp only: Suc_leI mult_le_mono2)
  finally show ?case by simp
qed simp

lemma to_from_le_bytes: "length bs = 8 \<Longrightarrow> to_le_bytes (from_le_bytes bs) = bs"
proof -
  assume len: "length bs = 8"
  then have "nat_of_le bs < 2 ^ 64" using nat_of_le_bound [of bs] by simp
  then show ?thesis using nat_to_le_nat_of_le [of bs] len
    by (simp add: to_le_bytes_def from_le_bytes_def unat_of_nat)
qed

lemma to_le_bytes_inj: "to_le_bytes v = to_le_bytes w \<Longrightarrow> v = w"
  by (metis from_to_le_bytes)

section \<open>Saturating addition and wrap-around\<close>

definition i64_saturating_add :: "i64 \<Rightarrow> i64 \<Rightarrow> i64" where
  "i64_saturating_add a b = (let n = sint a + sint b in
     if n < - (2 ^ 63) then word_of_int (- (2 ^ 63))
     else if 2 ^ 63 \<le> n then word_of_int (2 ^ 63 - 1) else a + b)"

definition in_i64 :: "int \<Rightarrow> bool" where
  "in_i64 n \<longleftrightarrow> - (2 ^ 63) \<le> n \<and> n < 2 ^ 63"

lemma sint_word_of_int64: "in_i64 n \<Longrightarrow> sint (word_of_int n :: i64) = n"
  by (simp add: in_i64_def word_of_int_inverse sint_sbintrunc' signed_take_bit_int_eq_self)

lemma sint_add64: "in_i64 (sint a + sint b) \<Longrightarrow> sint ((a :: i64) + b) = sint a + sint b"
  using sint_word_of_int64 [of "sint a + sint b"] by simp

lemma sint_sub64: "in_i64 (sint a - sint b) \<Longrightarrow> sint ((a :: i64) - b) = sint a - sint b"
  using sint_word_of_int64 [of "sint a - sint b"] by simp

lemma sint_saturating_add:
  "sint (i64_saturating_add a b) = max (- (2 ^ 63)) (min (2 ^ 63 - 1) (sint a + sint b))"
proof -
  have "sint (word_of_int (- (2 ^ 63)) :: i64) = - (2 ^ 63)"
    and "sint (word_of_int (2 ^ 63 - 1) :: i64) = 2 ^ 63 - 1"
    by (rule sint_word_of_int64, simp add: in_i64_def)+
  moreover have "sint (a + b) = sint a + sint b"
    if "\<not> sint a + sint b < - (2 ^ 63)" "\<not> 2 ^ 63 \<le> sint a + sint b"
    by (rule sint_add64) (use that in \<open>simp add: in_i64_def\<close>)
  ultimately show ?thesis unfolding i64_saturating_add_def Let_def by auto
qed

end
