(* ===== verification/Rust_Strings.thy ===== *)
theory Rust_Strings
  imports Rust_Ints
begin

text \<open>
  The string side of the Rust standard library that the server calls: validation and lossy
  decoding of UTF-8 (\<open>str::from_utf8\<close>, \<open>String::from_utf8_lossy\<close>, which replaces every
  maximal ill-formed part by U+FFFD), \<open>str::to_uppercase\<close> and \<open>to_lowercase\<close> as far as a
  comparison with an ASCII literal can see, \<open>str::trim\<close>, and \<open>starts_with\<close>. A \<open>String\<close>
  is its UTF-8 bytes.
\<close>

section \<open>UTF-8\<close>

definition is_cont :: "char \<Rightarrow> bool" where
  "is_cont c \<longleftrightarrow> 128 \<le> bval c \<and> bval c < 192"

definition utf8_char_width :: "nat \<Rightarrow> nat" where
  "utf8_char_width b =
     (if b < 128 then 1 else if 194 \<le> b \<and> b \<le> 223 then 2
      else if 224 \<le> b \<and> b \<le> 239 then 3 else if 240 \<le> b \<and> b \<le> 244 then 4 else 0)"

definition second_ok :: "nat \<Rightarrow> nat \<Rightarrow> bool" where
  "second_ok b s \<longleftrightarrow>
     (if b = 224 then 160 \<le> s \<and> s \<le> 191
      else if b = 237 then 128 \<le> s \<and> s \<le> 159
      else if b = 240 then 144 \<le> s \<and> s \<le> 191
      else if b = 244 then 128 \<le> s \<and> s \<le> 143
      else 128 \<le> s \<and> s \<le> 191)"

text \<open>
  \<open>safe_get\<close> reads a byte or 0 past the end, as the decoder of the standard library does.
  \<open>utf8_step\<close> looks at a non-empty input and says how many bytes the first character, or
  the first ill-formed part, takes, and which of the two it is.
\<close>

definition safe_get :: "bytes \<Rightarrow> nat \<Rightarrow> char" where
  "safe_get bs i = (if i < length bs then bs ! i else CHR 0x00)"

definition utf8_step :: "bytes \<Rightarrow> nat \<times> bool" where
  "utf8_step bs = (let b = bval (safe_get bs 0); w = utf8_char_width b in
     if w = 1 then (1, True)
     else if w = 2 then (if is_cont (safe_get bs 1) then (2, True) else (1, False))
     else if w = 3 then
       (if \<not> second_ok b (bval (safe_get bs 1)) then (1, False)
        else if is_cont (safe_get bs 2) then (3, True) else (2, False))
     else if w = 4 then
       (if \<not> second_ok b (bval (safe_get bs 1)) then (1, False)
        else if \<not> is_cont (safe_get bs 2) then (2, False)
        else if is_cont (safe_get bs 3) then (4, True) else (3, False))
     else (1, False))"

definition replacement_char :: bytes where
  "replacement_char = [CHR 0xEF, CHR 0xBF, CHR 0xBD]"

lemma fst_utf8_step_pos: "0 < fst (utf8_step bs)"
  by (simp add: utf8_step_def Let_def)

lemma utf8_step_shrinks: "bs \<noteq> [] \<Longrightarrow> length (drop (fst (utf8_step bs)) bs) < length bs"
  using fst_utf8_step_pos [of bs] by simp

function utf8_lossy :: "bytes \<Rightarrow> bytes" where
  "utf8_lossy bs =
     (if bs = [] then []
      else (if snd (utf8_step bs) then take (fst (utf8_step bs)) bs else replacement_char)
           @ utf8_lossy (drop (fst (utf8_step bs)) bs))"
  by pat_completeness auto
termination
  by (relation "measure length") (auto simp del: length_drop intro: utf8_step_shrinks)

function utf8_valid :: "bytes \<Rightarrow> bool" where
  "utf8_valid bs =
     (if bs = [] then True
      else if snd (utf8_step bs) then utf8_valid (drop (fst (utf8_step bs)) bs) else False)"
  by pat_completeness auto
termination
  by (relation "measure length") (auto simp del: length_drop intro: utf8_step_shrinks)

declare utf8_lossy.simps [simp del] utf8_valid.simps [simp del]

lemma utf8_lossy_Nil [simp]: "utf8_lossy [] = []"
  by (subst utf8_lossy.simps) simp

lemma utf8_valid_Nil [simp]: "utf8_valid []"
  by (subst utf8_valid.simps) simp

lemma utf8_lossy_valid: "utf8_valid bs \<Longrightarrow> utf8_lossy bs = bs"
proof (induction bs rule: utf8_lossy.induct)
  case (1 bs)
  from "1.prems" have "bs = [] \<or> (snd (utf8_step bs) \<and> utf8_valid (drop (fst (utf8_step bs)) bs))"
    by (subst (asm) utf8_valid.simps) (simp split: if_splits)
  with "1.IH" show ?case by (subst utf8_lossy.simps) auto
qed

definition is_ascii :: "bytes \<Rightarrow> bool" where
  "is_ascii = list_all (\<lambda>c. bval c < 128)"

lemma utf8_step_ascii: "bval c < 128 \<Longrightarrow> utf8_step (c # cs) = (1, True)"
  by (simp add: utf8_step_def safe_get_def utf8_char_width_def)

lemma utf8_valid_Cons_ascii [simp]: "bval c < 128 \<Longrightarrow> utf8_valid (c # cs) = utf8_valid cs"
  by (subst utf8_valid.simps) (simp add: utf8_step_ascii)

lemma utf8_lossy_Cons_ascii [simp]: "bval c < 128 \<Longrightarrow> utf8_lossy (c # cs) = c # utf8_lossy cs"
  by (subst utf8_lossy.simps) (simp add: utf8_step_ascii)

lemma is_ascii_valid: "is_ascii bs \<Longrightarrow> utf8_valid bs"
  by (induction bs) (auto simp: is_ascii_def)

lemma is_ascii_lossy: "is_ascii bs \<Longrightarrow> utf8_lossy bs = bs"
  by (simp add: utf8_lossy_valid is_ascii_valid)

text \<open>\<open>u8 as char\<close> printed into a \<open>String\<close>: Latin-1 as UTF-8.\<close>

definition byte_as_char :: "char \<Rightarrow> bytes" where
  "byte_as_char c = (if bval c < 128 then [c]
     else [char_of (192 + bval c div 64), char_of (128 + bval c mod 64)])"

section \<open>Unicode case mapping, seen through ASCII\<close>

text \<open>
  The server compares \<open>s.to_uppercase()\<close> with ASCII words only. Besides \<open>a\<close> to \<open>z\<close>, the
  characters whose upper case is made of ASCII letters alone are dotless i, long s,
  sharp s and the Latin ligatures U+FB00 to U+FB06; every other character contributes
  at least one non-ASCII byte, here itself. For \<open>to_lowercase\<close> it is the Kelvin sign.
\<close>

definition upper_special :: "(bytes \<times> bytes) list" where
  "upper_special =
     [([CHR 0xC4, CHR 0xB1], ''I''), ([CHR 0xC5, CHR 0xBF], ''S''), ([CHR 0xC3, CHR 0x9F], ''SS''),
      ([CHR 0xEF, CHR 0xAC, CHR 0x80], ''FF''), ([CHR 0xEF, CHR 0xAC, CHR 0x81], ''FI''),
      ([CHR 0xEF, CHR 0xAC, CHR 0x82], ''FL''), ([CHR 0xEF, CHR 0xAC, CHR 0x83], ''FFI''),
      ([CHR 0xEF, CHR 0xAC, CHR 0x84], ''FFL''), ([CHR 0xEF, CHR 0xAC, CHR 0x85], ''ST''),
      ([CHR 0xEF, CHR 0xAC, CHR 0x86], ''ST'')]"

definition starts_with :: "bytes \<Rightarrow> bytes \<Rightarrow> bool" where
  "starts_with s p \<longleftrightarrow> length p \<le> length s \<and> take (length p) s = p"

function map_special :: "(char \<Rightarrow> char) \<Rightarrow> (bytes \<times> bytes) list \<Rightarrow> bytes \<Rightarrow> bytes" where
  "map_special f tab s = (case s of [] \<Rightarrow> []
     | c # cs \<Rightarrow>
         (case find (\<lambda>(p, r). p \<noteq> [] \<and> starts_with s p) tab of
            Some (p, r) \<Rightarrow> r @ map_special f tab (drop (length p) s)
          | None \<Rightarrow> f c # map_special f tab cs))"
  by pat_completeness auto
termination
  by (relation "measure (\<lambda>(f, tab, s). length s)") (auto dest: find_SomeD)

declare map_special.simps [simp del]

definition str_to_uppercase :: "bytes \<Rightarrow> bytes" where
  "str_to_uppercase = map_special byte_upper upper_special"

definition str_to_lowercase :: "bytes \<Rightarrow> bytes" where
  "str_to_lowercase = map_special byte_lower [([CHR 0xE2, CHR 0x84, CHR 0xAA], ''k'')]"

lemma starts_with_iff: "starts_with s p \<longleftrightarrow> (\<exists>t. s = p @ t)"
  by (metis append_eq_conv_conj append_take_drop_id le_add1 length_append starts_with_def)

lemma starts_with_append [simp]: "starts_with (p @ t) p"
  by (auto simp: starts_with_iff)

lemma starts_with_Nil [simp]: "starts_with s []"
  by (simp add: starts_with_def)

lemma starts_with_Cons: "starts_with (c # s) (d # p) \<longleftrightarrow> c = d \<and> starts_with s p"
  by (auto simp: starts_with_iff)

lemma map_special_ascii:
  assumes "is_ascii s" and "\<forall>(p, r) \<in> set tab. \<exists>c cs. p = c # cs \<and> 128 \<le> bval c"
  shows "map_special f tab s = map f s"
  using assms(1)
proof (induction s)
  case Nil
  then show ?case by (subst map_special.simps) simp
next
  case (Cons c s)
  have "find (\<lambda>(p, r). p \<noteq> [] \<and> starts_with (c # s) p) tab = None"
    using assms(2) Cons.prems
    by (fastforce simp: find_None_iff is_ascii_def starts_with_Cons)
  with Cons show ?case by (subst map_special.simps) (simp add: is_ascii_def)
qed

lemma str_to_uppercase_ascii: "is_ascii s \<Longrightarrow> str_to_uppercase s = to_ascii_uppercase s"
  unfolding str_to_uppercase_def to_ascii_uppercase_def
  by (rule map_special_ascii) (auto simp: upper_special_def)

lemma str_to_lowercase_ascii: "is_ascii s \<Longrightarrow> str_to_lowercase s = to_ascii_lowercase s"
  unfolding str_to_lowercase_def to_ascii_lowercase_def
  by (rule map_special_ascii) auto

section \<open>Trimming\<close>

text \<open>\<open>str::trim\<close> drops leading and trailing characters with the property White_Space.\<close>

definition whitespace_chars :: "bytes list" where
  "whitespace_chars =
     map (\<lambda>n. [char_of (n :: nat)]) [9, 10, 11, 12, 13, 32] @
     [[CHR 0xC2, CHR 0x85], [CHR 0xC2, CHR 0xA0], [CHR 0xE1, CHR 0x9A, CHR 0x80]] @
     map (\<lambda>n. [CHR 0xE2, CHR 0x80, char_of (n :: nat)]) [128 ..< 139] @
     [[CHR 0xE2, CHR 0x80, CHR 0xA8], [CHR 0xE2, CHR 0x80, CHR 0xA9], [CHR 0xE2, CHR 0x80, CHR 0xAF],
      [CHR 0xE2, CHR 0x81, CHR 0x9F], [CHR 0xE3, CHR 0x80, CHR 0x80]]"

definition ends_with :: "bytes \<Rightarrow> bytes \<Rightarrow> bool" where
  "ends_with s p \<longleftrightarrow> starts_with (rev s) (rev p)"

function trim_start :: "bytes list \<Rightarrow> bytes \<Rightarrow> bytes" where
  "trim_start ws s = (case find (\<lambda>w. w \<noteq> [] \<and> starts_with s w) ws of
      None \<Rightarrow> s | Some w \<Rightarrow> trim_start ws (drop (length w) s))"
  by pat_completeness auto
termination
  by (relation "measure (\<lambda>(ws, s). length s)")
     (auto dest!: find_SomeD simp: starts_with_iff)

declare trim_start.simps [simp del]

definition str_trim :: "bytes \<Rightarrow> bytes" where
  "str_trim s =
     rev (trim_start (map rev whitespace_chars) (rev (trim_start whitespace_chars s)))"

lemma trim_start_None:
  "(\<And>w. w \<in> set ws \<Longrightarrow> w \<noteq> [] \<Longrightarrow> \<not> starts_with s w) \<Longrightarrow> trim_start ws s = s"
proof -
  assume "\<And>w. w \<in> set ws \<Longrightarrow> w \<noteq> [] \<Longrightarrow> \<not> starts_with s w"
  then have "find (\<lambda>w. w \<noteq> [] \<and> starts_with s w) ws = None"
    by (auto simp: find_None_iff)
  then show ?thesis by (subst trim_start.simps) simp
qed

lemma whitespace_no_int_char:
  assumes "w \<in> set whitespace_chars" and "c \<in> set w"
  shows "\<not> is_digit c" and "c \<noteq> CHR ''-''"
  using assms by (auto simp: whitespace_chars_def is_digit_def char_of_def bit_0)

lemma str_trim_show_int [simp]: "str_trim (show_int i) = show_int i"
proof -
  have clash: "\<not> starts_with s w"
    if s: "set s = set (show_int i)" "s \<noteq> []" and w: "w \<noteq> []" "\<forall>c \<in> set w. \<not> is_digit c \<and> c \<noteq> CHR ''-''" for s w
  proof
    assume "starts_with s w"
    then have "hd w \<in> set s" using w(1) by (auto simp: starts_with_iff)
    with s w show False by (metis hd_in_set show_int_mem)
  qed
  have "trim_start whitespace_chars (show_int i) = show_int i"
    by (rule trim_start_None, rule clash) (auto dest: whitespace_no_int_char)
  moreover have "trim_start (map rev whitespace_chars) (rev (show_int i)) = rev (show_int i)"
    by (rule trim_start_None, rule clash) (auto dest: whitespace_no_int_char)
  ultimately show ?thesis by (simp add: str_trim_def)
qed

end
