(* ===== verification/Resp.thy ===== *)
theory Resp
  imports Rust_Strings
begin

text \<open>
  \<open>src/src/protocol/resp.rs\<close>, first half: the RESP values, the writer with its size estimate,
  and the search for the end of a line (\<open>find_crlf\<close>). The lemmas show that the skipping
  search finds the first line end, and that appending input never moves it.
\<close>

section \<open>Values and the writer\<close>

datatype resp_value =
    SimpleString bytes
  | Error bytes
  | Integer i64
  | BulkString "bytes option"
  | Array "resp_value list option"

abbreviation crlf :: bytes where
  "crlf \<equiv> [CHR 0x0D, CHR 0x0A]"

fun write_resp_value :: "bytes \<Rightarrow> resp_value \<Rightarrow> bytes" where
  "write_resp_value buf (SimpleString s) = buf @ ''+'' @ s @ crlf"
| "write_resp_value buf (Error e) = buf @ ''-'' @ e @ crlf"
| "write_resp_value buf (Integer n) = buf @ '':'' @ show_i64 n @ crlf"
| "write_resp_value buf (BulkString (Some s)) =
     buf @ ''$'' @ show_nat (length s) @ crlf @ s @ crlf"
| "write_resp_value buf (BulkString None) = buf @ ''$-1'' @ crlf"
| "write_resp_value buf (Array (Some arr)) =
     foldl write_resp_value (buf @ ''*'' @ show_nat (length arr) @ crlf) arr"
| "write_resp_value buf (Array None) = buf @ ''*-1'' @ crlf"

definition format_resp_response :: "resp_value \<Rightarrow> bytes" where
  "format_resp_response v = write_resp_value [] v"

fun estimate_resp_size :: "resp_value \<Rightarrow> nat" where
  "estimate_resp_size (SimpleString s) = length s + 3"
| "estimate_resp_size (Error e) = length e + 3"
| "estimate_resp_size (Integer n) = 24"
| "estimate_resp_size (BulkString (Some s)) = length s + 20"
| "estimate_resp_size (BulkString None) = 5"
| "estimate_resp_size (Array (Some arr)) =
     foldl (\<lambda>size item. size + estimate_resp_size item) 10 arr"
| "estimate_resp_size (Array None) = 5"

section \<open>Finding the end of a line\<close>

text \<open>\<open>memchr2\<close> returns the first position of either byte.\<close>

fun memchr2 :: "char \<Rightarrow> char \<Rightarrow> bytes \<Rightarrow> nat option" where
  "memchr2 a b [] = None"
| "memchr2 a b (c # cs) = (if c = a \<or> c = b then Some 0 else map_option Suc (memchr2 a b cs))"

function find_crlf_from :: "bytes \<Rightarrow> nat \<Rightarrow> nat option" where
  "find_crlf_from buf pos =
     (if pos < length buf - 1 then
        (case memchr2 (CHR 0x0D) (CHR 0x0A) (drop pos buf) of
           Some k \<Rightarrow>
             (let cr_pos = pos + k in
              if cr_pos < length buf - 1 \<and> buf ! cr_pos = CHR 0x0D \<and> buf ! (cr_pos + 1) = CHR 0x0A
              then Some cr_pos
              else find_crlf_from buf (cr_pos + 1))
         | None \<Rightarrow> None)
      else None)"
  by pat_completeness auto
termination
  by (relation "measure (\<lambda>(buf, pos). length buf - pos)") auto

declare find_crlf_from.simps [simp del]

definition find_crlf :: "bytes \<Rightarrow> nat option" where
  "find_crlf buf = find_crlf_from buf 0"

text \<open>The specification: the first position of the two bytes carriage return, line feed.\<close>

definition crlf_at :: "bytes \<Rightarrow> nat \<Rightarrow> bool" where
  "crlf_at buf i \<longleftrightarrow> i + 1 < length buf \<and> buf ! i = CHR 0x0D \<and> buf ! (i + 1) = CHR 0x0A"

lemma memchr2_None: "memchr2 a b cs = None \<Longrightarrow> c \<in> set cs \<Longrightarrow> c \<noteq> a \<and> c \<noteq> b"
  by (induction cs) (auto split: if_splits)

lemma memchr2_Some:
  "memchr2 a b cs = Some k \<Longrightarrow>
     k < length cs \<and> (cs ! k = a \<or> cs ! k = b) \<and> (\<forall>j < k. cs ! j \<noteq> a \<and> cs ! j \<noteq> b)"
proof (induction cs arbitrary: k)
  case (Cons c cs)
  show ?case
  proof (cases "c = a \<or> c = b")
    case False
    with Cons.prems obtain k' where "memchr2 a b cs = Some k'" and "k = Suc k'" by auto
    with Cons.IH [of k'] False show ?thesis by (auto simp: less_Suc_eq_0_disj)
  qed (use Cons.prems in auto)
qed simp

lemma find_crlf_from_spec:
  "find_crlf_from buf pos = (if \<exists>i \<ge> pos. crlf_at buf i
     then Some (LEAST i. pos \<le> i \<and> crlf_at buf i) else None)"
proof (induction buf pos rule: find_crlf_from.induct)
  case (1 buf pos)
  show ?case
  proof (cases "pos < length buf - 1")
    case False
    then have "\<not> (\<exists>i \<ge> pos. crlf_at buf i)" by (auto simp: crlf_at_def)
    with False show ?thesis by (subst find_crlf_from.simps) simp
  next
    case inside: True
    show ?thesis
    proof (cases "memchr2 (CHR 0x0D) (CHR 0x0A) (drop pos buf)")
      case None
      have "\<not> crlf_at buf i" if "pos \<le> i" for i
      proof
        assume "crlf_at buf i"
        then have "buf ! i \<in> set (drop pos buf)" and "buf ! i = CHR 0x0D"
          using that by (auto simp: crlf_at_def in_set_conv_nth intro!: exI [of _ "i - pos"])
        with memchr2_None [OF None] show False by auto
      qed
      then have "\<not> (\<exists>i \<ge> pos. crlf_at buf i)" by blast
      moreover have "find_crlf_from buf pos = None"
        using inside None by (subst find_crlf_from.simps) simp
      ultimately show ?thesis by simp
    next
      case (Some k)
      note k = memchr2_Some [OF Some]
      have before: "\<not> crlf_at buf i" if "pos \<le> i" "i < pos + k" for i
        using k that by (auto simp: crlf_at_def dest!: spec [of _ "i - pos"])
      show ?thesis
      proof (cases "crlf_at buf (pos + k)")
        case True
        then have "(LEAST i. pos \<le> i \<and> crlf_at buf i) = pos + k"
          by (intro Least_equality) (auto simp: not_less [symmetric] before)
        moreover have "find_crlf_from buf pos = Some (pos + k)"
          using inside Some True by (subst find_crlf_from.simps) (auto simp: crlf_at_def Let_def)
        ultimately show ?thesis using True by (auto intro: exI [of _ "pos + k"])
      next
        case False
        then have step: "find_crlf_from buf pos = find_crlf_from buf (pos + k + 1)"
          using inside Some by (subst find_crlf_from.simps) (auto simp: crlf_at_def Let_def)
        have same: "(pos \<le> i \<and> crlf_at buf i) = (pos + k + 1 \<le> i \<and> crlf_at buf i)" for i
          using before [of i] False by (cases "i < pos + k"; cases "i = pos + k") auto
        have "find_crlf_from buf (pos + k + 1) = (if \<exists>i \<ge> pos + k + 1. crlf_at buf i
            then Some (LEAST i. pos + k + 1 \<le> i \<and> crlf_at buf i) else None)"
          using "1.IH" [OF inside Some refl] False by (auto simp: crlf_at_def)
        then show ?thesis unfolding step by (simp only: same)
      qed
    qed
  qed
qed

lemma find_crlf_None: "find_crlf buf = None \<longleftrightarrow> (\<forall>i. \<not> crlf_at buf i)"
  by (simp add: find_crlf_def find_crlf_from_spec)

lemma find_crlf_Some:
  "find_crlf buf = Some i \<longleftrightarrow> crlf_at buf i \<and> (\<forall>j < i. \<not> crlf_at buf j)"
proof -
  have "(LEAST i. crlf_at buf i) = i \<longleftrightarrow> crlf_at buf i \<and> (\<forall>j < i. \<not> crlf_at buf j)"
    if "\<exists>i. crlf_at buf i"
    using that by (metis LeastI_ex Least_le not_less nat_neq_iff)
  then show ?thesis by (auto simp: find_crlf_def find_crlf_from_spec)
qed

lemma crlf_at_append: "crlf_at buf i \<Longrightarrow> crlf_at (buf @ more) i"
  by (auto simp: crlf_at_def nth_append)

lemma crlf_at_append_inside: "i + 1 < length buf \<Longrightarrow> crlf_at (buf @ more) i = crlf_at buf i"
  by (auto simp: crlf_at_def nth_append)

lemma find_crlf_append: "find_crlf buf = Some i \<Longrightarrow> find_crlf (buf @ more) = Some i"
  unfolding find_crlf_Some by (auto simp: crlf_at_append crlf_at_append_inside crlf_at_def nth_append)

lemma find_crlf_bound: "find_crlf buf = Some i \<Longrightarrow> i + 1 < length buf"
  by (simp add: find_crlf_Some crlf_at_def)

end
