(* ===== verification/Resp_Parser.thy ===== *)
theory Resp_Parser
  imports Resp
begin

text \<open>
  \<open>src/src/protocol/resp.rs\<close>, second half: the incremental parser (\<open>RespParser\<close>). The result
  type \<open>Result<Option<(RespValue, usize)>, String>\<close> of the parsing functions is
  \<open>parse_error + (resp_value \<times> nat) option\<close>; \<open>CapacityOverflow\<close> is the panic of
  \<open>Vec::with_capacity\<close>, which fails beyond \<open>cap\<close> elements (\<open>isize::MAX\<close> bytes divided by the
  size of a \<open>RespValue\<close>, a number the compiler chooses, hence a parameter).

  The lemmas show that the parser consumes at least one and at most all bytes of its
  input, that what it decided on a prefix it decides on every extension, that feeding a
  stream in pieces yields the values of the whole stream, and that the parser inverts
  the writer.
\<close>

section \<open>Parsing one value\<close>

datatype parse_error = Invalid bytes | CapacityOverflow

type_synonym parsed = "parse_error + (resp_value \<times> nat) option"

definition byte_slice :: "nat \<Rightarrow> nat \<Rightarrow> 'a list \<Rightarrow> 'a list" where
  "byte_slice a b xs = take (b - a) (drop a xs)"

definition parse_simple_string :: "bytes \<Rightarrow> parsed" where
  "parse_simple_string buf = (case find_crlf buf of
     Some e \<Rightarrow> Inr (Some (SimpleString (byte_slice 1 e buf), e + 2))
   | None \<Rightarrow> Inr None)"

definition parse_error :: "bytes \<Rightarrow> parsed" where
  "parse_error buf = (case find_crlf buf of
     Some e \<Rightarrow>
       (let msg = byte_slice 1 e buf in
        if \<not> utf8_valid msg then Inl (Invalid ''Invalid UTF-8 in error'')
        else Inr (Some (Error msg, e + 2)))
   | None \<Rightarrow> Inr None)"

definition parse_integer :: "bytes \<Rightarrow> parsed" where
  "parse_integer buf = (case find_crlf buf of
     Some e \<Rightarrow>
       (let num_str = byte_slice 1 e buf in
        if \<not> utf8_valid num_str then Inl (Invalid ''Invalid UTF-8 in integer'')
        else (case parse_i64 num_str of
            None \<Rightarrow> Inl (Invalid (''Invalid integer: '' @ num_str))
          | Some num \<Rightarrow> Inr (Some (Integer num, e + 2))))
   | None \<Rightarrow> Inr None)"

definition parse_bulk_string :: "bytes \<Rightarrow> parsed" where
  "parse_bulk_string buf = (case find_crlf buf of
     None \<Rightarrow> Inr None
   | Some len_end \<Rightarrow>
       (let len_str = byte_slice 1 len_end buf in
        if \<not> utf8_valid len_str then Inl (Invalid ''Invalid UTF-8 in bulk string length'')
        else (case parse_i64 len_str of
            None \<Rightarrow> Inl (Invalid (''Invalid bulk string length: '' @ len_str))
          | Some n \<Rightarrow>
              if sint n < 0 then Inr (Some (BulkString None, len_end + 2))
              else let len = unat n; data_start = len_end + 2; data_end = data_start + len in
                if length buf < data_end + 2 then Inr None
                else if buf ! data_end \<noteq> CHR 0x0D \<or> buf ! (data_end + 1) \<noteq> CHR 0x0A
                then Inl (Invalid ''Missing CRLF after bulk string'')
                else Inr (Some (BulkString (Some (byte_slice data_start data_end buf)), data_end + 2)))))"

function (sequential) parse_value :: "nat \<Rightarrow> bytes \<Rightarrow> parsed"
  and parse_array :: "nat \<Rightarrow> bytes \<Rightarrow> parsed"
  and parse_elements :: "nat \<Rightarrow> nat \<Rightarrow> bytes \<Rightarrow> nat \<Rightarrow> resp_value list \<Rightarrow> parsed" where
  "parse_value cap buf =
     (if buf = [] then Inr None
      else if buf ! 0 = CHR ''+'' then parse_simple_string buf
      else if buf ! 0 = CHR ''-'' then parse_error buf
      else if buf ! 0 = CHR '':'' then parse_integer buf
      else if buf ! 0 = CHR ''$'' then parse_bulk_string buf
      else if buf ! 0 = CHR ''*'' then parse_array cap buf
      else Inl (Invalid (''Invalid RESP type: '' @ byte_as_char (buf ! 0))))"
| "parse_array cap buf = (case find_crlf buf of
     None \<Rightarrow> Inr None
   | Some len_end \<Rightarrow>
       (let len_str = byte_slice 1 len_end buf in
        if \<not> utf8_valid len_str then Inl (Invalid ''Invalid UTF-8 in array length'')
        else (case parse_i64 len_str of
            None \<Rightarrow> Inl (Invalid (''Invalid array length: '' @ len_str))
          | Some n \<Rightarrow>
              if sint n < 0 then Inr (Some (Array None, len_end + 2))
              else if cap < unat n then Inl CapacityOverflow
              else parse_elements cap (unat n) buf (len_end + 2) [])))"
| "parse_elements cap n buf pos elements =
     (if n = 0 then Inr (Some (Array (Some elements), pos))
      else (case parse_value cap (drop pos buf) of
          Inl e \<Rightarrow> Inl e
        | Inr None \<Rightarrow> Inr None
        | Inr (Some (v, consumed)) \<Rightarrow>
            parse_elements cap (n - 1) buf (pos + consumed) (elements @ [v])))"
  by pat_completeness auto
termination
proof (relation "measures
    [\<lambda>x. case x of Inl (_, buf) \<Rightarrow> length buf | Inr (Inl (_, buf)) \<Rightarrow> length buf
       | Inr (Inr (_, n, buf, pos, _)) \<Rightarrow> length buf - pos,
     \<lambda>x. case x of Inl _ \<Rightarrow> 1 | Inr (Inl _) \<Rightarrow> 0 | Inr (Inr (_, n, _, _, _)) \<Rightarrow> Suc n]", goal_cases)
  case (3 cap buf e len_str n)
  then show ?case using find_crlf_bound [of buf e] by auto
qed auto

declare parse_value.simps [simp del] parse_array.simps [simp del] parse_elements.simps [simp del]

section \<open>The parser state\<close>

record resp_parser =
  rp_buffer :: bytes
  rp_position :: nat

definition new_parser :: resp_parser where
  "new_parser = \<lparr>rp_buffer = [], rp_position = 0\<rparr>"

definition feed :: "resp_parser \<Rightarrow> bytes \<Rightarrow> resp_parser" where
  "feed p data = p\<lparr>rp_buffer := rp_buffer p @ data\<rparr>"

definition parse_next :: "nat \<Rightarrow> resp_parser \<Rightarrow> (parse_error + resp_value option) \<times> resp_parser" where
  "parse_next cap p =
     (if length (rp_buffer p) \<le> rp_position p then (Inr None, p)
      else case parse_value cap (drop (rp_position p) (rp_buffer p)) of
          Inr (Some (value, consumed)) \<Rightarrow>
            (let position = rp_position p + consumed in
             (Inr (Some value),
              if length (rp_buffer p) div 2 < position
              then p\<lparr>rp_buffer := drop position (rp_buffer p), rp_position := 0\<rparr>
              else p\<lparr>rp_position := position\<rparr>))
        | Inr None \<Rightarrow> (Inr None, p)
        | Inl e \<Rightarrow> (Inl e, p))"

text \<open>The bytes that are fed and not yet consumed.\<close>

definition pending :: "resp_parser \<Rightarrow> bytes" where
  "pending p = drop (rp_position p) (rp_buffer p)"

section \<open>What a parse consumes\<close>

lemma parse_line_consumes:
  "parse_simple_string buf = Inr (Some (v, c)) \<Longrightarrow> 0 < c \<and> c \<le> length buf"
  "parse_error buf = Inr (Some (v, c)) \<Longrightarrow> 0 < c \<and> c \<le> length buf"
  "parse_integer buf = Inr (Some (v, c)) \<Longrightarrow> 0 < c \<and> c \<le> length buf"
  "parse_bulk_string buf = Inr (Some (v, c)) \<Longrightarrow> 0 < c \<and> c \<le> length buf"
  by (auto simp: parse_simple_string_def parse_error_def parse_integer_def parse_bulk_string_def
        Let_def dest!: find_crlf_bound split: option.splits if_splits)

lemma parse_consumes:
  "parse_value cap buf = Inr (Some (v, c)) \<Longrightarrow> 0 < c \<and> c \<le> length buf"
  "parse_array cap buf = Inr (Some (v, c)) \<Longrightarrow> 0 < c \<and> c \<le> length buf"
  "parse_elements cap n buf pos es = Inr (Some (v, c)) \<Longrightarrow> pos \<le> length buf \<Longrightarrow> pos \<le> c \<and> c \<le> length buf"
proof (induction cap buf and cap buf and cap n buf pos es arbitrary: v c and v c and v c
    rule: parse_value_parse_array_parse_elements.induct)
  case (1 cap buf)
  from "1.prems" show ?case
    by (subst (asm) parse_value.simps) (auto dest: parse_line_consumes "1.IH" split: if_splits)
next
  case (2 cap buf)
  from "2.prems" obtain e n where e: "find_crlf buf = Some e"
    and n: "utf8_valid (byte_slice 1 e buf)" "parse_i64 (byte_slice 1 e buf) = Some n"
    and rest: "sint n < 0 \<and> c = e + 2 \<or>
      \<not> sint n < 0 \<and> \<not> cap < unat n \<and> parse_elements cap (unat n) buf (e + 2) [] = Inr (Some (v, c))"
    by (subst (asm) parse_array.simps) (auto simp: Let_def split: option.splits if_splits)
  note bound = find_crlf_bound [OF e]
  from rest show ?case
    using "2.IH" [OF e refl _ n(2), of v c] n(1) bound by auto
next
  case (3 cap n buf pos es)
  show ?case
  proof (cases "n = 0")
    case True
    with "3.prems" show ?thesis by (subst (asm) (1) parse_elements.simps) simp
  next
    case False
    with "3.prems" obtain w k where w: "parse_value cap (drop pos buf) = Inr (Some (w, k))"
      and rest: "parse_elements cap (n - 1) buf (pos + k) (es @ [w]) = Inr (Some (v, c))"
      by (subst (asm) (1) parse_elements.simps) (auto split: sum.splits option.splits)
    from "3.IH"(1) [OF False w] "3.prems"(2) have "0 < k" "pos + k \<le> length buf" by auto
    with "3.IH"(2) [OF False w refl refl rest] show ?thesis by auto
  qed
qed

section \<open>More input never changes a decision\<close>

text \<open>A parse that is decided: a value or an error, as opposed to "need more data".\<close>

lemma byte_slice_append: "b \<le> length xs \<Longrightarrow> byte_slice a b (xs @ ys) = byte_slice a b xs"
  by (cases "a \<le> length xs") (auto simp: byte_slice_def)

lemma parse_line_append:
  "parse_simple_string buf \<noteq> Inr None \<Longrightarrow> parse_simple_string (buf @ suf) = parse_simple_string buf"
  "parse_error buf \<noteq> Inr None \<Longrightarrow> parse_error (buf @ suf) = parse_error buf"
  "parse_integer buf \<noteq> Inr None \<Longrightarrow> parse_integer (buf @ suf) = parse_integer buf"
  "parse_bulk_string buf \<noteq> Inr None \<Longrightarrow> parse_bulk_string (buf @ suf) = parse_bulk_string buf"
proof -
  have *: "byte_slice a i (buf @ suf) = byte_slice a i buf" if "find_crlf buf = Some i" for i a
    using find_crlf_bound [OF that] by (simp add: byte_slice_append)
  show "parse_simple_string buf \<noteq> Inr None \<Longrightarrow> parse_simple_string (buf @ suf) = parse_simple_string buf"
    and "parse_error buf \<noteq> Inr None \<Longrightarrow> parse_error (buf @ suf) = parse_error buf"
    and "parse_integer buf \<noteq> Inr None \<Longrightarrow> parse_integer (buf @ suf) = parse_integer buf"
    by (auto simp: parse_simple_string_def parse_error_def parse_integer_def find_crlf_append *
          split: option.splits)
  show "parse_bulk_string (buf @ suf) = parse_bulk_string buf" if "parse_bulk_string buf \<noteq> Inr None"
  proof (cases "find_crlf buf")
    case None
    with that show ?thesis by (simp add: parse_bulk_string_def)
  next
    case (Some i)
    note eqs = Some find_crlf_append [OF Some] *[OF Some]
    show ?thesis
    proof (cases "\<exists>n. parse_i64 (byte_slice 1 i buf) = Some n \<and> 0 \<le> sint n \<and> utf8_valid (byte_slice 1 i buf)")
      case False
      then show ?thesis
        by (cases "parse_i64 (byte_slice 1 i buf)") (auto simp: parse_bulk_string_def eqs Let_def)
    next
      case True
      then obtain n where n: "parse_i64 (byte_slice 1 i buf) = Some n" "\<not> sint n < 0"
        "utf8_valid (byte_slice 1 i buf)" by auto
      define d where "d = i + 2 + unat n"
      have "d + 2 \<le> length buf"
        using that n eqs by (auto simp: parse_bulk_string_def Let_def d_def split: if_splits)
      then have "(buf @ suf) ! d = buf ! d" "(buf @ suf) ! (d + 1) = buf ! (d + 1)"
        "byte_slice (i + 2) d (buf @ suf) = byte_slice (i + 2) d buf"
        by (simp_all add: nth_append byte_slice_append)
      with \<open>d + 2 \<le> length buf\<close> n eqs show ?thesis
        by (simp add: parse_bulk_string_def Let_def d_def)
    qed
  qed
qed

lemma parse_append:
  "parse_value cap buf \<noteq> Inr None \<Longrightarrow> parse_value cap (buf @ suf) = parse_value cap buf"
  "parse_array cap buf \<noteq> Inr None \<Longrightarrow> parse_array cap (buf @ suf) = parse_array cap buf"
  "parse_elements cap n buf pos es \<noteq> Inr None \<Longrightarrow> pos \<le> length buf \<Longrightarrow>
     parse_elements cap n (buf @ suf) pos es = parse_elements cap n buf pos es"
proof (induction cap buf and cap buf and cap n buf pos es
    rule: parse_value_parse_array_parse_elements.induct)
  case (1 cap buf)
  show ?case
  proof (cases "buf = []")
    case True
    with "1.prems" show ?thesis by (simp add: parse_value.simps)
  next
    case False
    then have "(buf @ suf) ! 0 = buf ! 0" by (simp add: nth_append)
    with False "1.prems" "1.IH" show ?thesis
      by (subst (asm) parse_value.simps, subst (1 2) parse_value.simps)
         (auto simp: parse_line_append split: if_splits)
  qed
next
  case (2 cap buf)
  from "2.prems" obtain i where i: "find_crlf buf = Some i"
    by (subst (asm) parse_array.simps) (auto split: option.splits)
  note bound = find_crlf_bound [OF i]
  have line: "byte_slice a i (buf @ suf) = byte_slice a i buf" for a using bound by (simp add: byte_slice_append)
  have unfold: "parse_array cap b = (let len_str = byte_slice 1 i b in
        if \<not> utf8_valid len_str then Inl (Invalid ''Invalid UTF-8 in array length'')
        else (case parse_i64 len_str of
            None \<Rightarrow> Inl (Invalid (''Invalid array length: '' @ len_str))
          | Some n \<Rightarrow>
              if sint n < 0 then Inr (Some (Array None, i + 2))
              else if cap < unat n then Inl CapacityOverflow
              else parse_elements cap (unat n) b (i + 2) []))"
    if "find_crlf b = Some i" for b
    using that by (subst parse_array.simps) simp
  show ?case
    using "2.prems" "2.IH" [OF i refl] bound
    unfolding unfold [OF i] unfold [OF find_crlf_append [OF i]]
    by (auto simp: Let_def line split: option.splits if_splits)
next
  case (3 cap n buf pos es)
  show ?case
  proof (cases "n = 0")
    case True
    then show ?thesis by (simp add: parse_elements.simps)
  next
    case False
    have "parse_value cap (drop pos buf) \<noteq> Inr None"
      using "3.prems"(1) False by (subst (asm) parse_elements.simps) auto
    with "3.IH"(1) [OF False] "3.prems"(2)
    have same: "parse_value cap (drop pos (buf @ suf)) = parse_value cap (drop pos buf)" by simp
    show ?thesis
    proof (cases "parse_value cap (drop pos buf)")
      case (Inl e)
      with same False show ?thesis by (simp add: parse_elements.simps)
    next
      case (Inr r)
      with \<open>parse_value cap (drop pos buf) \<noteq> Inr None\<close> obtain w k
        where w: "parse_value cap (drop pos buf) = Inr (Some (w, k))" by (cases r) auto
      have "pos + k \<le> length buf" using parse_consumes(1) [OF w] "3.prems"(2) by auto
      moreover have "parse_elements cap (n - 1) buf (pos + k) (es @ [w]) \<noteq> Inr None"
        using "3.prems"(1) False w by (subst (asm) parse_elements.simps) simp
      ultimately have "parse_elements cap (n - 1) (buf @ suf) (pos + k) (es @ [w]) =
          parse_elements cap (n - 1) buf (pos + k) (es @ [w])"
        using "3.IH"(2) [OF False w refl refl] by blast
      with same w False show ?thesis by (subst (1 2) parse_elements.simps) simp
    qed
  qed
qed

section \<open>Streams\<close>

text \<open>
  \<open>drain\<close> is the loop of \<open>process_read\<close> without the execution: it takes values off the
  parser until more data is needed or an error ends the connection. \<open>parse_stream\<close> is the
  reference: the values of a byte sequence, whatever the reads that delivered it.
\<close>

lemma parse_value_progress:
  "parse_value cap buf = Inr (Some (v, c)) \<Longrightarrow> length (drop c buf) < length buf"
  using parse_consumes(1) [of cap buf v c] by auto

function parse_stream :: "nat \<Rightarrow> bytes \<Rightarrow> resp_value list \<times> (parse_error + bytes)" where
  "parse_stream cap buf = (case parse_value cap buf of
     Inl e \<Rightarrow> ([], Inl e)
   | Inr None \<Rightarrow> ([], Inr buf)
   | Inr (Some (v, c)) \<Rightarrow> (let (vs, r) = parse_stream cap (drop c buf) in (v # vs, r)))"
  by pat_completeness auto
termination
  by (relation "measure (\<lambda>(cap, buf). length buf)") (auto simp del: length_drop intro: parse_value_progress)

declare parse_stream.simps [simp del]

lemma pending_feed: "rp_position p \<le> length (rp_buffer p) \<Longrightarrow> pending (feed p d) = pending p @ d"
  by (simp add: pending_def feed_def)

lemma parse_next_pending:
  assumes "rp_position p \<le> length (rp_buffer p)"
  shows "parse_value cap (pending p) = Inl e \<Longrightarrow> parse_next cap p = (Inl e, p)"
    and "parse_value cap (pending p) = Inr None \<Longrightarrow> parse_next cap p = (Inr None, p)"
    and "parse_value cap (pending p) = Inr (Some (v, c)) \<Longrightarrow>
      \<exists>p'. parse_next cap p = (Inr (Some v), p') \<and> pending p' = drop c (pending p) \<and>
           rp_position p' \<le> length (rp_buffer p')"
proof -
  have nonempty: "\<not> length (rp_buffer p) \<le> rp_position p" if "parse_value cap (pending p) \<noteq> Inr None"
    using that by (auto simp: pending_def parse_value.simps)
  show "parse_value cap (pending p) = Inl e \<Longrightarrow> parse_next cap p = (Inl e, p)"
    using nonempty by (simp add: parse_next_def flip: pending_def)
  show "parse_value cap (pending p) = Inr None \<Longrightarrow> parse_next cap p = (Inr None, p)"
    by (simp add: parse_next_def flip: pending_def)
  assume v: "parse_value cap (pending p) = Inr (Some (v, c))"
  from parse_consumes(1) [OF this] assms have bound: "rp_position p + c \<le> length (rp_buffer p)"
    by (auto simp: pending_def)
  have "parse_next cap p = (Inr (Some v),
      if length (rp_buffer p) div 2 < rp_position p + c
      then p\<lparr>rp_buffer := drop (rp_position p + c) (rp_buffer p), rp_position := 0\<rparr>
      else p\<lparr>rp_position := rp_position p + c\<rparr>)"
    using v nonempty by (simp add: parse_next_def Let_def flip: pending_def)
  then show "\<exists>p'. parse_next cap p = (Inr (Some v), p') \<and> pending p' = drop c (pending p) \<and>
           rp_position p' \<le> length (rp_buffer p')"
    using bound by (cases "length (rp_buffer p) div 2 < rp_position p + c")
      (simp_all add: pending_def add.commute)
qed

lemma parse_next_Some_shrinks:
  assumes "parse_next cap p = (Inr (Some v), p')"
  shows "length (rp_buffer p') - rp_position p' < length (rp_buffer p) - rp_position p"
proof -
  from assms have inside: "rp_position p \<le> length (rp_buffer p)"
    by (auto simp: parse_next_def split: if_splits)
  show ?thesis
  proof (cases "parse_value cap (pending p)")
    case (Inl e)
    with parse_next_pending(1) [OF inside this] assms show ?thesis by simp
  next
    case (Inr r)
    show ?thesis
    proof (cases r)
      case None
      with Inr parse_next_pending(2) [OF inside, of cap] assms show ?thesis by simp
    next
      case (Some wc)
      then obtain w c where "parse_value cap (pending p) = Inr (Some (w, c))"
        using Inr by (cases wc) auto
      with parse_next_pending(3) [OF inside this] parse_value_progress [OF this] assms
      have "length (pending p') < length (pending p)" by auto
      then show ?thesis by (simp add: pending_def)
    qed
  qed
qed

function drain :: "nat \<Rightarrow> resp_parser \<Rightarrow> resp_value list \<times> (parse_error + resp_parser)" where
  "drain cap p = (case parse_next cap p of
     (Inl e, p') \<Rightarrow> ([], Inl e)
   | (Inr None, p') \<Rightarrow> ([], Inr p')
   | (Inr (Some v), p') \<Rightarrow> (let (vs, r) = drain cap p' in (v # vs, r)))"
  by pat_completeness auto
termination
  by (relation "measure (\<lambda>(cap, p). length (rp_buffer p) - rp_position p)")
     (auto dest: parse_next_Some_shrinks [OF sym])

declare drain.simps [simp del]

fun drain_reads :: "nat \<Rightarrow> resp_parser \<Rightarrow> bytes list \<Rightarrow> resp_value list \<times> (parse_error + resp_parser)" where
  "drain_reads cap p [] = ([], Inr p)"
| "drain_reads cap p (d # ds) = (case drain cap (feed p d) of
     (vs, Inl e) \<Rightarrow> (vs, Inl e)
   | (vs, Inr p') \<Rightarrow> (let (ws, r) = drain_reads cap p' ds in (vs @ ws, r)))"

definition parser_ok :: "resp_parser \<Rightarrow> bool" where
  "parser_ok p \<longleftrightarrow> rp_position p \<le> length (rp_buffer p)"

lemma drain_parse_stream:
  assumes "parser_ok p"
  shows "(case drain cap p of (vs, Inl e) \<Rightarrow> parse_stream cap (pending p) = (vs, Inl e)
          | (vs, Inr p') \<Rightarrow> parse_stream cap (pending p) = (vs, Inr (pending p')) \<and> parser_ok p')"
  using assms
proof (induction cap p rule: drain.induct)
  case (1 cap p)
  then have inside: "rp_position p \<le> length (rp_buffer p)" by (simp add: parser_ok_def)
  consider e where "parse_value cap (pending p) = Inl e" | "parse_value cap (pending p) = Inr None"
    | v c where "parse_value cap (pending p) = Inr (Some (v, c))"
    by (metis obj_sumE option.exhaust surj_pair)
  then show ?case
  proof cases
    case (1 e)
    with parse_next_pending(1) [OF inside this] show ?thesis
      by (simp add: drain.simps [of cap p] parse_stream.simps [of cap "pending p"])
  next
    case 2
    with parse_next_pending(2) [OF inside this] inside show ?thesis
      by (simp add: drain.simps [of cap p] parse_stream.simps [of cap "pending p"] parser_ok_def)
  next
    case (3 v c)
    from parse_next_pending(3) [OF inside this] obtain p' where
      p': "parse_next cap p = (Inr (Some v), p')" "pending p' = drop c (pending p)" "parser_ok p'"
      by (auto simp: parser_ok_def)
    have stream: "parse_stream cap (pending p) =
        (let (vs, r) = parse_stream cap (pending p') in (v # vs, r))"
      using 3 p'(2) by (simp add: parse_stream.simps [of cap "pending p"])
    have "drain cap p = (let (vs, r) = drain cap p' in (v # vs, r))"
      using p'(1) by (simp add: drain.simps [of cap p])
    moreover note "1.IH" [OF p'(1) [symmetric] refl refl p'(3)]
    ultimately show ?thesis unfolding stream by (auto split: prod.splits sum.splits)
  qed
qed

lemma parse_stream_append:
  "parse_stream cap (buf @ d) = (case parse_stream cap buf of
     (vs, Inl e) \<Rightarrow> (vs, Inl e)
   | (vs, Inr rest) \<Rightarrow> (let (ws, r) = parse_stream cap (rest @ d) in (vs @ ws, r)))"
proof (induction cap buf rule: parse_stream.induct)
  case (1 cap buf)
  consider e where "parse_value cap buf = Inl e" | "parse_value cap buf = Inr None"
    | v c where "parse_value cap buf = Inr (Some (v, c))"
    by (metis obj_sumE option.exhaust surj_pair)
  then show ?case
  proof cases
    case (1 e)
    with parse_append(1) [of cap buf d] show ?thesis
      by (simp add: parse_stream.simps [of cap buf] parse_stream.simps [of cap "buf @ d"])
  next
    case 2
    then show ?thesis by (simp add: parse_stream.simps [of cap buf])
  next
    case (3 v c)
    with parse_append(1) [of cap buf d] have "parse_value cap (buf @ d) = Inr (Some (v, c))" by simp
    moreover have "c \<le> length buf" using parse_consumes(1) [OF 3] by simp
    ultimately have "parse_stream cap (buf @ d) =
        (let (vs, r) = parse_stream cap (drop c buf @ d) in (v # vs, r))"
      by (simp add: parse_stream.simps [of cap "buf @ d"])
    moreover have "parse_stream cap buf = (let (vs, r) = parse_stream cap (drop c buf) in (v # vs, r))"
      using 3 by (simp add: parse_stream.simps [of cap buf])
    ultimately show ?thesis
      using "1.IH" [OF 3 refl refl] by (auto split: prod.splits sum.splits)
  qed
qed

text \<open>Whatever the sizes of the reads, the connection sees the values of the whole stream.\<close>

lemma drain_reads_stream:
  assumes "parser_ok p"
  shows "fst (drain_reads cap p ds) = fst (parse_stream cap (pending p @ concat ds)) \<or>
      (ds = [] \<and> fst (drain_reads cap p ds) = [])"
  using assms
proof (induction ds arbitrary: p)
  case (Cons d ds)
  have fed: "pending (feed p d) = pending p @ d" "parser_ok (feed p d)"
    using Cons.prems by (simp add: pending_feed parser_ok_def, simp add: parser_ok_def feed_def)
  obtain vs r where dr: "drain cap (feed p d) = (vs, r)" by force
  have split: "parse_stream cap (pending p @ concat (d # ds)) = (case parse_stream cap (pending p @ d) of
     (vs, Inl e) \<Rightarrow> (vs, Inl e)
   | (vs, Inr rest) \<Rightarrow> (let (ws, r) = parse_stream cap (rest @ concat ds) in (vs @ ws, r)))"
    using parse_stream_append [of cap "pending p @ d" "concat ds"] by simp
  show ?case
  proof (cases r)
    case (Inl e)
    with drain_parse_stream [OF fed(2), of cap] dr fed(1) split show ?thesis by simp
  next
    case (Inr p')
    with drain_parse_stream [OF fed(2), of cap] dr fed(1)
    have st: "parse_stream cap (pending p @ d) = (vs, Inr (pending p'))" and ok: "parser_ok p'" by auto
    show ?thesis
    proof (cases ds)
      case Nil
      with Inr dr st show ?thesis by simp
    next
      case (Cons d' ds')
      with Cons.IH [OF ok] have "fst (drain_reads cap p' ds) = fst (parse_stream cap (pending p' @ concat ds))"
        by blast
      with Inr dr st split show ?thesis by (auto split: prod.splits)
    qed
  qed
qed simp

section \<open>The parser inverts the writer\<close>

text \<open>
  A value that the protocol can carry: line values without a line end inside, errors in
  UTF-8 (they are \<open>String\<close>s), lengths that fit.
\<close>

fun wire_ok :: "nat \<Rightarrow> resp_value \<Rightarrow> bool" where
  "wire_ok cap (SimpleString s) \<longleftrightarrow> find_crlf s = None"
| "wire_ok cap (Error e) \<longleftrightarrow> find_crlf e = None \<and> utf8_valid e"
| "wire_ok cap (Integer n) \<longleftrightarrow> True"
| "wire_ok cap (BulkString (Some s)) \<longleftrightarrow> length s < 2 ^ 63"
| "wire_ok cap (BulkString None) \<longleftrightarrow> True"
| "wire_ok cap (Array (Some arr)) \<longleftrightarrow>
     length arr \<le> cap \<and> length arr < 2 ^ 63 \<and> list_all (wire_ok cap) arr"
| "wire_ok cap (Array None) \<longleftrightarrow> True"

lemma write_array_concat:
  assumes "\<And>v b. v \<in> set arr \<Longrightarrow> write_resp_value b v = b @ write_resp_value [] v"
  shows "foldl write_resp_value buf arr = buf @ concat (map (write_resp_value []) arr)"
  using assms
proof (induction arr arbitrary: buf)
  case (Cons v arr)
  have "foldl write_resp_value buf (v # arr) = foldl write_resp_value (buf @ write_resp_value [] v) arr"
    using Cons.prems [of v buf] by simp
  also have "\<dots> = (buf @ write_resp_value [] v) @ concat (map (write_resp_value []) arr)"
    by (rule Cons.IH) (rule Cons.prems, simp)
  finally show ?case by simp
qed simp

lemma write_resp_value_append: "write_resp_value buf v = buf @ write_resp_value [] v"
proof (induction v arbitrary: buf)
  case (BulkString x)
  then show ?case by (cases x) auto
next
  case (Array x)
  show ?case
  proof (cases x)
    case (Some arr)
    then have "write_resp_value b v = b @ write_resp_value [] v" if "v \<in> set arr" for b v
      using Array.IH [of arr v b] that by simp
    note concat = write_array_concat [OF this]
    show ?thesis by (simp add: Some concat)
  qed simp
qed auto

lemma write_resp_value_array:
  "write_resp_value [] (Array (Some arr)) =
     ''*'' @ show_nat (length arr) @ crlf @ concat (map (write_resp_value []) arr)"
  by (simp add: write_array_concat [OF write_resp_value_append])

lemma crlf_at_Cons: "crlf_at (c # s) i \<longleftrightarrow>
    (case i of 0 \<Rightarrow> c = CHR 0x0D \<and> s \<noteq> [] \<and> hd s = CHR 0x0A | Suc j \<Rightarrow> crlf_at s j)"
  by (cases s) (auto simp: crlf_at_def split: nat.splits)

lemma find_crlf_line:
  assumes "find_crlf s = None" and "c \<noteq> CHR 0x0D"
  shows "find_crlf (c # s @ CHR 0x0D # CHR 0x0A # rest) = Some (Suc (length s))"
proof -
  have here: "crlf_at (s @ CHR 0x0D # CHR 0x0A # rest) (length s)"
    by (simp add: crlf_at_def nth_append)
  have before: "\<not> crlf_at (s @ CHR 0x0D # CHR 0x0A # rest) j" if "j < length s" for j
    using assms(1) that unfolding find_crlf_None
    by (cases "Suc j = length s") (auto simp: crlf_at_def nth_append)
  show ?thesis
    unfolding find_crlf_Some using assms(2) here before
    by (auto simp: crlf_at_Cons split: nat.splits)
qed

lemma no_crlf_digits: "(\<And>c. c \<in> set s \<Longrightarrow> is_digit c \<or> c = CHR ''-'') \<Longrightarrow> find_crlf s = None"
proof -
  assume digits: "\<And>c. c \<in> set s \<Longrightarrow> is_digit c \<or> c = CHR ''-''"
  have "\<not> crlf_at s i" for i
  proof
    assume "crlf_at s i"
    then have "CHR 0x0D \<in> set s" by (metis crlf_at_def add_lessD1 nth_mem)
    with digits [of "CHR 0x0D"] show False by (simp add: is_digit_def)
  qed
  then show ?thesis by (simp add: find_crlf_None)
qed

lemma no_crlf_numbers:
  "find_crlf (show_nat n) = None" "find_crlf (show_int i) = None" "find_crlf (show_i64 w) = None"
  by (rule no_crlf_digits, auto simp: show_i64_def dest: show_nat_mem show_int_mem)+

lemma ascii_numbers:
  "utf8_valid (show_nat n)" "utf8_valid (show_int i)" "utf8_valid (show_i64 w)"
proof -
  have "is_ascii s" if "\<And>c. c \<in> set s \<Longrightarrow> is_digit c \<or> c = CHR ''-''" for s
    using that by (force simp: is_ascii_def list_all_iff is_digit_def)
  then show "utf8_valid (show_nat n)" "utf8_valid (show_int i)" "utf8_valid (show_i64 w)"
    by (intro is_ascii_valid; auto simp: show_i64_def dest: show_nat_mem show_int_mem)+
qed

lemma byte_slice_line: "byte_slice (Suc 0) (Suc (length s)) (c # s @ t) = s"
  by (simp add: byte_slice_def)

lemmas line_simps = find_crlf_line no_crlf_numbers ascii_numbers byte_slice_line

lemma parse_bulk_write:
  assumes "length s < 2 ^ 63"
  shows "parse_bulk_string (''$'' @ show_nat (length s) @ crlf @ s @ crlf @ rest) =
    Inr (Some (BulkString (Some s), length (write_resp_value [] (BulkString (Some s)))))"
proof -
  let ?n = "show_nat (length s)"
  let ?buf = "CHR ''$'' # ?n @ crlf @ s @ crlf @ rest"
  have crlf: "find_crlf ?buf = Some (Suc (length ?n))"
    using find_crlf_line [of ?n "CHR ''$''" "s @ crlf @ rest"] no_crlf_numbers by simp
  have num: "parse_i64 ?n = Some (word_of_nat (length s))"
    using assms by (rule parse_i64_show_nat)
  have sint: "\<not> sint (word_of_nat (length s) :: i64) < 0" and unat: "unat (word_of_nat (length s) :: i64) = length s"
    using assms sint_word_of_int64 [of "int (length s)"]
    by (simp_all add: in_i64_def unat_of_nat)
  have data: "byte_slice (Suc (length ?n) + 2) (Suc (length ?n) + 2 + length s) ?buf = s"
    and cr: "?buf ! (Suc (length ?n) + 2 + length s) = CHR 0x0D"
    and lf: "?buf ! (Suc (length ?n) + 2 + length s + 1) = CHR 0x0A"
    by (simp_all add: byte_slice_def nth_append)
  show ?thesis
    using crlf num sint unat data cr lf
    by (simp add: parse_bulk_string_def Let_def byte_slice_line ascii_numbers)
qed

lemma parse_elements_write:
  assumes "\<And>v rest. v \<in> set vs \<Longrightarrow>
      parse_value cap (write_resp_value [] v @ rest) = Inr (Some (v, length (write_resp_value [] v)))"
  shows "parse_elements cap (length vs) (pre @ concat (map (write_resp_value []) vs) @ rest) (length pre) es =
     Inr (Some (Array (Some (es @ vs)), length pre + length (concat (map (write_resp_value []) vs))))"
  using assms
proof (induction vs arbitrary: pre es)
  case Nil
  then show ?case by (simp add: parse_elements.simps)
next
  case (Cons v vs)
  let ?w = "write_resp_value [] v"
  have "parse_value cap (?w @ concat (map (write_resp_value []) vs) @ rest) = Inr (Some (v, length ?w))"
    using Cons.prems by simp
  moreover have "parse_elements cap (length vs) ((pre @ ?w) @ concat (map (write_resp_value []) vs) @ rest)
      (length (pre @ ?w)) (es @ [v]) =
     Inr (Some (Array (Some ((es @ [v]) @ vs)), length (pre @ ?w) + length (concat (map (write_resp_value []) vs))))"
    using Cons.prems by (intro Cons.IH) auto
  ultimately show ?case by (subst parse_elements.simps) (simp add: add.assoc)
qed

lemma minus_one_line: "find_crlf ''-1'' = None" "parse_i64 ''-1'' = Some (- 1)"
proof -
  show "find_crlf ''-1'' = None" by (rule no_crlf_digits) (auto simp: is_digit_def)
  have "show_int (- 1) = ''-1''"
    by (simp add: show_int_def show_nat.simps digit_char_def char_of_def bit_0)
  then show "parse_i64 ''-1'' = Some (- 1)" using parse_i64_show_int [of "- 1"] by simp
qed

lemma parse_write_value:
  "wire_ok cap v \<Longrightarrow>
     parse_value cap (write_resp_value [] v @ rest) = Inr (Some (v, length (write_resp_value [] v)))"
proof (induction v arbitrary: rest)
  case (SimpleString s)
  then show ?case by (simp add: parse_value.simps parse_simple_string_def line_simps)
next
  case (Error e)
  then show ?case by (simp add: parse_value.simps parse_error_def line_simps Let_def)
next
  case (Integer n)
  then show ?case by (simp add: parse_value.simps parse_integer_def line_simps Let_def)
next
  case (BulkString x)
  show ?case
  proof (cases x)
    case None
    have "find_crlf (CHR ''$'' # ''-1'' @ CHR 0x0D # CHR 0x0A # rest) = Some (Suc (length ''-1''))"
      by (rule find_crlf_line) (auto simp: minus_one_line)
    moreover note minus_one_line(2)
    ultimately show ?thesis
      using None by (simp add: parse_value.simps parse_bulk_string_def Let_def byte_slice_def)
  next
    case (Some s)
    with BulkString parse_bulk_write [of s rest] show ?thesis
      by (simp add: parse_value.simps)
  qed
next
  case (Array x)
  show ?case
  proof (cases x)
    case None
    have "find_crlf (CHR ''*'' # ''-1'' @ CHR 0x0D # CHR 0x0A # rest) = Some (Suc (length ''-1''))"
      by (rule find_crlf_line) (auto simp: minus_one_line)
    moreover note minus_one_line(2)
    ultimately show ?thesis
      using None by (simp add: parse_value.simps parse_array.simps Let_def byte_slice_def)
  next
    case (Some arr)
    let ?n = "show_nat (length arr)"
    let ?body = "concat (map (write_resp_value []) arr)"
    have ok: "length arr \<le> cap" "length arr < 2 ^ 63" "list_all (wire_ok cap) arr"
      using Array.prems Some by auto
    have crlf: "find_crlf (CHR ''*'' # ?n @ crlf @ ?body @ rest) = Some (Suc (length ?n))"
      using find_crlf_line [of ?n "CHR ''*''" "?body @ rest"] no_crlf_numbers by simp
    have num: "parse_i64 ?n = Some (word_of_nat (length arr))"
      using ok(2) by (rule parse_i64_show_nat)
    have sint: "\<not> sint (word_of_nat (length arr) :: i64) < 0"
      and unat: "unat (word_of_nat (length arr) :: i64) = length arr"
      using ok(2) sint_word_of_int64 [of "int (length arr)"] by (simp_all add: in_i64_def unat_of_nat)
    have elems: "parse_elements cap (length arr) ((CHR ''*'' # ?n @ crlf) @ ?body @ rest)
        (length (CHR ''*'' # ?n @ crlf)) [] =
      Inr (Some (Array (Some ([] @ arr)), length (CHR ''*'' # ?n @ crlf) + length ?body))"
      using Array.IH Some ok(3) by (intro parse_elements_write) (auto simp: list_all_iff)
    show ?thesis
      using crlf num sint unat elems ok(1) unfolding Some write_resp_value_array
      by (simp add: parse_value.simps parse_array.simps Let_def byte_slice_line ascii_numbers)
  qed
qed

end
