(* ===== verification/Command.thy ===== *)
theory Command
  imports Resp
begin

text \<open>
  \<open>src/src/protocol/command/mod.rs\<close>: the parsed commands and their classification, and the
  operations that the connection hands to the pub/sub layer (\<open>PubSubOp\<close> of
  \<open>src/src/network/connection.rs\<close>).
\<close>

datatype (plugins only: code quickcheck_random) command =
    Get bytes
  | Set bytes bytes "u64 option" "u64 option"
  | Del "bytes list"
  | Exists "bytes list"
  | Incr bytes
  | IncrBy bytes i64
  | Decr bytes
  | DecrBy bytes i64
  | Expire bytes u64
  | PExpire bytes u64
  | Ttl bytes
  | PTtl bytes
  | Persist bytes
  | MGet "bytes list"
  | MSet "(bytes \<times> bytes) list"
  | Ping "bytes option"
  | Echo bytes
  | Info "bytes option"
  | Config bytes "bytes list"
  | Command "bytes option" "bytes list"
  | Quit
  | FlushDb
  | Keys bytes
  | Scan bytes u64 "bytes option"
  | JsonPatch bytes bytes
  | Cas bytes bytes bytes
  | Auth bytes
  | LPush bytes "bytes list"
  | RPush bytes "bytes list"
  | LPop bytes "u64 option"
  | RPop bytes "u64 option"
  | LLen bytes
  | LRange bytes i64 i64
  | LIndex bytes i64
  | Subscribe "bytes list"
  | Unsubscribe "bytes list option"
  | PSubscribe "bytes list"
  | PUnsubscribe "bytes list option"
  | Publish bytes bytes
  | PubSub bytes "bytes list"
  | Client bytes "bytes list"
  | Multi
  | Exec
  | Discard
  | Watch "bytes list"
  | Unwatch
  | HSet bytes "(bytes \<times> bytes) list"
  | HGet bytes bytes
  | HMGet bytes "bytes list"
  | HDel bytes "bytes list"
  | HExists bytes bytes
  | HGetAll bytes
  | HLen bytes
  | HKeys bytes
  | HVals bytes
  | HIncrBy bytes bytes i64

datatype pubsub_op =
    OpSubscribe "bytes list"
  | OpUnsubscribe "bytes list option"
  | OpPSubscribe "bytes list"
  | OpPUnsubscribe "bytes list option"
  | OpPublish bytes bytes
  | OpChannels "bytes option"
  | OpNumSub "bytes list"
  | OpNumPat

definition is_pubsub_command :: "command \<Rightarrow> bool" where
  "is_pubsub_command c = (case c of
     Subscribe _ \<Rightarrow> True | Unsubscribe _ \<Rightarrow> True | PSubscribe _ \<Rightarrow> True | PUnsubscribe _ \<Rightarrow> True
   | Publish _ _ \<Rightarrow> True | PubSub _ _ \<Rightarrow> True | _ \<Rightarrow> False)"

definition is_allowed_in_pubsub_mode :: "command \<Rightarrow> bool" where
  "is_allowed_in_pubsub_mode c = (case c of
     Subscribe _ \<Rightarrow> True | Unsubscribe _ \<Rightarrow> True | PSubscribe _ \<Rightarrow> True | PUnsubscribe _ \<Rightarrow> True
   | Ping _ \<Rightarrow> True | Quit \<Rightarrow> True | _ \<Rightarrow> False)"

definition to_pubsub_op :: "command \<Rightarrow> pubsub_op option" where
  "to_pubsub_op c = (case c of
     Subscribe channels \<Rightarrow> Some (OpSubscribe channels)
   | Unsubscribe channels \<Rightarrow> Some (OpUnsubscribe channels)
   | PSubscribe patterns \<Rightarrow> Some (OpPSubscribe patterns)
   | PUnsubscribe patterns \<Rightarrow> Some (OpPUnsubscribe patterns)
   | Publish channel message \<Rightarrow> Some (OpPublish channel message)
   | PubSub subcommand args \<Rightarrow>
       (let u = str_to_uppercase subcommand in
        if u = ''CHANNELS'' then Some (OpChannels (case args of [] \<Rightarrow> None | a # _ \<Rightarrow> Some a))
        else if u = ''NUMSUB'' then Some (OpNumSub args)
        else if u = ''NUMPAT'' then Some OpNumPat
        else None)
   | _ \<Rightarrow> None)"

lemma to_pubsub_op_only: "to_pubsub_op c = Some q \<Longrightarrow> is_pubsub_command c"
  by (cases c) (auto simp: to_pubsub_op_def is_pubsub_command_def)

lemma to_pubsub_op_total:
  "is_pubsub_command c \<Longrightarrow> (\<And>sc as. c \<noteq> PubSub sc as) \<Longrightarrow> \<exists>q. to_pubsub_op c = Some q"
  by (cases c) (auto simp: to_pubsub_op_def is_pubsub_command_def)

end
