(* ===== verification/Command_Parser.thy ===== *)
theory Command_Parser
  imports Command
begin

text \<open>
  \<open>src/src/protocol/command/parser.rs\<close>: from a RESP array to a command. One definition per
  arm of the match on the upper-cased command name; \<open>parse_arms\<close> lists the arms in the
  order of the source. A failed parse is \<open>Inl\<close> of the message.
\<close>

section \<open>Arguments\<close>

definition extract_bytes :: "resp_value \<Rightarrow> bytes + bytes" where
  "extract_bytes v = (case v of
     BulkString (Some s) \<Rightarrow> Inr s
   | SimpleString s \<Rightarrow> Inr s
   | _ \<Rightarrow> Inl ''Expected string value'')"

definition extract_integer :: "resp_value \<Rightarrow> bytes + i64" where
  "extract_integer v = (case v of
     Integer n \<Rightarrow> Inr n
   | BulkString (Some s) \<Rightarrow>
       (if \<not> utf8_valid s then Inl ''Invalid UTF-8''
        else case parse_i64 s of None \<Rightarrow> Inl ''Invalid integer'' | Some n \<Rightarrow> Inr n)
   | _ \<Rightarrow> Inl ''Expected integer value'')"

definition wrong_args :: "bytes \<Rightarrow> bytes" where
  "wrong_args name =
     ''wrong number of arguments for '' @ [CHR 0x27] @ name @ [CHR 0x27] @ '' command''"

text \<open>The \<open>while\<close> loops over the rest of the arguments, two at a time.\<close>

fun extract_pairs :: "resp_value list \<Rightarrow> bytes + (bytes \<times> bytes) list" where
  "extract_pairs (k # v # rest) =
     try_bind (extract_bytes k) (\<lambda>key. try_bind (extract_bytes v) (\<lambda>val.
     try_bind (extract_pairs rest) (\<lambda>pairs. Inr ((key, val) # pairs))))"
| "extract_pairs _ = Inr []"

fun parse_set_options ::
  "resp_value list \<Rightarrow> u64 option \<Rightarrow> u64 option \<Rightarrow> bytes + (u64 option \<times> u64 option)" where
  "parse_set_options [] ex px = Inr (ex, px)"
| "parse_set_options (a # rest) ex px = try_bind (extract_bytes a) (\<lambda>opt.
     (case rest of
        v # rest' \<Rightarrow>
          (if to_ascii_uppercase opt = ''EX''
           then try_bind (extract_integer v) (\<lambda>n. parse_set_options rest' (Some n) px)
           else if to_ascii_uppercase opt = ''PX''
           then try_bind (extract_integer v) (\<lambda>n. parse_set_options rest' ex (Some n))
           else parse_set_options rest ex px)
      | [] \<Rightarrow> parse_set_options [] ex px))"

fun parse_scan_options ::
  "resp_value list \<Rightarrow> u64 \<Rightarrow> bytes option \<Rightarrow> bytes + (u64 \<times> bytes option)" where
  "parse_scan_options [] count pat = Inr (count, pat)"
| "parse_scan_options (a # rest) count pat = try_bind (extract_bytes a) (\<lambda>opt.
     (case rest of
        v # rest' \<Rightarrow>
          (if to_ascii_uppercase opt = ''MATCH''
           then try_bind (extract_bytes v) (\<lambda>p. parse_scan_options rest' count (Some (utf8_lossy p)))
           else if to_ascii_uppercase opt = ''COUNT''
           then try_bind (extract_integer v) (\<lambda>n. parse_scan_options rest' n pat)
           else Inl ''syntax error in SCAN'')
      | [] \<Rightarrow> Inl ''syntax error in SCAN''))"

section \<open>One definition per command\<close>

definition parse_get_args :: "resp_value list \<Rightarrow> bytes + command" where
  "parse_get_args args =
     (if length args \<noteq> 1 then Inl (wrong_args ''GET'')
      else try_bind (extract_bytes (args ! 0)) (\<lambda>key. Inr (Get key)))"

definition parse_set_args :: "resp_value list \<Rightarrow> bytes + command" where
  "parse_set_args args =
     (if length args < 2 then Inl (wrong_args ''SET'')
      else try_bind (extract_bytes (args ! 0)) (\<lambda>key.
           try_bind (extract_bytes (args ! 1)) (\<lambda>val.
           try_bind (parse_set_options (drop 2 args) None None) (\<lambda>(ex, px).
           Inr (Set key val ex px)))))"

definition parse_del_args :: "resp_value list \<Rightarrow> bytes + command" where
  "parse_del_args args =
     (if args = [] then Inl (wrong_args ''DEL'')
      else try_bind (try_map extract_bytes args) (\<lambda>keys. Inr (Del keys)))"

definition parse_exists_args :: "resp_value list \<Rightarrow> bytes + command" where
  "parse_exists_args args =
     (if args = [] then Inl (wrong_args ''EXISTS'')
      else try_bind (try_map extract_bytes args) (\<lambda>keys. Inr (Exists keys)))"

definition parse_incr_args :: "resp_value list \<Rightarrow> bytes + command" where
  "parse_incr_args args =
     (if length args \<noteq> 1 then Inl (wrong_args ''INCR'')
      else try_bind (extract_bytes (args ! 0)) (\<lambda>key. Inr (Incr key)))"

definition parse_incrby_args :: "resp_value list \<Rightarrow> bytes + command" where
  "parse_incrby_args args =
     (if length args \<noteq> 2 then Inl (wrong_args ''INCRBY'')
      else try_bind (extract_bytes (args ! 0)) (\<lambda>key.
           try_bind (extract_integer (args ! 1)) (\<lambda>n. Inr (IncrBy key n))))"

definition parse_decr_args :: "resp_value list \<Rightarrow> bytes + command" where
  "parse_decr_args args =
     (if length args \<noteq> 1 then Inl (wrong_args ''DECR'')
      else try_bind (extract_bytes (args ! 0)) (\<lambda>key. Inr (Decr key)))"

definition parse_decrby_args :: "resp_value list \<Rightarrow> bytes + command" where
  "parse_decrby_args args =
     (if length args \<noteq> 2 then Inl (wrong_args ''DECRBY'')
      else try_bind (extract_bytes (args ! 0)) (\<lambda>key.
           try_bind (extract_integer (args ! 1)) (\<lambda>n. Inr (DecrBy key n))))"

definition parse_expire_args :: "resp_value list \<Rightarrow> bytes + command" where
  "parse_expire_args args =
     (if length args \<noteq> 2 then Inl (wrong_args ''EXPIRE'')
      else try_bind (extract_bytes (args ! 0)) (\<lambda>key.
           try_bind (extract_integer (args ! 1)) (\<lambda>n. Inr (Expire key n))))"

definition parse_pexpire_args :: "resp_value list \<Rightarrow> bytes + command" where
  "parse_pexpire_args args =
     (if length args \<noteq> 2 then Inl (wrong_args ''PEXPIRE'')
      else try_bind (extract_bytes (args ! 0)) (\<lambda>key.
           try_bind (extract_integer (args ! 1)) (\<lambda>n. Inr (PExpire key n))))"

definition parse_ttl_args :: "resp_value list \<Rightarrow> bytes + command" where
  "parse_ttl_args args =
     (if length args \<noteq> 1 then Inl (wrong_args ''TTL'')
      else try_bind (extract_bytes (args ! 0)) (\<lambda>key. Inr (Ttl key)))"

definition parse_pttl_args :: "resp_value list \<Rightarrow> bytes + command" where
  "parse_pttl_args args =
     (if length args \<noteq> 1 then Inl (wrong_args ''PTTL'')
      else try_bind (extract_bytes (args ! 0)) (\<lambda>key. Inr (PTtl key)))"

definition parse_persist_args :: "resp_value list \<Rightarrow> bytes + command" where
  "parse_persist_args args =
     (if length args \<noteq> 1 then Inl (wrong_args ''PERSIST'')
      else try_bind (extract_bytes (args ! 0)) (\<lambda>key. Inr (Persist key)))"

definition parse_mget_args :: "resp_value list \<Rightarrow> bytes + command" where
  "parse_mget_args args =
     (if args = [] then Inl (wrong_args ''MGET'')
      else try_bind (try_map extract_bytes args) (\<lambda>keys. Inr (MGet keys)))"

definition parse_mset_args :: "resp_value list \<Rightarrow> bytes + command" where
  "parse_mset_args args =
     (if args = [] \<or> length args mod 2 \<noteq> 0 then Inl (wrong_args ''MSET'')
      else try_bind (extract_pairs args) (\<lambda>pairs. Inr (MSet pairs)))"

definition parse_ping_args :: "resp_value list \<Rightarrow> bytes + command" where
  "parse_ping_args args =
     (if args = [] then Inr (Ping None)
      else try_bind (extract_bytes (args ! 0)) (\<lambda>msg. Inr (Ping (Some msg))))"

definition parse_echo_args :: "resp_value list \<Rightarrow> bytes + command" where
  "parse_echo_args args =
     (if length args \<noteq> 1 then Inl (wrong_args ''ECHO'')
      else try_bind (extract_bytes (args ! 0)) (\<lambda>msg. Inr (Echo msg)))"

definition parse_info_args :: "resp_value list \<Rightarrow> bytes + command" where
  "parse_info_args args =
     (if args = [] then Inr (Info None)
      else try_bind (extract_bytes (args ! 0)) (\<lambda>s. Inr (Info (Some (utf8_lossy s)))))"

definition parse_config_args :: "resp_value list \<Rightarrow> bytes + command" where
  "parse_config_args args =
     (if args = [] then Inl (wrong_args ''CONFIG'')
      else try_bind (extract_bytes (args ! 0)) (\<lambda>s.
           try_bind (try_map extract_bytes (drop 1 args)) (\<lambda>subargs.
           Inr (Config (utf8_lossy s) subargs))))"

definition parse_command_args :: "resp_value list \<Rightarrow> bytes + command" where
  "parse_command_args args =
     (if args = [] then Inr (Command None [])
      else try_bind (extract_bytes (args ! 0)) (\<lambda>s.
           try_bind (try_map extract_bytes (drop 1 args)) (\<lambda>subargs.
           Inr (Command (Some (utf8_lossy s)) subargs))))"

definition parse_quit_args :: "resp_value list \<Rightarrow> bytes + command" where
  "parse_quit_args args =
     (Inr Quit)"

definition parse_flushdb_args :: "resp_value list \<Rightarrow> bytes + command" where
  "parse_flushdb_args args =
     (Inr FlushDb)"

definition parse_keys_args :: "resp_value list \<Rightarrow> bytes + command" where
  "parse_keys_args args =
     (if length args \<noteq> 1 then Inl (wrong_args ''KEYS'')
      else try_bind (extract_bytes (args ! 0)) (\<lambda>s. Inr (Keys (utf8_lossy s))))"

definition parse_scan_args :: "resp_value list \<Rightarrow> bytes + command" where
  "parse_scan_args args =
     (if args = [] then Inl (wrong_args ''SCAN'')
      else try_bind (extract_bytes (args ! 0)) (\<lambda>cursor.
           try_bind (parse_scan_options (drop 1 args) 10 None) (\<lambda>(count, pat).
           Inr (Scan cursor count pat))))"

definition parse_jsonpatch_args :: "resp_value list \<Rightarrow> bytes + command" where
  "parse_jsonpatch_args args =
     (if length args \<noteq> 2 then Inl (wrong_args ''JSONPATCH'')
      else try_bind (extract_bytes (args ! 0)) (\<lambda>a.
           try_bind (extract_bytes (args ! 1)) (\<lambda>b. Inr (JsonPatch a b))))"

definition parse_cas_args :: "resp_value list \<Rightarrow> bytes + command" where
  "parse_cas_args args =
     (if length args \<noteq> 3 then Inl (wrong_args ''CAS'')
      else try_bind (extract_bytes (args ! 0)) (\<lambda>key.
           try_bind (extract_bytes (args ! 1)) (\<lambda>expected.
           try_bind (extract_bytes (args ! 2)) (\<lambda>new_value. Inr (Cas key expected new_value)))))"

definition parse_lpush_args :: "resp_value list \<Rightarrow> bytes + command" where
  "parse_lpush_args args =
     (if length args < 2 then Inl (wrong_args ''LPUSH'')
      else try_bind (extract_bytes (args ! 0)) (\<lambda>key.
           try_bind (try_map extract_bytes (drop 1 args)) (\<lambda>values. Inr (LPush key values))))"

definition parse_rpush_args :: "resp_value list \<Rightarrow> bytes + command" where
  "parse_rpush_args args =
     (if length args < 2 then Inl (wrong_args ''RPUSH'')
      else try_bind (extract_bytes (args ! 0)) (\<lambda>key.
           try_bind (try_map extract_bytes (drop 1 args)) (\<lambda>values. Inr (RPush key values))))"

definition parse_lpop_args :: "resp_value list \<Rightarrow> bytes + command" where
  "parse_lpop_args args =
     (if args = [] \<or> 2 < length args then Inl (wrong_args ''LPOP'')
      else try_bind (extract_bytes (args ! 0)) (\<lambda>key.
           if length args = 2
           then try_bind (extract_integer (args ! 1)) (\<lambda>n. Inr (LPop key (Some n)))
           else Inr (LPop key None)))"

definition parse_rpop_args :: "resp_value list \<Rightarrow> bytes + command" where
  "parse_rpop_args args =
     (if args = [] \<or> 2 < length args then Inl (wrong_args ''RPOP'')
      else try_bind (extract_bytes (args ! 0)) (\<lambda>key.
           if length args = 2
           then try_bind (extract_integer (args ! 1)) (\<lambda>n. Inr (RPop key (Some n)))
           else Inr (RPop key None)))"

definition parse_llen_args :: "resp_value list \<Rightarrow> bytes + command" where
  "parse_llen_args args =
     (if length args \<noteq> 1 then Inl (wrong_args ''LLEN'')
      else try_bind (extract_bytes (args ! 0)) (\<lambda>key. Inr (LLen key)))"

definition parse_lrange_args :: "resp_value list \<Rightarrow> bytes + command" where
  "parse_lrange_args args =
     (if length args \<noteq> 3 then Inl (wrong_args ''LRANGE'')
      else try_bind (extract_bytes (args ! 0)) (\<lambda>key.
           try_bind (extract_integer (args ! 1)) (\<lambda>start.
           try_bind (extract_integer (args ! 2)) (\<lambda>stop. Inr (LRange key start stop)))))"

definition parse_lindex_args :: "resp_value list \<Rightarrow> bytes + command" where
  "parse_lindex_args args =
     (if length args \<noteq> 2 then Inl (wrong_args ''LINDEX'')
      else try_bind (extract_bytes (args ! 0)) (\<lambda>key.
           try_bind (extract_integer (args ! 1)) (\<lambda>n. Inr (LIndex key n))))"

definition parse_auth_args :: "resp_value list \<Rightarrow> bytes + command" where
  "parse_auth_args args =
     (if length args \<noteq> 1 then Inl (wrong_args ''AUTH'')
      else try_bind (extract_bytes (args ! 0)) (\<lambda>password. Inr (Auth password)))"

definition parse_subscribe_args :: "resp_value list \<Rightarrow> bytes + command" where
  "parse_subscribe_args args =
     (if args = [] then Inl (wrong_args ''SUBSCRIBE'')
      else try_bind (try_map extract_bytes args) (\<lambda>keys. Inr (Subscribe keys)))"

definition parse_unsubscribe_args :: "resp_value list \<Rightarrow> bytes + command" where
  "parse_unsubscribe_args args =
     (if args = [] then Inr (Unsubscribe None)
      else try_bind (try_map extract_bytes args) (\<lambda>channels. Inr (Unsubscribe (Some channels))))"

definition parse_psubscribe_args :: "resp_value list \<Rightarrow> bytes + command" where
  "parse_psubscribe_args args =
     (if args = [] then Inl (wrong_args ''PSUBSCRIBE'')
      else try_bind (try_map extract_bytes args) (\<lambda>keys. Inr (PSubscribe keys)))"

definition parse_punsubscribe_args :: "resp_value list \<Rightarrow> bytes + command" where
  "parse_punsubscribe_args args =
     (if args = [] then Inr (PUnsubscribe None)
      else try_bind (try_map extract_bytes args) (\<lambda>channels. Inr (PUnsubscribe (Some channels))))"

definition parse_publish_args :: "resp_value list \<Rightarrow> bytes + command" where
  "parse_publish_args args =
     (if length args \<noteq> 2 then Inl (wrong_args ''PUBLISH'')
      else try_bind (extract_bytes (args ! 0)) (\<lambda>a.
           try_bind (extract_bytes (args ! 1)) (\<lambda>b. Inr (Publish a b))))"

definition parse_pubsub_args :: "resp_value list \<Rightarrow> bytes + command" where
  "parse_pubsub_args args =
     (if args = [] then Inl (wrong_args ''PUBSUB'')
      else try_bind (extract_bytes (args ! 0)) (\<lambda>s.
           try_bind (try_map extract_bytes (drop 1 args)) (\<lambda>subargs.
           Inr (PubSub (utf8_lossy s) subargs))))"

definition parse_client_args :: "resp_value list \<Rightarrow> bytes + command" where
  "parse_client_args args =
     (if args = [] then Inl (wrong_args ''CLIENT'')
      else try_bind (extract_bytes (args ! 0)) (\<lambda>s.
           try_bind (try_map extract_bytes (drop 1 args)) (\<lambda>subargs.
           Inr (Client (utf8_lossy s) subargs))))"

definition parse_hset_args :: "resp_value list \<Rightarrow> bytes + command" where
  "parse_hset_args args =
     (if length args < 3 \<or> (length args - 1) mod 2 \<noteq> 0 then Inl (wrong_args ''HSET'')
      else try_bind (extract_bytes (args ! 0)) (\<lambda>key.
           try_bind (extract_pairs (drop 1 args)) (\<lambda>fields. Inr (HSet key fields))))"

definition parse_hget_args :: "resp_value list \<Rightarrow> bytes + command" where
  "parse_hget_args args =
     (if length args \<noteq> 2 then Inl (wrong_args ''HGET'')
      else try_bind (extract_bytes (args ! 0)) (\<lambda>a.
           try_bind (extract_bytes (args ! 1)) (\<lambda>b. Inr (HGet a b))))"

definition parse_hmget_args :: "resp_value list \<Rightarrow> bytes + command" where
  "parse_hmget_args args =
     (if length args < 2 then Inl (wrong_args ''HMGET'')
      else try_bind (extract_bytes (args ! 0)) (\<lambda>key.
           try_bind (try_map extract_bytes (drop 1 args)) (\<lambda>values. Inr (HMGet key values))))"

definition parse_hdel_args :: "resp_value list \<Rightarrow> bytes + command" where
  "parse_hdel_args args =
     (if length args < 2 then Inl (wrong_args ''HDEL'')
      else try_bind (extract_bytes (args ! 0)) (\<lambda>key.
           try_bind (try_map extract_bytes (drop 1 args)) (\<lambda>values. Inr (HDel key values))))"

definition parse_hexists_args :: "resp_value list \<Rightarrow> bytes + command" where
  "parse_hexists_args args =
     (if length args \<noteq> 2 then Inl (wrong_args ''HEXISTS'')
      else try_bind (extract_bytes (args ! 0)) (\<lambda>a.
           try_bind (extract_bytes (args ! 1)) (\<lambda>b. Inr (HExists a b))))"

definition parse_hgetall_args :: "resp_value list \<Rightarrow> bytes + command" where
  "parse_hgetall_args args =
     (if length args \<noteq> 1 then Inl (wrong_args ''HGETALL'')
      else try_bind (extract_bytes (args ! 0)) (\<lambda>key. Inr (HGetAll key)))"

definition parse_hlen_args :: "resp_value list \<Rightarrow> bytes + command" where
  "parse_hlen_args args =
     (if length args \<noteq> 1 then Inl (wrong_args ''HLEN'')
      else try_bind (extract_bytes (args ! 0)) (\<lambda>key. Inr (HLen key)))"

definition parse_hkeys_args :: "resp_value list \<Rightarrow> bytes + command" where
  "parse_hkeys_args args =
     (if length args \<noteq> 1 then Inl (wrong_args ''HKEYS'')
      else try_bind (extract_bytes (args ! 0)) (\<lambda>key. Inr (HKeys key)))"

definition parse_hvals_args :: "resp_value list \<Rightarrow> bytes + command" where
  "parse_hvals_args args =
     (if length args \<noteq> 1 then Inl (wrong_args ''HVALS'')
      else try_bind (extract_bytes (args ! 0)) (\<lambda>key. Inr (HVals key)))"

definition parse_hincrby_args :: "resp_value list \<Rightarrow> bytes + command" where
  "parse_hincrby_args args =
     (if length args \<noteq> 3 then Inl (wrong_args ''HINCRBY'')
      else try_bind (extract_bytes (args ! 0)) (\<lambda>key.
           try_bind (extract_bytes (args ! 1)) (\<lambda>field.
           try_bind (extract_integer (args ! 2)) (\<lambda>delta. Inr (HIncrBy key field delta)))))"

definition parse_multi_args :: "resp_value list \<Rightarrow> bytes + command" where
  "parse_multi_args args =
     (if args \<noteq> [] then Inl (wrong_args ''MULTI'') else Inr Multi)"

definition parse_exec_args :: "resp_value list \<Rightarrow> bytes + command" where
  "parse_exec_args args =
     (if args \<noteq> [] then Inl (wrong_args ''EXEC'') else Inr Exec)"

definition parse_discard_args :: "resp_value list \<Rightarrow> bytes + command" where
  "parse_discard_args args =
     (if args \<noteq> [] then Inl (wrong_args ''DISCARD'') else Inr Discard)"

definition parse_watch_args :: "resp_value list \<Rightarrow> bytes + command" where
  "parse_watch_args args =
     (if args = [] then Inl (wrong_args ''WATCH'')
      else try_bind (try_map extract_bytes args) (\<lambda>keys. Inr (Watch keys)))"

definition parse_unwatch_args :: "resp_value list \<Rightarrow> bytes + command" where
  "parse_unwatch_args args =
     (if args \<noteq> [] then Inl (wrong_args ''UNWATCH'') else Inr Unwatch)"

section \<open>Dispatch\<close>

definition parse_arms :: "(bytes \<times> (resp_value list \<Rightarrow> bytes + command)) list" where
  "parse_arms =
    [(''GET'', parse_get_args),
     (''SET'', parse_set_args),
     (''DEL'', parse_del_args),
     (''EXISTS'', parse_exists_args),
     (''INCR'', parse_incr_args),
     (''INCRBY'', parse_incrby_args),
     (''DECR'', parse_decr_args),
     (''DECRBY'', parse_decrby_args),
     (''EXPIRE'', parse_expire_args),
     (''PEXPIRE'', parse_pexpire_args),
     (''TTL'', parse_ttl_args),
     (''PTTL'', parse_pttl_args),
     (''PERSIST'', parse_persist_args),
     (''MGET'', parse_mget_args),
     (''MSET'', parse_mset_args),
     (''PING'', parse_ping_args),
     (''ECHO'', parse_echo_args),
     (''INFO'', parse_info_args),
     (''CONFIG'', parse_config_args),
     (''COMMAND'', parse_command_args),
     (''QUIT'', parse_quit_args),
     (''FLUSHDB'', parse_flushdb_args),
     (''KEYS'', parse_keys_args),
     (''SCAN'', parse_scan_args),
     (''JSONPATCH'', parse_jsonpatch_args),
     (''CAS'', parse_cas_args),
     (''LPUSH'', parse_lpush_args),
     (''RPUSH'', parse_rpush_args),
     (''LPOP'', parse_lpop_args),
     (''RPOP'', parse_rpop_args),
     (''LLEN'', parse_llen_args),
     (''LRANGE'', parse_lrange_args),
     (''LINDEX'', parse_lindex_args),
     (''AUTH'', parse_auth_args),
     (''SUBSCRIBE'', parse_subscribe_args),
     (''UNSUBSCRIBE'', parse_unsubscribe_args),
     (''PSUBSCRIBE'', parse_psubscribe_args),
     (''PUNSUBSCRIBE'', parse_punsubscribe_args),
     (''PUBLISH'', parse_publish_args),
     (''PUBSUB'', parse_pubsub_args),
     (''CLIENT'', parse_client_args),
     (''HSET'', parse_hset_args),
     (''HGET'', parse_hget_args),
     (''HMGET'', parse_hmget_args),
     (''HDEL'', parse_hdel_args),
     (''HEXISTS'', parse_hexists_args),
     (''HGETALL'', parse_hgetall_args),
     (''HLEN'', parse_hlen_args),
     (''HKEYS'', parse_hkeys_args),
     (''HVALS'', parse_hvals_args),
     (''HINCRBY'', parse_hincrby_args),
     (''MULTI'', parse_multi_args),
     (''EXEC'', parse_exec_args),
     (''DISCARD'', parse_discard_args),
     (''WATCH'', parse_watch_args),
     (''UNWATCH'', parse_unwatch_args)]"

definition parse_command :: "resp_value \<Rightarrow> bytes + command" where
  "parse_command v = (case v of
     Array (Some (name # args)) \<Rightarrow>
       (case name of
          BulkString (Some cmd_name) \<Rightarrow>
            (case map_of parse_arms (to_ascii_uppercase cmd_name) of
               Some arm \<Rightarrow> arm args
             | None \<Rightarrow> Inl (''unknown command '' @ [CHR 0x27] @ utf8_lossy cmd_name @ [CHR 0x27]))
        | _ \<Rightarrow> Inl ''Invalid command format'')
   | _ \<Rightarrow> Inl ''Commands must be arrays'')"

lemmas parse_arm_defs =
  parse_get_args_def parse_set_args_def parse_del_args_def parse_exists_args_def parse_incr_args_def parse_incrby_args_def parse_decr_args_def parse_decrby_args_def parse_expire_args_def parse_pexpire_args_def parse_ttl_args_def parse_pttl_args_def parse_persist_args_def parse_mget_args_def parse_mset_args_def parse_ping_args_def parse_echo_args_def parse_info_args_def parse_config_args_def parse_command_args_def parse_quit_args_def parse_flushdb_args_def parse_keys_args_def parse_scan_args_def parse_jsonpatch_args_def parse_cas_args_def parse_lpush_args_def parse_rpush_args_def parse_lpop_args_def parse_rpop_args_def parse_llen_args_def parse_lrange_args_def parse_lindex_args_def parse_auth_args_def parse_subscribe_args_def parse_unsubscribe_args_def parse_psubscribe_args_def parse_punsubscribe_args_def parse_publish_args_def parse_pubsub_args_def parse_client_args_def parse_hset_args_def parse_hget_args_def parse_hmget_args_def parse_hdel_args_def parse_hexists_args_def parse_hgetall_args_def parse_hlen_args_def parse_hkeys_args_def parse_hvals_args_def parse_hincrby_args_def parse_multi_args_def parse_exec_args_def parse_discard_args_def parse_watch_args_def parse_unwatch_args_def

end
