(* ===== verification/Command_Table.thy ===== *)
theory Command_Table
  imports Command_Parser
begin

text \<open>
  \<open>src/src/protocol/command/command_table.rs\<close>: the metadata of the commands, as COMMAND
  reports it, group by group as in the source; the lookup by name; and how the arities of
  the table relate to what the parser accepts.
\<close>

section \<open>The table\<close>

record command_def =
  cd_name :: bytes
  cd_arity :: int
  cd_flags :: "bytes list"
  cd_first_key :: int
  cd_last_key :: int
  cd_step :: int
  cd_acl_categories :: "bytes list"

definition cmd :: "bytes \<Rightarrow> int \<Rightarrow> bytes list \<Rightarrow> int \<Rightarrow> int \<Rightarrow> int \<Rightarrow> bytes list \<Rightarrow> command_def" where
  "cmd n a fl f l st acl = \<lparr>cd_name = n, cd_arity = a, cd_flags = fl, cd_first_key = f, cd_last_key = l,
     cd_step = st, cd_acl_categories = acl\<rparr>"

definition basic_commands_table :: "command_def list" where
  "basic_commands_table = [
     cmd ''get'' (2) [''readonly'', ''fast'']
       (1) (1) (1) [''@read'', ''@string'', ''@fast''],
     cmd ''set'' (-3) [''write'', ''denyoom'']
       (1) (1) (1) [''@write'', ''@string'', ''@slow''],
     cmd ''del'' (-2) [''write'']
       (1) (-1) (1) [''@keyspace'', ''@write'', ''@slow''],
     cmd ''exists'' (-2) [''readonly'', ''fast'']
       (1) (-1) (1) [''@keyspace'', ''@read'', ''@fast'']]"

definition atomic_operations_table :: "command_def list" where
  "atomic_operations_table = [
     cmd ''incr'' (2) [''write'', ''denyoom'', ''fast'']
       (1) (1) (1) [''@write'', ''@string'', ''@fast''],
     cmd ''incrby'' (3) [''write'', ''denyoom'', ''fast'']
       (1) (1) (1) [''@write'', ''@string'', ''@fast''],
     cmd ''decr'' (2) [''write'', ''denyoom'', ''fast'']
       (1) (1) (1) [''@write'', ''@string'', ''@fast''],
     cmd ''decrby'' (3) [''write'', ''denyoom'', ''fast'']
       (1) (1) (1) [''@write'', ''@string'', ''@fast'']]"

definition ttl_commands_table :: "command_def list" where
  "ttl_commands_table = [
     cmd ''expire'' (3) [''write'', ''fast'']
       (1) (1) (1) [''@keyspace'', ''@write'', ''@fast''],
     cmd ''pexpire'' (3) [''write'', ''fast'']
       (1) (1) (1) [''@keyspace'', ''@write'', ''@fast''],
     cmd ''ttl'' (2) [''readonly'', ''fast'']
       (1) (1) (1) [''@keyspace'', ''@read'', ''@fast''],
     cmd ''pttl'' (2) [''readonly'', ''fast'']
       (1) (1) (1) [''@keyspace'', ''@read'', ''@fast''],
     cmd ''persist'' (2) [''write'', ''fast'']
       (1) (1) (1) [''@keyspace'', ''@write'', ''@fast'']]"

definition bulk_operations_table :: "command_def list" where
  "bulk_operations_table = [
     cmd ''mget'' (-2) [''readonly'', ''fast'']
       (1) (-1) (1) [''@read'', ''@string'', ''@fast''],
     cmd ''mset'' (-3) [''write'', ''denyoom'']
       (1) (-1) (2) [''@write'', ''@string'', ''@slow'']]"

definition server_commands_table :: "command_def list" where
  "server_commands_table = [
     cmd ''ping'' (-1) [''fast'']
       (0) (0) (0) [''@fast'', ''@connection''],
     cmd ''echo'' (2) [''fast'']
       (0) (0) (0) [''@fast'', ''@connection''],
     cmd ''info'' (-1) [''loading'', ''stale'']
       (0) (0) (0) [''@slow'', ''@dangerous''],
     cmd ''config'' (-2) [''admin'', ''noscript'', ''loading'', ''stale'']
       (0) (0) (0) [''@admin'', ''@slow'', ''@dangerous''],
     cmd ''command'' (-1) [''loading'', ''stale'']
       (0) (0) (0) [''@slow'', ''@connection''],
     cmd ''quit'' (1) [''noscript'', ''loading'', ''stale'', ''fast'']
       (0) (0) (0) [''@fast'', ''@connection''],
     cmd ''flushdb'' (-1) [''write'']
       (0) (0) (0) [''@keyspace'', ''@write'', ''@slow'', ''@dangerous''],
     cmd ''keys'' (2) [''readonly'']
       (0) (0) (0) [''@keyspace'', ''@read'', ''@slow'', ''@dangerous''],
     cmd ''scan'' (-2) [''readonly'']
       (0) (0) (0) [''@keyspace'', ''@read'', ''@slow'']]"

definition list_commands_table :: "command_def list" where
  "list_commands_table = [
     cmd ''lpush'' (-3) [''write'', ''denyoom'', ''fast'']
       (1) (1) (1) [''@write'', ''@list'', ''@fast''],
     cmd ''rpush'' (-3) [''write'', ''denyoom'', ''fast'']
       (1) (1) (1) [''@write'', ''@list'', ''@fast''],
     cmd ''lpop'' (-2) [''write'', ''fast'']
       (1) (1) (1) [''@write'', ''@list'', ''@fast''],
     cmd ''rpop'' (-2) [''write'', ''fast'']
       (1) (1) (1) [''@write'', ''@list'', ''@fast''],
     cmd ''llen'' (2) [''readonly'', ''fast'']
       (1) (1) (1) [''@read'', ''@list'', ''@fast''],
     cmd ''lrange'' (4) [''readonly'']
       (1) (1) (1) [''@read'', ''@list'', ''@slow''],
     cmd ''lindex'' (3) [''readonly'']
       (1) (1) (1) [''@read'', ''@list'', ''@slow'']]"

definition hash_commands_table :: "command_def list" where
  "hash_commands_table = [
     cmd ''hset'' (-4) [''write'', ''denyoom'', ''fast'']
       (1) (1) (1) [''@write'', ''@hash'', ''@fast''],
     cmd ''hget'' (3) [''readonly'', ''fast'']
       (1) (1) (1) [''@read'', ''@hash'', ''@fast''],
     cmd ''hmget'' (-3) [''readonly'', ''fast'']
       (1) (1) (1) [''@read'', ''@hash'', ''@fast''],
     cmd ''hdel'' (-3) [''write'', ''fast'']
       (1) (1) (1) [''@write'', ''@hash'', ''@fast''],
     cmd ''hexists'' (3) [''readonly'', ''fast'']
       (1) (1) (1) [''@read'', ''@hash'', ''@fast''],
     cmd ''hgetall'' (2) [''readonly'']
       (1) (1) (1) [''@read'', ''@hash'', ''@slow''],
     cmd ''hlen'' (2) [''readonly'', ''fast'']
       (1) (1) (1) [''@read'', ''@hash'', ''@fast''],
     cmd ''hkeys'' (2) [''readonly'']
       (1) (1) (1) [''@read'', ''@hash'', ''@slow''],
     cmd ''hvals'' (2) [''readonly'']
       (1) (1) (1) [''@read'', ''@hash'', ''@slow''],
     cmd ''hincrby'' (4) [''write'', ''denyoom'', ''fast'']
       (1) (1) (1) [''@write'', ''@hash'', ''@fast'']]"

definition authentication_table :: "command_def list" where
  "authentication_table = [
     cmd ''auth'' (2) [''noscript'', ''loading'', ''stale'', ''fast'', ''no_auth'']
       (0) (0) (0) [''@fast'', ''@connection'']]"

definition pub_sub_commands_table :: "command_def list" where
  "pub_sub_commands_table = [
     cmd ''subscribe'' (-2) [''pubsub'', ''noscript'', ''loading'', ''stale'']
       (0) (0) (0) [''@pubsub'', ''@slow''],
     cmd ''unsubscribe'' (-1) [''pubsub'', ''noscript'', ''loading'', ''stale'']
       (0) (0) (0) [''@pubsub'', ''@slow''],
     cmd ''psubscribe'' (-2) [''pubsub'', ''noscript'', ''loading'', ''stale'']
       (0) (0) (0) [''@pubsub'', ''@slow''],
     cmd ''punsubscribe'' (-1) [''pubsub'', ''noscript'', ''loading'', ''stale'']
       (0) (0) (0) [''@pubsub'', ''@slow''],
     cmd ''publish'' (3) [''pubsub'', ''loading'', ''stale'', ''fast'']
       (0) (0) (0) [''@pubsub'', ''@fast''],
     cmd ''pubsub'' (-2) [''pubsub'', ''loading'', ''stale'']
       (0) (0) (0) [''@pubsub'', ''@slow'']]"

definition client_management_table :: "command_def list" where
  "client_management_table = [
     cmd ''client'' (-2) [''admin'', ''noscript'', ''loading'', ''stale'']
       (0) (0) (0) [''@admin'', ''@slow'', ''@connection'']]"

definition transaction_commands_table :: "command_def list" where
  "transaction_commands_table = [
     cmd ''multi'' (1) [''noscript'', ''loading'', ''stale'', ''fast'']
       (0) (0) (0) [''@fast'', ''@transaction''],
     cmd ''exec'' (1) [''noscript'', ''loading'', ''stale'', ''slow'']
       (0) (0) (0) [''@slow'', ''@transaction''],
     cmd ''discard'' (1) [''noscript'', ''loading'', ''stale'', ''fast'']
       (0) (0) (0) [''@fast'', ''@transaction''],
     cmd ''watch'' (-2) [''noscript'', ''loading'', ''stale'', ''fast'']
       (1) (-1) (1) [''@fast'', ''@transaction''],
     cmd ''unwatch'' (1) [''noscript'', ''loading'', ''stale'', ''fast'']
       (0) (0) (0) [''@fast'', ''@transaction'']]"

definition COMMAND_TABLE :: "command_def list" where
  "COMMAND_TABLE = basic_commands_table @ atomic_operations_table @ ttl_commands_table @ bulk_operations_table @ server_commands_table @ list_commands_table @ hash_commands_table @ authentication_table @ pub_sub_commands_table @ client_management_table @ transaction_commands_table"

section \<open>Its operations\<close>

definition bulk_strings :: "bytes list \<Rightarrow> resp_value" where
  "bulk_strings ss = Array (Some (map (\<lambda>s. BulkString (Some s)) ss))"

definition to_resp_array :: "command_def \<Rightarrow> resp_value list" where
  "to_resp_array d =
     [BulkString (Some (cd_name d)), Integer (word_of_int (cd_arity d)), bulk_strings (cd_flags d),
      Integer (word_of_int (cd_first_key d)), Integer (word_of_int (cd_last_key d)),
      Integer (word_of_int (cd_step d)), bulk_strings (cd_acl_categories d),
      Array (Some []), Array (Some []), Array (Some [])]"

definition find_command :: "bytes \<Rightarrow> command_def option" where
  "find_command name = find (\<lambda>d. eq_ignore_ascii_case (cd_name d) name) COMMAND_TABLE"

section \<open>The table and the parser\<close>

lemmas table_defs = basic_commands_table_def atomic_operations_table_def ttl_commands_table_def
  bulk_operations_table_def server_commands_table_def list_commands_table_def hash_commands_table_def
  authentication_table_def pub_sub_commands_table_def client_management_table_def
  transaction_commands_table_def

lemma length_COMMAND_TABLE: "length COMMAND_TABLE = 54"
  by (simp add: COMMAND_TABLE_def table_defs)

lemma find_command_upper: "find_command name = find (\<lambda>d. to_ascii_uppercase (cd_name d) = to_ascii_uppercase name) COMMAND_TABLE"
  by (simp add: find_command_def eq_ignore_ascii_case_upper)

text \<open>The names in upper case, as the parser matches them, with their arities.\<close>

definition arity_table :: "(bytes \<times> int) list" where
  "arity_table = map (\<lambda>d. (to_ascii_uppercase (cd_name d), cd_arity d)) COMMAND_TABLE"

text \<open>Upper case, letter by letter: the table is evaluated with these.\<close>

lemma byte_upper_letters:
  "byte_upper CHR ''a'' = CHR ''A''"
  "byte_upper CHR ''b'' = CHR ''B''"
  "byte_upper CHR ''c'' = CHR ''C''"
  "byte_upper CHR ''d'' = CHR ''D''"
  "byte_upper CHR ''e'' = CHR ''E''"
  "byte_upper CHR ''f'' = CHR ''F''"
  "byte_upper CHR ''g'' = CHR ''G''"
  "byte_upper CHR ''h'' = CHR ''H''"
  "byte_upper CHR ''i'' = CHR ''I''"
  "byte_upper CHR ''j'' = CHR ''J''"
  "byte_upper CHR ''k'' = CHR ''K''"
  "byte_upper CHR ''l'' = CHR ''L''"
  "byte_upper CHR ''m'' = CHR ''M''"
  "byte_upper CHR ''n'' = CHR ''N''"
  "byte_upper CHR ''o'' = CHR ''O''"
  "byte_upper CHR ''p'' = CHR ''P''"
  "byte_upper CHR ''q'' = CHR ''Q''"
  "byte_upper CHR ''r'' = CHR ''R''"
  "byte_upper CHR ''s'' = CHR ''S''"
  "byte_upper CHR ''t'' = CHR ''T''"
  "byte_upper CHR ''u'' = CHR ''U''"
  "byte_upper CHR ''v'' = CHR ''V''"
  "byte_upper CHR ''w'' = CHR ''W''"
  "byte_upper CHR ''x'' = CHR ''X''"
  "byte_upper CHR ''y'' = CHR ''Y''"
  "byte_upper CHR ''z'' = CHR ''Z''"
  by code_simp+

lemma arity_table_eq: "arity_table =
    [(''GET'', 2), (''SET'', -3), (''DEL'', -2), (''EXISTS'', -2), (''INCR'', 2), (''INCRBY'', 3),
     (''DECR'', 2), (''DECRBY'', 3), (''EXPIRE'', 3), (''PEXPIRE'', 3), (''TTL'', 2), (''PTTL'', 2),
     (''PERSIST'', 2), (''MGET'', -2), (''MSET'', -3), (''PING'', -1), (''ECHO'', 2), (''INFO'', -1),
     (''CONFIG'', -2), (''COMMAND'', -1), (''QUIT'', 1), (''FLUSHDB'', -1), (''KEYS'', 2), (''SCAN'', -2),
     (''LPUSH'', -3), (''RPUSH'', -3), (''LPOP'', -2), (''RPOP'', -2), (''LLEN'', 2), (''LRANGE'', 4),
     (''LINDEX'', 3), (''HSET'', -4), (''HGET'', 3), (''HMGET'', -3), (''HDEL'', -3), (''HEXISTS'', 3),
     (''HGETALL'', 2), (''HLEN'', 2), (''HKEYS'', 2), (''HVALS'', 2), (''HINCRBY'', 4), (''AUTH'', 2),
     (''SUBSCRIBE'', -2), (''UNSUBSCRIBE'', -1), (''PSUBSCRIBE'', -2), (''PUNSUBSCRIBE'', -1), (''PUBLISH'', 3), (''PUBSUB'', -2),
     (''CLIENT'', -2), (''MULTI'', 1), (''EXEC'', 1), (''DISCARD'', 1), (''WATCH'', -2), (''UNWATCH'', 1)]"
  by (simp add: arity_table_def COMMAND_TABLE_def table_defs cmd_def to_ascii_uppercase_def byte_upper_letters)

lemma distinct_arity_table: "distinct (map fst arity_table)"
  unfolding arity_table_eq by code_simp

lemma map_of_find: "map_of (map (\<lambda>d. (f d, g d)) ds) k = map_option g (find (\<lambda>d. f d = k) ds)"
  by (induction ds) auto

lemma find_command_arity:
  "find_command name = Some d \<Longrightarrow> map_of arity_table (to_ascii_uppercase name) = Some (cd_arity d)"
  by (simp add: arity_table_def map_of_find find_command_upper)

definition missing_names :: "bytes list" where
  "missing_names = filter (\<lambda>n. map_of arity_table n = None) (map fst parse_arms)"

lemma parse_names: "map fst parse_arms =
    [''GET'', ''SET'', ''DEL'', ''EXISTS'', ''INCR'', ''INCRBY'', ''DECR'', ''DECRBY'',
     ''EXPIRE'', ''PEXPIRE'', ''TTL'', ''PTTL'', ''PERSIST'', ''MGET'', ''MSET'', ''PING'',
     ''ECHO'', ''INFO'', ''CONFIG'', ''COMMAND'', ''QUIT'', ''FLUSHDB'', ''KEYS'', ''SCAN'',
     ''JSONPATCH'', ''CAS'', ''LPUSH'', ''RPUSH'', ''LPOP'', ''RPOP'', ''LLEN'', ''LRANGE'',
     ''LINDEX'', ''AUTH'', ''SUBSCRIBE'', ''UNSUBSCRIBE'', ''PSUBSCRIBE'', ''PUNSUBSCRIBE'', ''PUBLISH'', ''PUBSUB'',
     ''CLIENT'', ''HSET'', ''HGET'', ''HMGET'', ''HDEL'', ''HEXISTS'', ''HGETALL'', ''HLEN'',
     ''HKEYS'', ''HVALS'', ''HINCRBY'', ''MULTI'', ''EXEC'', ''DISCARD'', ''WATCH'', ''UNWATCH'']"
  by (simp add: parse_arms_def)

lemma missing_names_eq: "missing_names = [''JSONPATCH'', ''CAS'']"
  unfolding missing_names_def parse_names arity_table_eq by code_simp

text \<open>A positive arity counts the command name and all arguments, a negative one is a minimum.\<close>

definition arity_accepts :: "int \<Rightarrow> nat \<Rightarrow> bool" where
  "arity_accepts a n \<longleftrightarrow> (if 0 \<le> a then int n = a else - a \<le> int n)"

definition arity_ok :: "int \<Rightarrow> (resp_value list \<Rightarrow> bytes + command) \<Rightarrow> bool" where
  "arity_ok a arm \<longleftrightarrow> (\<forall>args c. arm args = Inr c \<longrightarrow> arity_accepts a (Suc (length args)))"

lemma arity_okI: "(\<And>args c. arm args = Inr c \<Longrightarrow> arity_accepts a (Suc (length args))) \<Longrightarrow> arity_ok a arm"
  by (simp add: arity_ok_def)

lemma length_pos: "args \<noteq> [] \<longleftrightarrow> Suc 0 \<le> length args"
  by (cases args) auto

lemma arms_arity:
  "arity_ok (2) parse_get_args"
  "arity_ok (-3) parse_set_args"
  "arity_ok (-2) parse_del_args"
  "arity_ok (-2) parse_exists_args"
  "arity_ok (2) parse_incr_args"
  "arity_ok (3) parse_incrby_args"
  "arity_ok (2) parse_decr_args"
  "arity_ok (3) parse_decrby_args"
  "arity_ok (3) parse_expire_args"
  "arity_ok (3) parse_pexpire_args"
  "arity_ok (2) parse_ttl_args"
  "arity_ok (2) parse_pttl_args"
  "arity_ok (2) parse_persist_args"
  "arity_ok (-2) parse_mget_args"
  "arity_ok (-3) parse_mset_args"
  "arity_ok (-1) parse_ping_args"
  "arity_ok (2) parse_echo_args"
  "arity_ok (-1) parse_info_args"
  "arity_ok (-2) parse_config_args"
  "arity_ok (-1) parse_command_args"
  "arity_ok (-1) parse_flushdb_args"
  "arity_ok (2) parse_keys_args"
  "arity_ok (-2) parse_scan_args"
  "arity_ok (-3) parse_lpush_args"
  "arity_ok (-3) parse_rpush_args"
  "arity_ok (-2) parse_lpop_args"
  "arity_ok (-2) parse_rpop_args"
  "arity_ok (2) parse_llen_args"
  "arity_ok (4) parse_lrange_args"
  "arity_ok (3) parse_lindex_args"
  "arity_ok (-4) parse_hset_args"
  "arity_ok (3) parse_hget_args"
  "arity_ok (-3) parse_hmget_args"
  "arity_ok (-3) parse_hdel_args"
  "arity_ok (3) parse_hexists_args"
  "arity_ok (2) parse_hgetall_args"
  "arity_ok (2) parse_hlen_args"
  "arity_ok (2) parse_hkeys_args"
  "arity_ok (2) parse_hvals_args"
  "arity_ok (4) parse_hincrby_args"
  "arity_ok (2) parse_auth_args"
  "arity_ok (-2) parse_subscribe_args"
  "arity_ok (-1) parse_unsubscribe_args"
  "arity_ok (-2) parse_psubscribe_args"
  "arity_ok (-1) parse_punsubscribe_args"
  "arity_ok (3) parse_publish_args"
  "arity_ok (-2) parse_pubsub_args"
  "arity_ok (-2) parse_client_args"
  "arity_ok (1) parse_multi_args"
  "arity_ok (1) parse_exec_args"
  "arity_ok (1) parse_discard_args"
  "arity_ok (-2) parse_watch_args"
  "arity_ok (1) parse_unwatch_args"
  by (rule arity_okI; auto simp: parse_arm_defs arity_accepts_def length_pos not_less_eq_eq split: if_splits)+

lemma parse_arms_arity:
  "list_all (\<lambda>(name, arm). name \<noteq> ''QUIT'' \<longrightarrow>
     (case map_of arity_table name of None \<Rightarrow> True | Some a \<Rightarrow> arity_ok a arm)) parse_arms"
  unfolding parse_arms_def arity_table_eq by (simp add: arms_arity [simplified])

lemma parse_command_arity:
  assumes "parse_command (Array (Some (BulkString (Some name) # args))) = Inr c"
    and "find_command name = Some d" and "\<not> eq_ignore_ascii_case name ''QUIT''"
  shows "arity_accepts (cd_arity d) (Suc (length args))"
proof -
  from assms(1) obtain arm where arm: "map_of parse_arms (to_ascii_uppercase name) = Some arm" "arm args = Inr c"
    by (auto simp: parse_command_def split: option.splits)
  have "to_ascii_uppercase name \<noteq> ''QUIT''"
    using assms(3) by (simp add: eq_ignore_ascii_case_upper) (simp add: to_ascii_uppercase_def byte_simps)
  moreover have "(to_ascii_uppercase name, arm) \<in> set parse_arms" using arm(1) by (rule map_of_SomeD)
  ultimately have "arity_ok (cd_arity d) arm"
    using parse_arms_arity find_command_arity [OF assms(2)] unfolding list_all_iff by fastforce
  with arm(2) show ?thesis by (auto simp: arity_ok_def)
qed

end
