(* ===== verification/Command_Arity.thy ===== *)
theory Command_Arity
  imports Command_Table
begin

text \<open>
  The numbers of arguments that the parser takes, exactly: those that the arity of the command table
  allows, less those that a command whose arguments come in pairs or are limited refuses.
\<close>

text \<open>
  What the parser asks of the number of arguments beyond the arity of the table: LPOP and RPOP take
  a key and at most a count, MSET takes pairs, HSET and SCAN one argument and pairs.
\<close>

definition beyond_arity :: "bytes \<Rightarrow> nat \<Rightarrow> bool" where
  "beyond_arity name n \<longleftrightarrow>
     (if name \<in> {''LPOP'', ''RPOP''} then n \<le> 2
      else if name = ''MSET'' then even n
      else if name \<in> {''HSET'', ''SCAN''} then odd n else True)"

text \<open>An arm takes a number of arguments when it accepts some arguments of that number.\<close>

definition takes :: "(resp_value list \<Rightarrow> bytes + command) \<Rightarrow> nat \<Rightarrow> bool" where
  "takes arm n \<longleftrightarrow> (\<exists>args c. length args = n \<and> arm args = Inr c)"

lemma takesI: "\<exists>c. arm (replicate n v) = Inr c \<Longrightarrow> takes arm n"
  unfolding takes_def by (metis length_replicate)

lemma takes_arity: "arity_ok a arm \<Longrightarrow> takes arm n \<Longrightarrow> arity_accepts a (Suc n)"
  by (auto simp: takes_def arity_ok_def)

section \<open>Arguments that are accepted\<close>

text \<open>The text \<open>1\<close> is a key, a value and a number; SCAN is given \<open>MATCH\<close> as cursor, option and pattern.\<close>

abbreviation one_arg :: resp_value where
  "one_arg \<equiv> BulkString (Some ''1'')"

abbreviation match_arg :: resp_value where
  "match_arg \<equiv> BulkString (Some ''MATCH'')"

lemma utf8_one: "utf8_valid ''1''"
  by code_simp

lemma parse_one: "parse_i64 ''1'' = Some 1"
  by code_simp

lemma upper_args: "to_ascii_uppercase ''1'' = ''1''" "to_ascii_uppercase ''MATCH'' = ''MATCH''"
  by code_simp+

lemma extract_args:
  "extract_bytes one_arg = Inr ''1''" "extract_bytes match_arg = Inr ''MATCH''" "extract_integer one_arg = Inr 1"
  by (simp_all add: extract_bytes_def extract_integer_def utf8_one parse_one)

lemma extract_all: "try_map extract_bytes (replicate n one_arg) = Inr (replicate n ''1'')"
  by (induction n) (simp_all add: extract_args)

lemma pairs_all: "\<exists>ps. extract_pairs (replicate n one_arg) = Inr ps"
  by (induction n rule: induct_nat_012) (auto simp: extract_args)

lemma set_options_all: "parse_set_options (replicate n one_arg) ex px = Inr (ex, px)"
  by (induction n rule: induct_nat_012) (auto simp: extract_args upper_args)

lemma scan_options_all: "\<exists>r. parse_scan_options (replicate (2 * n) match_arg) count pat = Inr r"
  by (induction n arbitrary: pat) (auto simp: extract_args upper_args)

lemma scan_options_even: "parse_scan_options args count pat = Inr r \<Longrightarrow> even (length args)"
  by (induction args count pat arbitrary: r rule: parse_scan_options.induct)
    (auto simp: try_bind_def split: sum.splits list.splits if_splits)

section \<open>Every arm\<close>

text \<open>The arms that take what the table allows.\<close>

lemma arms_take:
  "arity_accepts (2) (Suc n) \<Longrightarrow> takes parse_get_args n"
  "arity_accepts (-3) (Suc n) \<Longrightarrow> takes parse_set_args n"
  "arity_accepts (-2) (Suc n) \<Longrightarrow> takes parse_del_args n"
  "arity_accepts (-2) (Suc n) \<Longrightarrow> takes parse_exists_args n"
  "arity_accepts (2) (Suc n) \<Longrightarrow> takes parse_incr_args n"
  "arity_accepts (3) (Suc n) \<Longrightarrow> takes parse_incrby_args n"
  "arity_accepts (2) (Suc n) \<Longrightarrow> takes parse_decr_args n"
  "arity_accepts (3) (Suc n) \<Longrightarrow> takes parse_decrby_args n"
  "arity_accepts (3) (Suc n) \<Longrightarrow> takes parse_expire_args n"
  "arity_accepts (3) (Suc n) \<Longrightarrow> takes parse_pexpire_args n"
  "arity_accepts (2) (Suc n) \<Longrightarrow> takes parse_ttl_args n"
  "arity_accepts (2) (Suc n) \<Longrightarrow> takes parse_pttl_args n"
  "arity_accepts (2) (Suc n) \<Longrightarrow> takes parse_persist_args n"
  "arity_accepts (-2) (Suc n) \<Longrightarrow> takes parse_mget_args n"
  "arity_accepts (-1) (Suc n) \<Longrightarrow> takes parse_ping_args n"
  "arity_accepts (2) (Suc n) \<Longrightarrow> takes parse_echo_args n"
  "arity_accepts (-1) (Suc n) \<Longrightarrow> takes parse_info_args n"
  "arity_accepts (-2) (Suc n) \<Longrightarrow> takes parse_config_args n"
  "arity_accepts (-1) (Suc n) \<Longrightarrow> takes parse_command_args n"
  "arity_accepts (-1) (Suc n) \<Longrightarrow> takes parse_flushdb_args n"
  "arity_accepts (2) (Suc n) \<Longrightarrow> takes parse_keys_args n"
  "arity_accepts (-3) (Suc n) \<Longrightarrow> takes parse_lpush_args n"
  "arity_accepts (-3) (Suc n) \<Longrightarrow> takes parse_rpush_args n"
  "arity_accepts (2) (Suc n) \<Longrightarrow> takes parse_llen_args n"
  "arity_accepts (4) (Suc n) \<Longrightarrow> takes parse_lrange_args n"
  "arity_accepts (3) (Suc n) \<Longrightarrow> takes parse_lindex_args n"
  "arity_accepts (3) (Suc n) \<Longrightarrow> takes parse_hget_args n"
  "arity_accepts (-3) (Suc n) \<Longrightarrow> takes parse_hmget_args n"
  "arity_accepts (-3) (Suc n) \<Longrightarrow> takes parse_hdel_args n"
  "arity_accepts (3) (Suc n) \<Longrightarrow> takes parse_hexists_args n"
  "arity_accepts (2) (Suc n) \<Longrightarrow> takes parse_hgetall_args n"
  "arity_accepts (2) (Suc n) \<Longrightarrow> takes parse_hlen_args n"
  "arity_accepts (2) (Suc n) \<Longrightarrow> takes parse_hkeys_args n"
  "arity_accepts (2) (Suc n) \<Longrightarrow> takes parse_hvals_args n"
  "arity_accepts (4) (Suc n) \<Longrightarrow> takes parse_hincrby_args n"
  "arity_accepts (2) (Suc n) \<Longrightarrow> takes parse_auth_args n"
  "arity_accepts (-2) (Suc n) \<Longrightarrow> takes parse_subscribe_args n"
  "arity_accepts (-1) (Suc n) \<Longrightarrow> takes parse_unsubscribe_args n"
  "arity_accepts (-2) (Suc n) \<Longrightarrow> takes parse_psubscribe_args n"
  "arity_accepts (-1) (Suc n) \<Longrightarrow> takes parse_punsubscribe_args n"
  "arity_accepts (3) (Suc n) \<Longrightarrow> takes parse_publish_args n"
  "arity_accepts (-2) (Suc n) \<Longrightarrow> takes parse_pubsub_args n"
  "arity_accepts (-2) (Suc n) \<Longrightarrow> takes parse_client_args n"
  "arity_accepts (1) (Suc n) \<Longrightarrow> takes parse_multi_args n"
  "arity_accepts (1) (Suc n) \<Longrightarrow> takes parse_exec_args n"
  "arity_accepts (1) (Suc n) \<Longrightarrow> takes parse_discard_args n"
  "arity_accepts (-2) (Suc n) \<Longrightarrow> takes parse_watch_args n"
  "arity_accepts (1) (Suc n) \<Longrightarrow> takes parse_unwatch_args n"
  by (rule takesI [where v = one_arg];
      auto simp: parse_arm_defs arity_accepts_def length_pos not_less_eq_eq extract_args extract_all set_options_all nth_replicate)+

text \<open>Those that take less.\<close>

lemma arms_take_less:
  "takes parse_mset_args n \<Longrightarrow> even n"
  "takes parse_scan_args n \<Longrightarrow> odd n"
  "takes parse_lpop_args n \<Longrightarrow> n \<le> 2"
  "takes parse_rpop_args n \<Longrightarrow> n \<le> 2"
  "takes parse_hset_args n \<Longrightarrow> odd n"
  by (auto simp: takes_def parse_arm_defs try_bind_def dest!: scan_options_even split: sum.splits if_splits)

lemma arms_take_rest:
  "arity_accepts (-3) (Suc n) \<Longrightarrow> even n \<Longrightarrow> takes parse_mset_args n"
  "arity_accepts (-4) (Suc n) \<Longrightarrow> odd n \<Longrightarrow> takes parse_hset_args n"
  "arity_accepts (-2) (Suc n) \<Longrightarrow> n \<le> 2 \<Longrightarrow> takes parse_lpop_args n"
  "arity_accepts (-2) (Suc n) \<Longrightarrow> n \<le> 2 \<Longrightarrow> takes parse_rpop_args n"
  using pairs_all [of n] pairs_all [of "n - 1"]
  by (intro takesI [where v = one_arg];
      auto simp: parse_arm_defs arity_accepts_def length_pos not_less_eq_eq extract_args nth_replicate)+

lemma scan_takes: "odd n \<Longrightarrow> takes parse_scan_args n"
  using scan_options_all [of "n div 2" 10 None]
  by (intro takesI [where v = match_arg]) (auto simp: parse_scan_args_def extract_args nth_replicate elim!: oddE)

text \<open>The whole match: what an arm takes is what the table allows and \<open>beyond_arity\<close> leaves.\<close>

lemmas arms_exact = arms_take arms_take_less arms_take_rest scan_takes arms_arity [THEN takes_arity]

lemma parse_arms_exact:
  "list_all (\<lambda>(name, arm). name \<noteq> ''QUIT'' \<longrightarrow>
     (case map_of arity_table name of None \<Rightarrow> True
      | Some a \<Rightarrow> takes arm n = (arity_accepts a (Suc n) \<and> beyond_arity name n))) parse_arms"
  unfolding parse_arms_def arity_table_eq
  by (simp add: beyond_arity_def) (intro conjI iffI; (elim conjE)?; (rule arms_exact; assumption)?)

section \<open>Whole commands\<close>

text \<open>Every command of the table is parsed.\<close>

lemma table_names_parsed: "list_all (\<lambda>name. name \<in> set (map fst parse_arms)) (map fst arity_table)"
  unfolding parse_names arity_table_eq by code_simp

lemma table_name_arm:
  assumes "find_command name = Some d"
  obtains arm where "map_of parse_arms (to_ascii_uppercase name) = Some arm"
proof -
  have "to_ascii_uppercase name \<in> set (map fst arity_table)"
    using find_command_arity [OF assms] by (metis domI dom_map_of_conv_image_fst set_map)
  then have "to_ascii_uppercase name \<in> set (map fst parse_arms)" using table_names_parsed unfolding list_all_iff by blast
  then show thesis using that by (metis map_of_eq_None_iff not_None_eq set_map)
qed

lemma table_arity_command:
  assumes "map_of arity_table (to_ascii_uppercase name) = Some a"
  obtains d where "find_command name = Some d" and "cd_arity d = a"
  using assms by (auto simp: arity_table_def map_of_find find_command_upper)

lemma parse_command_takes:
  assumes "find_command name = Some d" and "\<not> eq_ignore_ascii_case name ''QUIT''"
  shows "(\<exists>args c. length args = n \<and> parse_command (Array (Some (BulkString (Some name) # args))) = Inr c) \<longleftrightarrow>
     arity_accepts (cd_arity d) (Suc n) \<and> beyond_arity (to_ascii_uppercase name) n"
proof -
  obtain arm where arm: "map_of parse_arms (to_ascii_uppercase name) = Some arm" using table_name_arm [OF assms(1)] .
  have "to_ascii_uppercase name \<noteq> ''QUIT''"
    using assms(2) by (simp add: eq_ignore_ascii_case_upper) (simp add: to_ascii_uppercase_def byte_simps)
  moreover have "(to_ascii_uppercase name, arm) \<in> set parse_arms" using arm by (rule map_of_SomeD)
  ultimately have "takes arm n = (arity_accepts (cd_arity d) (Suc n) \<and> beyond_arity (to_ascii_uppercase name) n)"
    using parse_arms_exact [of n] find_command_arity [OF assms(1)] unfolding list_all_iff by fastforce
  with arm show ?thesis by (simp add: parse_command_def takes_def)
qed

lemma parse_quit: "parse_command (Array (Some (BulkString (Some ''QUIT'') # args))) = Inr Quit"
proof -
  have "to_ascii_uppercase ''QUIT'' = ''QUIT''" by (simp add: to_ascii_uppercase_def byte_simps)
  then show ?thesis by (simp add: parse_command_def parse_arms_def parse_quit_args_def)
qed

end
