(* ===== verification/Glob.thy ===== *)
theory Glob
  imports Rust_Strings
begin

text \<open>
  Glob matching: \<open>glob_match\<close>, \<open>match_pattern\<close> and \<open>extract_prefix\<close> of
  \<open>src/src/protocol/command/executor.rs\<close> (KEYS and SCAN), and \<open>GlobalRegistry::glob_match\<close> of
  \<open>src/src/pubsub/registry.rs\<close> (the pattern subscribers that PUBLISH counts). Both are the
  backtracking loop that remembers only the last star. \<open>matches\<close> is the declarative meaning
  of a pattern; the first matcher computes it, the second one only for texts without a star.
\<close>

section \<open>The matchers\<close>

text \<open>
  \<open>star\<close> holds \<open>star_idx\<close> and \<open>star_match\<close>, which the code sets together. The result is the
  final pattern index, \<open>None\<close> for the early \<open>return false\<close>.
\<close>

function glob_loop :: "bytes \<Rightarrow> bytes \<Rightarrow> nat \<Rightarrow> nat \<Rightarrow> (nat \<times> nat) option \<Rightarrow> nat option" where
  "glob_loop p t p_idx t_idx star =
     (if t_idx < length t then
        (if p_idx < length p then
           (if p ! p_idx = CHR ''*'' then glob_loop p t (p_idx + 1) t_idx (Some (p_idx, t_idx))
            else if p ! p_idx = CHR ''?'' then glob_loop p t (p_idx + 1) (t_idx + 1) star
            else if p ! p_idx = t ! t_idx then glob_loop p t (p_idx + 1) (t_idx + 1) star
            else (case star of
                Some (s_idx, s_match) \<Rightarrow> glob_loop p t (s_idx + 1) (s_match + 1) (Some (s_idx, s_match + 1))
              | None \<Rightarrow> None))
         else (case star of
             Some (s_idx, s_match) \<Rightarrow> glob_loop p t (s_idx + 1) (s_match + 1) (Some (s_idx, s_match + 1))
           | None \<Rightarrow> None))
      else Some p_idx)"
  by pat_completeness auto

definition glob_measure :: "bytes \<Rightarrow> nat \<Rightarrow> (nat \<times> nat) option \<Rightarrow> nat" where
  "glob_measure t t_idx star =
     (if t_idx < length t
      then max (length t - t_idx) (case star of None \<Rightarrow> 0 | Some (_, m) \<Rightarrow> length t - m) else 0)"

lemma glob_measure_simps:
  "t_idx < length t \<Longrightarrow> glob_measure t t_idx (Some (s, t_idx)) \<le> glob_measure t t_idx star"
  "t_idx < length t \<Longrightarrow> glob_measure t (Suc t_idx) star \<le> glob_measure t t_idx star"
  "t_idx < length t \<Longrightarrow> glob_measure t (Suc m) (Some (s, Suc m)) < glob_measure t t_idx (Some (s, m))"
  by (auto simp: glob_measure_def max_def split: option.splits)

termination glob_loop
proof (relation "inv_image (less_than <*lex*> less_than)
    (\<lambda>(p, t, p_idx, t_idx, star). (glob_measure t t_idx star, length p - p_idx))")
qed (auto dest: glob_measure_simps simp: le_neq_implies_less intro: le_neq_implies_less glob_measure_simps)

declare glob_loop.simps [simp del]

fun skip_stars :: "bytes \<Rightarrow> bytes" where
  "skip_stars [] = []"
| "skip_stars (c # p) = (if c = CHR ''*'' then skip_stars p else c # p)"

definition glob_match :: "bytes \<Rightarrow> bytes \<Rightarrow> bool" where
  "glob_match pattern str = (case glob_loop pattern str 0 0 None of
     None \<Rightarrow> False | Some p_idx \<Rightarrow> skip_stars (drop p_idx pattern) = [])"

definition match_pattern :: "bytes \<Rightarrow> bytes \<Rightarrow> bool" where
  "match_pattern key pattern = glob_match pattern (utf8_lossy key)"

fun extract_prefix :: "bytes \<Rightarrow> bytes" where
  "extract_prefix [] = []"
| "extract_prefix (c # p) =
     (if c = CHR ''*'' \<or> c = CHR ''?'' \<or> c = CHR ''['' then [] else c # extract_prefix p)"

function registry_glob_loop :: "bytes \<Rightarrow> bytes \<Rightarrow> nat \<Rightarrow> nat \<Rightarrow> (nat \<times> nat) option \<Rightarrow> nat option" where
  "registry_glob_loop p t p_idx t_idx star =
     (if t_idx < length t then
        (if p_idx < length p \<and> (p ! p_idx = t ! t_idx \<or> p ! p_idx = CHR ''?'')
         then registry_glob_loop p t (p_idx + 1) (t_idx + 1) star
         else if p_idx < length p \<and> p ! p_idx = CHR ''*''
         then registry_glob_loop p t (p_idx + 1) t_idx (Some (p_idx, t_idx))
         else (case star of
             Some (idx, match_idx) \<Rightarrow> registry_glob_loop p t (idx + 1) (match_idx + 1) (Some (idx, match_idx + 1))
           | None \<Rightarrow> None))
      else Some p_idx)"
  by pat_completeness auto

termination registry_glob_loop
proof (relation "inv_image (less_than <*lex*> less_than)
    (\<lambda>(p, t, p_idx, t_idx, star). (glob_measure t t_idx star, length p - p_idx))")
qed (auto dest: glob_measure_simps simp: le_neq_implies_less intro: le_neq_implies_less glob_measure_simps)

declare registry_glob_loop.simps [simp del]

definition registry_glob_match :: "bytes \<Rightarrow> bytes \<Rightarrow> bool" where
  "registry_glob_match pattern str = (case registry_glob_loop pattern str 0 0 None of
     None \<Rightarrow> False | Some p_idx \<Rightarrow> skip_stars (drop p_idx pattern) = [])"

section \<open>The meaning of a pattern\<close>

fun matches :: "bytes \<Rightarrow> bytes \<Rightarrow> bool" where
  "matches [] t \<longleftrightarrow> t = []"
| "matches (c # p) [] \<longleftrightarrow> c = CHR ''*'' \<and> matches p []"
| "matches (c # p) (d # t) \<longleftrightarrow>
     (if c = CHR ''*'' then matches p (d # t) \<or> matches (c # p) t
      else (c = CHR ''?'' \<or> c = d) \<and> matches p t)"

lemma matches_star: "matches (CHR ''*'' # q) t \<longleftrightarrow> (\<exists>k \<le> length t. matches q (drop k t))"
proof (induction t)
  case (Cons d t)
  have "(\<exists>k \<le> length (d # t). matches q (drop k (d # t))) \<longleftrightarrow>
      matches q (d # t) \<or> (\<exists>k \<le> length t. matches q (drop k t))"
  proof
    assume "\<exists>k \<le> length (d # t). matches q (drop k (d # t))"
    then obtain k where "k \<le> length (d # t)" "matches q (drop k (d # t))" by blast
    then show "matches q (d # t) \<or> (\<exists>k \<le> length t. matches q (drop k t))" by (cases k) auto
  next
    assume "matches q (d # t) \<or> (\<exists>k \<le> length t. matches q (drop k t))"
    then show "\<exists>k \<le> length (d # t). matches q (drop k (d # t))"
      by (metis drop0 drop_Suc_Cons le0 length_Cons Suc_le_mono)
  qed
  with Cons show ?case by simp
qed simp

lemma matches_star_at:
  assumes "i \<le> length t"
  shows "matches (CHR ''*'' # q) (drop i t) \<longleftrightarrow> matches q (drop i t) \<or> (\<exists>j. i < j \<and> j \<le> length t \<and> matches q (drop j t))"
    (is "?l \<longleftrightarrow> ?r")
proof
  assume ?l
  then obtain k where k: "k \<le> length t - i" "matches q (drop (k + i) t)" by (auto simp: matches_star)
  then show ?r using assms by (cases k) auto
next
  assume ?r
  then obtain j where j: "i \<le> j" "j \<le> length t" "matches q (drop j t)"
    using assms less_imp_le by blast
  then show ?l unfolding matches_star by (intro exI [of _ "j - i"]) simp
qed

lemma matches_Nil: "matches p [] \<longleftrightarrow> skip_stars p = []"
  by (induction p) auto

lemma matches_skip:
  assumes "CHR ''*'' \<notin> set seg" and "matches (seg @ q) t"
  shows "length seg \<le> length t \<and> matches q (drop (length seg) t)"
  using assms
proof (induction seg arbitrary: t)
  case (Cons c seg)
  then show ?case by (cases t) auto
qed simp

text \<open>A later place for the last star is enough: what an earlier star could still do, it can do.\<close>

lemma earlier_star_useless:
  assumes seg: "CHR ''*'' \<notin> set seg" and "t_idx = m + length seg"
    and j: "m < j" "j \<le> length t" "matches (seg @ CHR ''*'' # q) (drop j t)"
  shows "matches (CHR ''*'' # q) (drop t_idx t)"
proof -
  from matches_skip [OF seg j(3)] have len: "length seg \<le> length t - j"
    and "matches (CHR ''*'' # q) (drop (j + length seg) t)" by (simp_all add: add.commute)
  then obtain k where "k \<le> length t - (j + length seg)" "matches q (drop (k + (j + length seg)) t)"
    by (auto simp: matches_star)
  moreover have "k + (j + length seg) - t_idx + t_idx = k + (j + length seg)" using assms(2) j(1) by simp
  ultimately show ?thesis
    using len j assms(2) by (auto simp: matches_star intro!: exI [of _ "k + (j + length seg) - t_idx"])
qed

fun star_inv :: "bytes \<Rightarrow> nat \<Rightarrow> nat \<Rightarrow> (nat \<times> nat) option \<Rightarrow> bool" where
  "star_inv p p_idx t_idx None = True"
| "star_inv p p_idx t_idx (Some (s, m)) \<longleftrightarrow> s < p_idx \<and> p_idx \<le> length p \<and> t_idx + s + 1 = m + p_idx \<and>
     CHR ''*'' \<notin> set (take (p_idx - (s + 1)) (drop (s + 1) p))"

fun star_alt :: "bytes \<Rightarrow> bytes \<Rightarrow> (nat \<times> nat) option \<Rightarrow> bool" where
  "star_alt p t None = False"
| "star_alt p t (Some (s, m)) \<longleftrightarrow> (\<exists>j. m < j \<and> j \<le> length t \<and> matches (drop (s + 1) p) (drop j t))"

lemma star_inv_step:
  assumes "star_inv p p_idx t_idx star" and "p_idx < length p" and "p ! p_idx \<noteq> CHR ''*''"
  shows "star_inv p (p_idx + 1) (t_idx + 1) star"
proof (cases star)
  case (Some sm)
  obtain s m where sm: "sm = (s, m)" by force
  have "take (p_idx + 1 - (s + 1)) (drop (s + 1) p) = take (p_idx - (s + 1)) (drop (s + 1) p) @ [p ! p_idx]"
    using assms(1,2) Some sm take_Suc_conv_app_nth [of "p_idx - (s + 1)" "drop (s + 1) p"]
    by (auto simp: Suc_diff_Suc)
  with assms Some sm show ?thesis by auto
qed simp

text \<open>The pattern after the last star: what has been matched since, and the rest.\<close>

lemma star_inv_segment:
  assumes "star_inv p p_idx t_idx (Some (s, m))"
  obtains seg where "drop (s + 1) p = seg @ drop p_idx p" "CHR ''*'' \<notin> set seg" "t_idx = m + length seg"
proof (rule that [of "take (p_idx - (s + 1)) (drop (s + 1) p)"])
  show "drop (s + 1) p = take (p_idx - (s + 1)) (drop (s + 1) p) @ drop p_idx p"
    using assms append_take_drop_id [of "p_idx - (s + 1)" "drop (s + 1) p"] by simp
qed (use assms in auto)

lemma star_alt_split:
  assumes "m < length t"
  shows "star_alt p t (Some (s, m)) \<longleftrightarrow>
     matches (drop (s + 1) p) (drop (m + 1) t) \<or> star_alt p t (Some (s, m + 1))"
proof -
  show ?thesis
  proof
    assume "star_alt p t (Some (s, m))"
    then obtain j where j: "m < j" "j \<le> length t" "matches (drop (s + 1) p) (drop j t)" by auto
    then show "matches (drop (s + 1) p) (drop (m + 1) t) \<or> star_alt p t (Some (s, m + 1))"
      by (cases "j = m + 1") auto
  next
    assume "matches (drop (s + 1) p) (drop (m + 1) t) \<or> star_alt p t (Some (s, m + 1))"
    then show "star_alt p t (Some (s, m))"
    proof
      assume "matches (drop (s + 1) p) (drop (m + 1) t)"
      with assms show ?thesis by (simp only: star_alt.simps) (intro exI [of _ "m + 1"], simp)
    next
      assume "star_alt p t (Some (s, m + 1))"
      then obtain j where "m + 1 < j" "j \<le> length t" "matches (drop (s + 1) p) (drop j t)"
        unfolding star_alt.simps by blast
      then show ?thesis unfolding star_alt.simps by (intro exI [of _ j]) simp
    qed
  qed
qed

lemma glob_loop_spec:
  assumes "star_inv p p_idx t_idx star" and "t_idx \<le> length t" and "p_idx \<le> length p"
  shows "(case glob_loop p t p_idx t_idx star of None \<Rightarrow> False | Some i \<Rightarrow> skip_stars (drop i p) = []) \<longleftrightarrow>
     matches (drop p_idx p) (drop t_idx t) \<or> star_alt p t star"
  using assms
proof (induction p t p_idx t_idx star rule: glob_loop.induct)
  case (1 p t p_idx t_idx star)
  let ?R = "\<lambda>r. (case r of None \<Rightarrow> False | Some i \<Rightarrow> skip_stars (drop i p) = [])"
  show ?case
  proof (cases "t_idx < length t")
    case False
    have "\<not> star_alt p t star"
    proof (cases star)
      case (Some sm)
      obtain s m where sm: "sm = (s, m)" by force
      with Some 1(6) star_inv_segment obtain seg where
        seg: "drop (s + 1) p = seg @ drop p_idx p" "CHR ''*'' \<notin> set seg" "t_idx = m + length seg" by blast
      have "\<not> matches (drop (s + 1) p) (drop j t)" if "m < j" "j \<le> length t" for j
        using matches_skip [OF seg(2), of "drop p_idx p" "drop j t"] seg(1,3) that False 1(7) by auto
      with Some sm show ?thesis by auto
    qed simp
    with False 1(7) show ?thesis by (simp add: glob_loop.simps matches_Nil)
  next
    case t: True
    have dt: "drop t_idx t = t ! t_idx # drop (t_idx + 1) t" using t by (simp add: Cons_nth_drop_Suc)
    have retry: "?R (case star of Some (s, m) \<Rightarrow> glob_loop p t (s + 1) (m + 1) (Some (s, m + 1)) | None \<Rightarrow> None) \<longleftrightarrow>
        star_alt p t star"
      if IH: "\<And>s m. star = Some (s, m) \<Longrightarrow> ?R (glob_loop p t (s + 1) (m + 1) (Some (s, m + 1))) \<longleftrightarrow>
          matches (drop (s + 1) p) (drop (m + 1) t) \<or> star_alt p t (Some (s, m + 1))"
    proof (cases star)
      case (Some sm)
      obtain s m where sm: "sm = (s, m)" by force
      from Some sm 1(6) t have "m < length t" by auto
      with IH [of s m] Some sm show ?thesis by (simp only: option.case prod.case star_alt_split)
    qed simp
    have inv: "star_inv p (s + 1) (m + 1) (Some (s, m + 1))" "m + 1 \<le> length t" "s + 1 \<le> length p"
      if "star = Some (s, m)" for s m using that 1(6) t by auto
    show ?thesis
    proof (cases "p_idx < length p")
      case False
      have "glob_loop p t p_idx t_idx star =
          (case star of Some (s, m) \<Rightarrow> glob_loop p t (s + 1) (m + 1) (Some (s, m + 1)) | None \<Rightarrow> None)"
        using t False by (subst glob_loop.simps) simp
      moreover have "\<not> matches (drop p_idx p) (drop t_idx t)" using False 1(8) dt by simp
      ultimately show ?thesis using retry 1(5) t False inv by simp
    next
      case p: True
      have dp: "drop p_idx p = p ! p_idx # drop (p_idx + 1) p" using p by (simp add: Cons_nth_drop_Suc)
      consider (star) "p ! p_idx = CHR ''*''" | (same) "p ! p_idx \<noteq> CHR ''*''" "p ! p_idx = CHR ''?'' \<or> p ! p_idx = t ! t_idx"
        | (diff) "p ! p_idx \<noteq> CHR ''*''" "p ! p_idx \<noteq> CHR ''?''" "p ! p_idx \<noteq> t ! t_idx" by blast
      then show ?thesis
      proof cases
        case star
        have "glob_loop p t p_idx t_idx star = glob_loop p t (p_idx + 1) t_idx (Some (p_idx, t_idx))"
          using t p star by (subst glob_loop.simps) simp
        moreover have "star_alt p t star \<Longrightarrow> matches (drop p_idx p) (drop t_idx t)"
        proof -
          assume alt: "star_alt p t star"
          then obtain s m j where sm: "star = Some (s, m)" and
            j: "m < j" "j \<le> length t" "matches (drop (s + 1) p) (drop j t)" by (cases star) auto
          from star_inv_segment 1(6) sm obtain seg where
            "drop (s + 1) p = seg @ drop p_idx p" "CHR ''*'' \<notin> set seg" "t_idx = m + length seg" by blast
          with earlier_star_useless [of seg t_idx m j t "drop (p_idx + 1) p"] j
          show "matches (drop p_idx p) (drop t_idx t)" by (simp add: dp star)
        qed
        moreover have "matches (drop p_idx p) (drop t_idx t) \<longleftrightarrow>
            matches (drop (p_idx + 1) p) (drop t_idx t) \<or> star_alt p t (Some (p_idx, t_idx))"
          unfolding dp star star_alt.simps by (rule matches_star_at) (use t in simp)
        ultimately show ?thesis using 1(1) t p star 1(7) by auto
      next
        case same
        have "glob_loop p t p_idx t_idx star = glob_loop p t (p_idx + 1) (t_idx + 1) star"
          using t p same by (subst glob_loop.simps) auto
        moreover have "matches (drop p_idx p) (drop t_idx t) \<longleftrightarrow> matches (drop (p_idx + 1) p) (drop (t_idx + 1) t)"
          unfolding dp dt using same by simp
        moreover have "?R (glob_loop p t (p_idx + 1) (t_idx + 1) star) \<longleftrightarrow>
            matches (drop (p_idx + 1) p) (drop (t_idx + 1) t) \<or> star_alt p t star"
          using 1(2,3) t p same star_inv_step [OF 1(6) p same(1)] by (cases "p ! p_idx = CHR ''?''") simp_all
        ultimately show ?thesis by simp
      next
        case diff
        have "glob_loop p t p_idx t_idx star =
            (case star of Some (s, m) \<Rightarrow> glob_loop p t (s + 1) (m + 1) (Some (s, m + 1)) | None \<Rightarrow> None)"
          using t p diff by (subst glob_loop.simps) simp
        moreover have "\<not> matches (drop p_idx p) (drop t_idx t)" unfolding dp dt using diff by simp
        ultimately show ?thesis using retry 1(4) t p diff inv by simp
      qed
    qed
  qed
qed

section \<open>What the matchers compute\<close>

lemma glob_match_eq_matches: "glob_match pattern str = matches pattern str"
  using glob_loop_spec [of pattern 0 0 None str] by (simp add: glob_match_def)

lemma extract_prefix_is_prefix: "starts_with pattern (extract_prefix pattern)"
  by (induction pattern) (auto simp: starts_with_Cons)

lemma matches_extract_prefix: "matches pattern str \<Longrightarrow> starts_with str (extract_prefix pattern)"
proof (induction pattern arbitrary: str)
  case (Cons c p)
  then show ?case by (cases str) (auto simp: starts_with_Cons)
qed simp

lemma matches_literal:
  "CHR ''*'' \<notin> set p \<Longrightarrow> CHR ''?'' \<notin> set p \<Longrightarrow> matches p str \<longleftrightarrow> str = p"
proof (induction p arbitrary: str)
  case (Cons c p)
  then show ?case by (cases str) auto
qed simp

lemma registry_loop_no_star:
  "CHR ''*'' \<notin> set t \<Longrightarrow> registry_glob_loop p t p_idx t_idx star = glob_loop p t p_idx t_idx star"
proof (induction p t p_idx t_idx star rule: glob_loop.induct)
  case (1 p t p_idx t_idx star)
  have "t_idx < length t \<Longrightarrow> t ! t_idx \<noteq> CHR ''*''" using 1(6) nth_mem by fastforce
  then show ?case
    using 1 by (subst registry_glob_loop.simps, subst glob_loop.simps, cases "p_idx < length p")
      (auto split: option.splits)
qed

lemma registry_match_no_star:
  "CHR ''*'' \<notin> set str \<Longrightarrow> registry_glob_match pattern str = matches pattern str"
  by (simp add: registry_glob_match_def registry_loop_no_star flip: glob_match_eq_matches glob_match_def)

lemma registry_match_star_text:
  "\<not> registry_glob_match ''*'' ''*abc''" "matches ''*'' ''*abc''"
  by (simp_all add: registry_glob_match_def registry_glob_loop.simps)

end
