(* ===== verification/Config.thy ===== *)
theory Config
  imports Prelude
begin

unbundle bit_operations_syntax

text \<open>
  \<open>src/src/config.rs\<close>: the server configuration, its validation, and the password check in
  time independent of the contents. The TOML file and the environment are read by the
  libraries; what \<open>from_file\<close> does with the parsed file and the variable
  \<open>FEOX_AUTH_PASSWORD\<close> is \<open>finish_load\<close>.
\<close>

record config =
  cfg_bind_addr :: bytes
  cfg_port :: nat
  cfg_threads :: nat
  cfg_data_path :: "bytes option"
  cfg_max_connections_per_thread :: nat
  cfg_connection_buffer_size :: nat
  cfg_tcp_nodelay :: bool
  cfg_max_pipeline_depth :: nat
  cfg_numa_aware :: bool
  cfg_max_memory_per_shard :: "nat option"
  cfg_enable_ttl :: bool
  cfg_file_size :: "nat option"
  cfg_log_level :: bytes
  cfg_requirepass :: "bytes option"

text \<open>\<open>num_cpus\<close> is the number of processors of the machine.\<close>

definition default_config :: "nat \<Rightarrow> config" where
  "default_config num_cpus = \<lparr>
     cfg_bind_addr = ''127.0.0.1'',
     cfg_port = 6379,
     cfg_threads = num_cpus,
     cfg_data_path = None,
     cfg_max_connections_per_thread = 10000,
     cfg_connection_buffer_size = 16 * 1024,
     cfg_tcp_nodelay = True,
     cfg_max_pipeline_depth = 1000,
     cfg_numa_aware = False,
     cfg_max_memory_per_shard = Some (1024 * 1024 * 1024),
     cfg_enable_ttl = True,
     cfg_file_size = Some (10 * 1024 * 1024 * 1024),
     cfg_log_level = ''info'',
     cfg_requirepass = None\<rparr>"

text \<open>The result and the environment variable afterwards.\<close>

definition finish_load :: "config \<Rightarrow> bytes option \<Rightarrow> config \<times> bytes option" where
  "finish_load config env =
     (if cfg_requirepass config = None
      then (case env of
              Some password \<Rightarrow> (config\<lparr>cfg_requirepass := Some password\<rparr>, None)
            | None \<Rightarrow> (config, None))
      else (config, env))"

definition validate :: "config \<Rightarrow> bytes + unit" where
  "validate config =
     (if cfg_threads config = 0 then Inl ''threads must be > 0''
      else if cfg_port config = 0 then Inl ''port must be > 0''
      else if cfg_connection_buffer_size config < 1024 then Inl ''connection_buffer_size must be >= 1024''
      else Inr ())"

definition auth_required :: "config \<Rightarrow> bool" where
  "auth_required config \<longleftrightarrow> cfg_requirepass config \<noteq> None"

definition byte_xor :: "char \<Rightarrow> char \<Rightarrow> 8 word" where
  "byte_xor a b = word_of_nat (bval a) XOR word_of_nat (bval b)"

definition constant_time_eq :: "bytes \<Rightarrow> bytes \<Rightarrow> bool" where
  "constant_time_eq a b =
     (if length a \<noteq> length b then False
      else fold (\<lambda>(byte_a, byte_b) result. result OR byte_xor byte_a byte_b) (zip a b) 0 = 0)"

definition check_password :: "config \<Rightarrow> bytes \<Rightarrow> bool" where
  "check_password config password = (case cfg_requirepass config of
     Some correct \<Rightarrow> constant_time_eq password correct
   | None \<Rightarrow> False)"

section \<open>Files\<close>

text \<open>
  Reading and writing a configuration file: what the file system and the library toml do are
  arguments. The environment variable \<open>FEOX_AUTH_PASSWORD\<close> is a state: it is read, and removed.
\<close>

definition from_file ::
  "(bytes \<Rightarrow> bytes + bytes) \<Rightarrow> (bytes \<Rightarrow> bytes + config) \<Rightarrow> bytes \<Rightarrow> bytes option \<Rightarrow> bytes + config \<times> bytes option" where
  "from_file read_to_string from_str path env =
     try_bind (read_to_string path) (\<lambda>contents.
     try_bind (from_str contents) (\<lambda>config. Inr (finish_load config env)))"

definition to_file ::
  "(config \<Rightarrow> bytes + bytes) \<Rightarrow> (bytes \<Rightarrow> bytes \<Rightarrow> 'f \<Rightarrow> (bytes + unit) \<times> 'f) \<Rightarrow> config \<Rightarrow> bytes \<Rightarrow> 'f \<Rightarrow> (bytes + unit) \<times> 'f" where
  "to_file to_string_pretty fs_write config path files = (case to_string_pretty config of
     Inl e \<Rightarrow> (Inl e, files)
   | Inr contents \<Rightarrow> fs_write path contents files)"

section \<open>Properties\<close>

lemma byte_xor_zero: "byte_xor a b = 0 \<longleftrightarrow> a = b"
proof
  assume "byte_xor a b = 0"
  then have "(word_of_nat (bval a) :: 8 word) = word_of_nat (bval b)"
    by (simp add: byte_xor_def bit_eq_iff bit_xor_iff)
  then have "unat (word_of_nat (bval a) :: 8 word) = unat (word_of_nat (bval b) :: 8 word)" by simp
  then show "a = b" by (simp add: unat_of_nat)
qed (simp add: byte_xor_def)

lemma or_eq_zero: "(a OR b = 0) \<longleftrightarrow> a = 0 \<and> b = (0 :: 8 word)"
  by (auto simp: bit_eq_iff bit_or_iff)

lemma fold_or_zero:
  "fold (\<lambda>(a, b) r. r OR byte_xor a b) xs r = 0 \<longleftrightarrow> r = 0 \<and> (\<forall>(a, b) \<in> set xs. a = b)"
  by (induction xs arbitrary: r) (auto simp: or_eq_zero byte_xor_zero)

lemma constant_time_eq_iff: "constant_time_eq a b \<longleftrightarrow> a = b"
proof (cases "length a = length b")
  case True
  then have "(\<forall>(x, y) \<in> set (zip a b). x = y) \<longleftrightarrow> a = b"
    by (induction a b rule: list_induct2) auto
  with True show ?thesis by (simp add: constant_time_eq_def fold_or_zero)
qed (auto simp: constant_time_eq_def)

lemma check_password_iff: "check_password config p \<longleftrightarrow> cfg_requirepass config = Some p"
  by (auto simp: check_password_def constant_time_eq_iff split: option.splits)

lemma validate_iff:
  "validate config = Inr () \<longleftrightarrow> 0 < cfg_threads config \<and> 0 < cfg_port config \<and> 1024 \<le> cfg_connection_buffer_size config"
  by (simp add: validate_def)

lemma default_config_valid: "validate (default_config n) = Inr () \<longleftrightarrow> 0 < n"
  by (simp add: validate_iff default_config_def)

text \<open>
  Over files that keep what is written and a library that reads what it prints, a saved
  configuration is loaded again; one without a password takes it from the environment.
\<close>

lemma save_and_load:
  assumes "to_string_pretty config = Inr contents" and "from_str contents = Inr config"
  shows "to_file to_string_pretty (\<lambda>path contents files. (Inr (), files(path \<mapsto> contents))) config path files =
      (Inr (), files(path \<mapsto> contents)) \<and>
    from_file (\<lambda>p. case (files(path \<mapsto> contents)) p of None \<Rightarrow> Inl ''not found'' | Some c \<Rightarrow> Inr c) from_str path env =
      Inr (if cfg_requirepass config = None \<and> env \<noteq> None then (config\<lparr>cfg_requirepass := env\<rparr>, None) else (config, env))"
  using assms by (auto simp: to_file_def from_file_def finish_load_def split: option.split)

end
