(* ===== verification/Client_Registry.thy ===== *)
theory Client_Registry
  imports Rust_Ints "HOL-Library.AList"
begin

text \<open>
  \<open>src/src/client_registry.rs\<close>: the registry of all client connections. The concurrent map
  is an association list; its iteration order is unspecified in Rust and is the insertion
  order here. An address is kept as the text it is printed as.
\<close>

record client_info =
  ci_id :: nat
  ci_name :: "bytes option"
  ci_addr :: "bytes option"
  ci_fd :: int
  ci_connected_at :: nat
  ci_commands_processed :: nat
  ci_flags :: "bytes list"
  ci_thread_id :: nat
  ci_db :: nat

type_synonym client_registry = "(nat \<times> client_info) list"

definition new_client_registry :: client_registry where
  "new_client_registry = []"

text \<open>\<open>register\<close> and \<open>update\<close> are given the data they copy from the connection.\<close>

definition register_client :: "client_info \<Rightarrow> client_registry \<Rightarrow> client_registry" where
  "register_client info reg = AList.update (ci_id info) info reg"

definition update_client :: "nat \<Rightarrow> bytes option \<Rightarrow> nat \<Rightarrow> bytes list \<Rightarrow> client_registry \<Rightarrow> client_registry" where
  "update_client connection_id name commands_processed fl reg =
     (case map_of reg connection_id of
        None \<Rightarrow> reg
      | Some entry \<Rightarrow> AList.update connection_id
          (entry\<lparr>ci_name := name, ci_commands_processed := commands_processed, ci_flags := fl\<rparr>) reg)"

definition unregister_client :: "nat \<Rightarrow> client_registry \<Rightarrow> client_registry" where
  "unregister_client connection_id reg = AList.delete connection_id reg"

definition get_all_clients :: "client_registry \<Rightarrow> client_info list" where
  "get_all_clients reg = map snd reg"

definition get_client :: "nat \<Rightarrow> client_registry \<Rightarrow> client_info option" where
  "get_client connection_id reg = map_of reg connection_id"

definition should_kill :: "nat option \<Rightarrow> bytes option \<Rightarrow> bytes option \<Rightarrow> client_info \<Rightarrow> bool" where
  "should_kill filter_id filter_addr filter_type client \<longleftrightarrow>
     (case filter_id of None \<Rightarrow> False | Some i \<Rightarrow> ci_id client = i) \<or>
     (case filter_addr of None \<Rightarrow> False | Some addr_str \<Rightarrow>
        (case ci_addr client of None \<Rightarrow> False | Some addr \<Rightarrow> addr = addr_str)) \<or>
     (case filter_type of None \<Rightarrow> False | Some client_type \<Rightarrow>
        if client_type = ''normal'' then ''pubsub'' \<notin> set (ci_flags client)
        else if client_type = ''pubsub'' then ''pubsub'' \<in> set (ci_flags client)
        else False)"

definition kill_clients :: "nat option \<Rightarrow> bytes option \<Rightarrow> bytes option \<Rightarrow> client_registry \<Rightarrow> nat list" where
  "kill_clients filter_id filter_addr filter_type reg =
     map ci_id (filter (should_kill filter_id filter_addr filter_type) (get_all_clients reg))"

definition client_count :: "client_registry \<Rightarrow> nat" where
  "client_count reg = length reg"

section \<open>The registry as a map from connection ids\<close>

definition registry_ok :: "client_registry \<Rightarrow> bool" where
  "registry_ok reg \<longleftrightarrow> distinct (map fst reg) \<and> (\<forall>(i, c) \<in> set reg. ci_id c = i)"

lemma AList_update_set: "set (AList.update k v xs) \<subseteq> insert (k, v) (set xs)"
  by (induction xs) auto

lemma new_registry_ok [simp]: "registry_ok new_client_registry"
  by (simp add: registry_ok_def new_client_registry_def)

lemma register_ok [intro]: "registry_ok reg \<Longrightarrow> registry_ok (register_client info reg)"
  using AList_update_set [of "ci_id info" info reg]
  by (auto simp: registry_ok_def register_client_def distinct_update)

lemma get_after_register:
  "get_client i (register_client info reg) = (if i = ci_id info then Some info else get_client i reg)"
  by (simp add: get_client_def register_client_def update_conv')

lemma update_client_ok [intro]:
  assumes "registry_ok reg"
  shows "registry_ok (update_client i name n fl reg)"
proof (cases "map_of reg i")
  case (Some c)
  then have "ci_id c = i" using assms by (auto simp: registry_ok_def dest: map_of_SomeD)
  with assms Some AList_update_set [of i "c\<lparr>ci_name := name, ci_commands_processed := n, ci_flags := fl\<rparr>" reg]
  show ?thesis by (auto simp: registry_ok_def update_client_def distinct_update)
qed (use assms in \<open>simp add: update_client_def\<close>)

lemma get_after_update:
  "get_client j (update_client i name n fl reg) =
     (if j = i then map_option (ci_name_update (\<lambda>_. name) \<circ> ci_commands_processed_update (\<lambda>_. n) \<circ> ci_flags_update (\<lambda>_. fl))
        (get_client i reg) else get_client j reg)"
  by (auto simp: get_client_def update_client_def update_conv' split: option.splits)

lemma unregister_ok [intro]: "registry_ok reg \<Longrightarrow> registry_ok (unregister_client i reg)"
  by (auto simp: registry_ok_def unregister_client_def AList.delete_eq intro: distinct_map_filter)

lemma get_after_unregister: "get_client j (unregister_client i reg) = (if j = i then None else get_client j reg)"
  by (simp add: get_client_def unregister_client_def delete_conv')

lemma kill_by_id:
  assumes "registry_ok reg"
  shows "kill_clients (Some i) None None reg = (if get_client i reg = None then [] else [i])"
  using assms
proof (induction reg)
  case (Cons e reg)
  obtain j c where e: "e = (j, c)" by force
  have ok: "registry_ok reg" "ci_id c = j" "j \<notin> fst ` set reg" using Cons.prems by (auto simp: registry_ok_def e)
  then have "map_of reg j = None" by (simp add: map_of_eq_None_iff)
  with Cons.IH [OF ok(1)] ok(2) show ?case
    by (auto simp: kill_clients_def get_all_clients_def get_client_def should_kill_def e)
qed (simp add: kill_clients_def get_all_clients_def get_client_def)

end
