(* ===== verification/Client_Ops.thy ===== *)
theory Client_Ops
  imports Client_Registry Resp Rust_Strings
begin

text \<open>
  \<open>src/src/protocol/command/client.rs\<close>: the CLIENT command. The registry is \<open>None\<close> until
  \<open>with_registry\<close>; \<open>now\<close> is the system clock in seconds since the epoch.
\<close>

definition or_default :: "'a \<Rightarrow> 'a option \<Rightarrow> 'a" where
  "or_default d x = (case x of None \<Rightarrow> d | Some v \<Rightarrow> v)"

definition err_wrong_args :: "bytes \<Rightarrow> resp_value" where
  "err_wrong_args name = Error (''-ERR wrong number of arguments for '' @ [CHR 0x27] @ name @ [CHR 0x27] @ '' command'')"

definition client_id :: "nat option \<Rightarrow> resp_value" where
  "client_id connection_id = (case connection_id of
     Some conn_id \<Rightarrow> Integer (word_of_nat conn_id)
   | None \<Rightarrow> Error ''-ERR Client info not available'')"

definition client_fields :: "nat \<Rightarrow> client_info \<Rightarrow> (bytes \<times> bytes) list" where
  "client_fields now c =
     [(''id'', show_nat (ci_id c)),
      (''addr'', or_default ''N/A'' (ci_addr c)),
      (''fd'', show_int (ci_fd c)),
      (''name'', or_default [] (ci_name c)),
      (''age'', show_nat (now - ci_connected_at c)),
      (''idle'', show_nat 0),
      (''flags'', if ci_flags c = [] then ''N'' else concat (ci_flags c)),
      (''db'', show_nat (ci_db c)),
      (''sub'', show_nat 0), (''psub'', show_nat 0), (''ssub'', show_nat 0),
      (''multi'', ''-1''), (''qbuf'', ''0''), (''qbuf-free'', ''0''), (''argv-mem'', ''0''),
      (''multi-mem'', ''0''), (''rbs'', ''0''), (''rbp'', ''0''), (''obl'', ''0''), (''oll'', ''0''),
      (''omem'', ''0''), (''tot-mem'', ''0''), (''events'', ''r''), (''cmd'', ''client''),
      (''user'', ''default''), (''redir'', ''-1''), (''resp'', ''2'')]"

fun join_fields :: "bytes \<Rightarrow> (bytes \<times> bytes) list \<Rightarrow> bytes" where
  "join_fields sep [] = []"
| "join_fields sep [(k, v)] = k @ ''='' @ v"
| "join_fields sep ((k, v) # e # es) = k @ ''='' @ v @ sep @ join_fields sep (e # es)"

definition client_list :: "nat \<Rightarrow> client_registry option \<Rightarrow> resp_value" where
  "client_list now registry = (case registry of
     Some reg \<Rightarrow> BulkString (Some (concat (map
         (\<lambda>c. join_fields '' '' (client_fields now c) @ [CHR 0x0A]) (get_all_clients reg))))
   | None \<Rightarrow> Error ''-ERR Client registry not available'')"

definition client_setname :: "bytes list \<Rightarrow> resp_value" where
  "client_setname args = (if args = [] then err_wrong_args ''CLIENT SETNAME'' else SimpleString ''OK'')"

definition client_getname :: "client_registry option \<Rightarrow> nat option \<Rightarrow> resp_value" where
  "client_getname registry connection_id = (case (registry, connection_id) of
     (Some reg, Some conn_id) \<Rightarrow>
       (case get_client conn_id reg of
          Some client \<Rightarrow> (case ci_name client of Some name \<Rightarrow> BulkString (Some name) | None \<Rightarrow> BulkString None)
        | None \<Rightarrow> BulkString None)
   | _ \<Rightarrow> BulkString None)"

record kill_filter =
  kf_id :: "nat option"
  kf_addr :: "bytes option"
  kf_type :: "bytes option"

text \<open>\<open>single\<close>: there is one argument only, the legacy form.\<close>

fun parse_kill_args :: "bool \<Rightarrow> bytes list \<Rightarrow> kill_filter \<Rightarrow> kill_filter" where
  "parse_kill_args single [] f = f"
| "parse_kill_args single [a] f = (if single then f\<lparr>kf_addr := Some (utf8_lossy a)\<rparr> else f)"
| "parse_kill_args single (a # v # rest) f =
     (if str_to_uppercase (utf8_lossy a) = ''ID''
      then parse_kill_args single rest
             (case parse_usize (utf8_lossy v) of Some i \<Rightarrow> f\<lparr>kf_id := Some i\<rparr> | None \<Rightarrow> f)
      else if str_to_uppercase (utf8_lossy a) = ''ADDR''
      then parse_kill_args single rest (f\<lparr>kf_addr := Some (utf8_lossy v)\<rparr>)
      else if str_to_uppercase (utf8_lossy a) = ''TYPE''
      then parse_kill_args single rest (f\<lparr>kf_type := Some (utf8_lossy v)\<rparr>)
      else parse_kill_args single (v # rest) f)"

definition client_kill :: "client_registry option \<Rightarrow> bytes list \<Rightarrow> resp_value" where
  "client_kill registry args =
     (if args = [] then err_wrong_args ''CLIENT KILL''
      else (let f = parse_kill_args (length args = 1) args \<lparr>kf_id = None, kf_addr = None, kf_type = None\<rparr>
            in case registry of
                 Some reg \<Rightarrow> Integer (word_of_nat (length (kill_clients (kf_id f) (kf_addr f) (kf_type f) reg)))
               | None \<Rightarrow> Integer 0))"

definition client_info_text :: "nat \<Rightarrow> client_registry option \<Rightarrow> nat option \<Rightarrow> resp_value" where
  "client_info_text now registry connection_id = (case (registry, connection_id) of
     (Some reg, Some conn_id) \<Rightarrow>
       (case get_client conn_id reg of
          Some client \<Rightarrow> BulkString (Some (join_fields [CHR 0x0A] (client_fields now client)))
        | None \<Rightarrow> Error ''-ERR Client not found'')
   | _ \<Rightarrow> Error ''-ERR Client info not available'')"

definition client_pause :: "bytes list \<Rightarrow> resp_value" where
  "client_pause args = (if args = [] then err_wrong_args ''CLIENT PAUSE'' else SimpleString ''OK'')"

definition client_execute ::
  "nat \<Rightarrow> client_registry option \<Rightarrow> bytes \<Rightarrow> bytes list \<Rightarrow> nat option \<Rightarrow> resp_value" where
  "client_execute now registry subcommand args connection_id =
     (let sub = str_to_uppercase subcommand in
      if sub = ''ID'' then client_id connection_id
      else if sub = ''LIST'' then client_list now registry
      else if sub = ''SETNAME'' then client_setname args
      else if sub = ''GETNAME'' then client_getname registry connection_id
      else if sub = ''KILL'' then client_kill registry args
      else if sub = ''INFO'' then client_info_text now registry connection_id
      else if sub = ''PAUSE'' then client_pause args
      else if sub = ''UNPAUSE'' then SimpleString ''OK''
      else Error (''-ERR Unknown CLIENT subcommand '' @ [CHR 0x27] @ subcommand @ [CHR 0x27]))"

lemma show_nat_lossy: "utf8_lossy (show_nat n) = show_nat n"
proof (rule is_ascii_lossy)
  have "bval c < 128" if "c \<in> set (show_nat n)" for c
    using show_nat_mem [OF that] by (simp add: is_digit_def)
  then show "is_ascii (show_nat n)" by (simp add: is_ascii_def list_all_iff)
qed

lemma upper_id: "str_to_uppercase ''id'' = ''ID''" "utf8_lossy ''id'' = ''id''"
proof -
  have ascii: "is_ascii ''id''" by (simp add: is_ascii_def)
  have "to_ascii_uppercase ''id'' = ''ID''" by (simp add: to_ascii_uppercase_def byte_simps)
  with ascii show "str_to_uppercase ''id'' = ''ID''" by (simp only: str_to_uppercase_ascii)
  from ascii show "utf8_lossy ''id'' = ''id''" by (rule is_ascii_lossy)
qed

lemma kill_by_id_args:
  assumes "registry_ok reg" and "i < 2 ^ 64"
  shows "client_kill (Some reg) [''id'', show_nat i] = Integer (if get_client i reg = None then 0 else 1)"
  using kill_by_id [OF assms(1), of i] assms(2)
  by (simp add: client_kill_def Let_def upper_id show_nat_lossy parse_usize_show_nat)

end
