(* ===== verification/Props_Protocol.thy ===== *)
theory Props_Protocol
  imports Resp_Parser Command_Arity Glob Config Client_Ops
begin

text \<open>
  The properties of the protocol layer: RESP reading and writing, the command parser and its
  metadata, glob patterns, passwords and the client registry.
\<close>

section \<open>RESP\<close>

text \<open>C13: A RESP value written by \<open>write_resp_value\<close> and fed to a fresh parser is parsed back to the same
  value, and what follows it in the buffer stays pending. The conditions exclude what RESP cannot carry: line
  breaks in simple strings and error texts, invalid UTF-8 in errors, lengths of \<open>2 ^ 63\<close> and more.\<close>

theorem resp_roundtrip:
  assumes "wire_ok cap v"
  shows "\<exists>p. parse_next cap (feed new_parser (write_resp_value [] v @ rest)) = (Inr (Some v), p) \<and> pending p = rest"
proof -
  let ?p = "feed new_parser (write_resp_value [] v @ rest)"
  have pend: "pending ?p = write_resp_value [] v @ rest" and pos: "rp_position ?p \<le> length (rp_buffer ?p)"
    by (simp_all add: feed_def new_parser_def pending_def)
  from parse_next_pending(3) [OF pos, of cap v "length (write_resp_value [] v)"] parse_write_value [OF assms, of rest]
  show ?thesis by (auto simp: pend)
qed

theorem resp_roundtrip_witness:
  "\<exists>p. parse_next 16 (feed new_parser (write_resp_value []
     (Array (Some [BulkString (Some ''GET''), Integer 7, BulkString None])) @ ''+OK'')) =
     (Inr (Some (Array (Some [BulkString (Some ''GET''), Integer 7, BulkString None]))), p) \<and> pending p = ''+OK''"
  by (rule resp_roundtrip) simp

text \<open>C12: However the bytes of a connection are cut into reads, draining the parser after every read gives
  the same sequence of values as parsing the whole stream at once.\<close>

theorem parser_chunk_independence:
  assumes "ds \<noteq> []"
  shows "fst (drain_reads cap new_parser ds) = fst (parse_stream cap (concat ds))"
proof -
  have "parser_ok new_parser" and "pending new_parser = []"
    by (simp_all add: parser_ok_def new_parser_def pending_def)
  with drain_reads_stream [of new_parser cap ds] assms show ?thesis by simp
qed

theorem parser_chunk_independence_witness:
  "fst (drain_reads 16 new_parser [''+O'', ''K'']) = fst (parse_stream 16 (concat [''+O'', ''K'']))"
  by (rule parser_chunk_independence) simp

text \<open>C34: The parser never claims more bytes than the buffer holds, always makes progress, and a value or
  an error once found does not change when more bytes arrive; and the bytes it has read and keeps are never
  more than half of its buffer.\<close>

theorem parser_progress_and_stability:
  "(parse_value cap buf = Inr (Some (v, c)) \<longrightarrow> 0 < c \<and> c \<le> length buf \<and> parse_value cap (buf @ later) = Inr (Some (v, c))) \<and>
    (parse_value cap buf = Inl e \<longrightarrow> parse_value cap (buf @ later) = Inl e) \<and>
    2 * rp_position new_parser \<le> length (rp_buffer new_parser) \<and>
    (2 * rp_position p \<le> length (rp_buffer p) \<longrightarrow>
      2 * rp_position (feed p d) \<le> length (rp_buffer (feed p d)) \<and>
      2 * rp_position (snd (parse_next cap p)) \<le> length (rp_buffer (snd (parse_next cap p))))"
  using parse_consumes(1) [of cap buf v c] parse_append(1) [of cap buf later]
  by (auto simp: new_parser_def feed_def parse_next_def Let_def split: sum.split option.split)

theorem parser_progress_and_stability_witness:
  "0 < (4::nat) \<and> 4 \<le> length (write_resp_value [] (Integer 5)) \<and>
     parse_value 16 (write_resp_value [] (Integer 5) @ ''+PO'') = Inr (Some (Integer 5, 4)) \<and>
     rp_position (feed new_parser ''+PO'') \<le> 1"
proof -
  have len: "length (write_resp_value [] (Integer 5)) = 4"
    by (simp add: show_i64_def show_int_def show_nat.simps)
  have v: "parse_value 16 (write_resp_value [] (Integer 5)) = Inr (Some (Integer 5, 4))"
    using parse_write_value [of 16 "Integer 5" "[]"] len by simp
  have f: "length (rp_buffer (feed new_parser ''+PO'')) = 3" by (simp add: feed_def new_parser_def)
  from parser_progress_and_stability [of 16 "write_resp_value [] (Integer 5)" "Integer 5" 4 "''+PO''" CapacityOverflow new_parser "''+PO''"]
  show ?thesis using v f by auto
qed

section \<open>Commands\<close>

text \<open>C39: The numbers of arguments that the parser takes are those of the command table, with the exceptions named
  by \<open>beyond_arity\<close>: for a command of the table other than QUIT, some \<open>n\<close> arguments are accepted exactly when the
  arity of the table allows \<open>n\<close> and, for LPOP and RPOP, there are at most two, for MSET an even and for HSET and SCAN an odd
  number. There the table alone promises more than the parser takes. QUIT is accepted with any arguments, although the table gives it none.\<close>

theorem parser_respects_table:
  assumes "find_command name = Some d" and "\<not> eq_ignore_ascii_case name ''QUIT''"
  shows "((\<exists>args c. length args = n \<and> parse_command (Array (Some (BulkString (Some name) # args))) = Inr c) \<longleftrightarrow>
      arity_accepts (cd_arity d) (Suc n) \<and> beyond_arity (to_ascii_uppercase name) n) \<and>
    parse_command (Array (Some (BulkString (Some ''QUIT'') # args))) = Inr Quit"
  using parse_command_takes [OF assms] parse_quit by blast

theorem parser_respects_table_witness:
  "\<exists>d. find_command ''LPOP'' = Some d \<and> arity_accepts (cd_arity d) 4 \<and>
     \<not> (\<exists>args c. length args = 3 \<and> parse_command (Array (Some (BulkString (Some ''LPOP'') # args))) = Inr c) \<and>
     (\<exists>args c. length args = 2 \<and> parse_command (Array (Some (BulkString (Some ''LPOP'') # args))) = Inr c)"
proof -
  have up: "to_ascii_uppercase ''LPOP'' = ''LPOP''" "to_ascii_uppercase ''QUIT'' = ''QUIT''"
    by (simp_all add: to_ascii_uppercase_def byte_simps)
  have "map_of arity_table (to_ascii_uppercase ''LPOP'') = Some (- 2)" by (simp add: up arity_table_eq)
  then obtain d where found: "find_command ''LPOP'' = Some d" and arity: "cd_arity d = - 2" by (rule table_arity_command)
  have "\<not> eq_ignore_ascii_case ''LPOP'' ''QUIT''" by (simp add: eq_ignore_ascii_case_upper up)
  note counts = parser_respects_table [OF found this]
  from counts [of 3] counts [of 2] show ?thesis
    by (intro exI [of _ d]) (simp add: found arity up arity_accepts_def beyond_arity_def)
qed

text \<open>The commands the parser knows and the table does not describe are exactly JSONPATCH and CAS;
  every name is listed once.\<close>

lemma table_gaps:
  "filter (\<lambda>n. map_of arity_table n = None) (map fst parse_arms) = [''JSONPATCH'', ''CAS''] \<and>
   distinct (map fst arity_table) \<and> length COMMAND_TABLE = 54"
  using missing_names_eq distinct_arity_table length_COMMAND_TABLE by (simp add: missing_names_def)

section \<open>Clients\<close>

text \<open>CLIENT KILL ID i on a well-formed registry counts one client if i is registered and none
  otherwise; the registry stays well-formed under registration, update and removal.\<close>

lemma client_kill_by_id:
  assumes "registry_ok reg" and "i < 2 ^ 64"
  shows "client_kill (Some reg) [''id'', show_nat i] = Integer (if get_client i reg = None then 0 else 1) \<and>
     registry_ok (register_client info reg) \<and> registry_ok (update_client j name n fl reg) \<and>
     registry_ok (unregister_client j reg)"
  using kill_by_id_args [OF assms] register_ok [OF assms(1)] update_client_ok [OF assms(1)] unregister_ok [OF assms(1)]
  by blast

lemma client_kill_by_id_witness:
  "client_kill (Some (register_client \<lparr>ci_id = 7, ci_name = None, ci_addr = None, ci_fd = 0, ci_connected_at = 0,
     ci_commands_processed = 0, ci_flags = [], ci_thread_id = 0, ci_db = 0\<rparr> new_client_registry))
     [''id'', show_nat 7] = Integer 1"
proof -
  let ?c = "\<lparr>ci_id = 7, ci_name = None, ci_addr = None, ci_fd = 0, ci_connected_at = 0,
     ci_commands_processed = 0, ci_flags = [], ci_thread_id = 0, ci_db = 0\<rparr> :: client_info"
  have "registry_ok (register_client ?c new_client_registry)" by (intro register_ok new_registry_ok)
  from client_kill_by_id [OF this, of 7] show ?thesis by (simp add: get_after_register)
qed

end
