(* ===== verification/Store.thy ===== *)
theory Store
  imports Rust_Ints
begin

text \<open>
  The storage engine, \<open>FeoxStore\<close> of the crate feoxdb, is not part of the repository: the
  server reaches it through its methods only. It is the record \<open>feox\<close> of these methods over
  an unknown state, and an argument of every definition that calls it. Each method returns
  a new state, also the reads: the store is shared with the other worker threads, counts
  accesses and expires keys, and nothing of this is fixed here.

  What the correctness lemmas rely on is the locale \<open>feox_store\<close>: in a good state (memory
  left, no concurrent writer, no key expiring within the command) the methods read and
  write a map from keys to values, as documented; \<open>feox_ttl\<close> adds the expiry times. The
  record \<open>mem_store\<close>, an ordered association list, satisfies both; the witnesses use it.
\<close>

section \<open>The interface\<close>

text \<open>
  The server tells \<open>KeyNotFound\<close> from the other errors, and prints the others; \<open>OtherError\<close>
  stands for every other variant, with its message.
\<close>

datatype feox_error = KeyNotFound | OtherError bytes

record feox_stats =
  fs_memory_usage :: nat
  fs_cache_memory :: nat
  fs_total_operations :: nat
  fs_total_gets :: nat
  fs_total_inserts :: nat
  fs_cache_hits :: nat
  fs_cache_misses :: nat
  fs_cache_hit_rate_percent :: bytes \<comment> \<open>\<open>cache_hit_rate * 100.0\<close> printed with two decimals\<close>
  fs_record_count :: nat

record 's feox =
  fx_show_error :: "feox_error \<Rightarrow> bytes"
  fx_get_bytes :: "'s \<Rightarrow> bytes \<Rightarrow> (feox_error + bytes) \<times> 's"
  fx_contains_key :: "'s \<Rightarrow> bytes \<Rightarrow> bool \<times> 's"
  fx_insert :: "'s \<Rightarrow> bytes \<Rightarrow> bytes \<Rightarrow> (feox_error + bool) \<times> 's"
  fx_insert_bytes :: "'s \<Rightarrow> bytes \<Rightarrow> bytes \<Rightarrow> (feox_error + bool) \<times> 's"
  fx_insert_with_timestamp :: "'s \<Rightarrow> bytes \<Rightarrow> bytes \<Rightarrow> u64 option \<Rightarrow> (feox_error + bool) \<times> 's"
  fx_insert_bytes_with_timestamp :: "'s \<Rightarrow> bytes \<Rightarrow> bytes \<Rightarrow> u64 option \<Rightarrow> (feox_error + bool) \<times> 's"
  fx_insert_bytes_with_ttl_and_timestamp ::
    "'s \<Rightarrow> bytes \<Rightarrow> bytes \<Rightarrow> u64 \<Rightarrow> u64 option \<Rightarrow> (feox_error + bool) \<times> 's"
  fx_delete :: "'s \<Rightarrow> bytes \<Rightarrow> (feox_error + unit) \<times> 's"
  fx_compare_and_swap :: "'s \<Rightarrow> bytes \<Rightarrow> bytes \<Rightarrow> bytes \<Rightarrow> (feox_error + bool) \<times> 's"
  fx_atomic_increment :: "'s \<Rightarrow> bytes \<Rightarrow> i64 \<Rightarrow> (feox_error + i64) \<times> 's"
  fx_range_query :: "'s \<Rightarrow> bytes \<Rightarrow> bytes \<Rightarrow> nat \<Rightarrow> (feox_error + (bytes \<times> bytes) list) \<times> 's"
  fx_get_ttl :: "'s \<Rightarrow> bytes \<Rightarrow> (feox_error + u64 option) \<times> 's"
  fx_update_ttl :: "'s \<Rightarrow> bytes \<Rightarrow> u64 \<Rightarrow> (feox_error + unit) \<times> 's"
  fx_persist :: "'s \<Rightarrow> bytes \<Rightarrow> (feox_error + unit) \<times> 's"
  fx_json_patch :: "'s \<Rightarrow> bytes \<Rightarrow> bytes \<Rightarrow> (feox_error + unit) \<times> 's"
  fx_stats :: "'s \<Rightarrow> feox_stats \<times> 's"

section \<open>The contract\<close>

definition found :: "'a option \<Rightarrow> feox_error + 'a" where
  "found x = (case x of None \<Rightarrow> Inl KeyNotFound | Some v \<Rightarrow> Inr v)"

lemma found_simps [simp]: "found None = Inl KeyNotFound" "found (Some v) = Inr v"
  by (simp_all add: found_def)

text \<open>The entries of a finite map in key order, and those of a key range.\<close>

definition entries :: "(bytes \<Rightarrow> bytes option) \<Rightarrow> (bytes \<times> bytes) list" where
  "entries m = map (\<lambda>k. (k, the (m k))) (sorted_list_of_set (dom m))"

definition in_range :: "bytes \<Rightarrow> bytes \<Rightarrow> bytes \<Rightarrow> bool" where
  "in_range a b k \<longleftrightarrow> a \<le> k \<and> k \<le> b"

definition entries_between :: "(bytes \<Rightarrow> bytes option) \<Rightarrow> bytes \<Rightarrow> bytes \<Rightarrow> (bytes \<times> bytes) list" where
  "entries_between m a b = filter (\<lambda>e. in_range a b (fst e)) (entries m)"

locale feox_store =
  fixes fx :: "'s feox"
    and view :: "'s \<Rightarrow> bytes \<Rightarrow> bytes option"
    and good :: "'s \<Rightarrow> bool"
    and accepts :: "bytes \<Rightarrow> bytes \<Rightarrow> bool"
  assumes get_res [simp]: "good s \<Longrightarrow> fst (fx_get_bytes fx s k) = found (view s k)"
    and get_view [simp]: "good s \<Longrightarrow> view (snd (fx_get_bytes fx s k)) = view s"
    and get_good [simp]: "good s \<Longrightarrow> good (snd (fx_get_bytes fx s k))"
    and contains_res [simp]: "good s \<Longrightarrow> fst (fx_contains_key fx s k) = (view s k \<noteq> None)"
    and contains_view [simp]: "good s \<Longrightarrow> view (snd (fx_contains_key fx s k)) = view s"
    and contains_good [simp]: "good s \<Longrightarrow> good (snd (fx_contains_key fx s k))"
    and insert_res [simp]: "good s \<Longrightarrow> accepts k v \<Longrightarrow> fst (fx_insert fx s k v) = Inr (view s k = None)"
    and insert_view [simp]: "good s \<Longrightarrow> accepts k v \<Longrightarrow> view (snd (fx_insert fx s k v)) = (view s)(k \<mapsto> v)"
    and insert_good [simp]: "good s \<Longrightarrow> accepts k v \<Longrightarrow> good (snd (fx_insert fx s k v))"
    and insert_bytes_is [simp]: "good s \<Longrightarrow> fx_insert_bytes fx s k v = fx_insert fx s k v"
    and insert_ts_is [simp]: "good s \<Longrightarrow> fx_insert_with_timestamp fx s k v None = fx_insert fx s k v"
    and insert_bytes_ts_is [simp]: "good s \<Longrightarrow> fx_insert_bytes_with_timestamp fx s k v None = fx_insert fx s k v"
    and insert_ttl_res [simp]: "good s \<Longrightarrow> accepts k v \<Longrightarrow> 0 < t \<Longrightarrow>
      fst (fx_insert_bytes_with_ttl_and_timestamp fx s k v t None) = Inr (view s k = None)"
    and insert_ttl_view [simp]: "good s \<Longrightarrow> accepts k v \<Longrightarrow> 0 < t \<Longrightarrow>
      view (snd (fx_insert_bytes_with_ttl_and_timestamp fx s k v t None)) = (view s)(k \<mapsto> v)"
    and insert_ttl_good [simp]: "good s \<Longrightarrow> accepts k v \<Longrightarrow> 0 < t \<Longrightarrow>
      good (snd (fx_insert_bytes_with_ttl_and_timestamp fx s k v t None))"
    and delete_res [simp]: "good s \<Longrightarrow> fst (fx_delete fx s k) = found (map_option (\<lambda>_. ()) (view s k))"
    and delete_view [simp]: "good s \<Longrightarrow> view (snd (fx_delete fx s k)) = (view s)(k := None)"
    and delete_good [simp]: "good s \<Longrightarrow> good (snd (fx_delete fx s k))"
    and cas_res [simp]: "good s \<Longrightarrow> accepts k n \<Longrightarrow>
      fst (fx_compare_and_swap fx s k e n) = found (map_option (\<lambda>v. v = e) (view s k))"
    and cas_view [simp]: "good s \<Longrightarrow> accepts k n \<Longrightarrow> view (snd (fx_compare_and_swap fx s k e n)) =
      (if view s k = Some e then (view s)(k \<mapsto> n) else view s)"
    and cas_good [simp]: "good s \<Longrightarrow> accepts k n \<Longrightarrow> good (snd (fx_compare_and_swap fx s k e n))"
    and increment_new: "good s \<Longrightarrow> view s k = None \<Longrightarrow> accepts k (to_le_bytes d) \<Longrightarrow>
      fst (fx_atomic_increment fx s k d) = Inr d \<and>
      view (snd (fx_atomic_increment fx s k d)) = (view s)(k \<mapsto> to_le_bytes d)"
    and increment_counter: "good s \<Longrightarrow> view s k = Some b \<Longrightarrow> length b = 8 \<Longrightarrow>
      in_i64 (sint (from_le_bytes b) + sint d) \<Longrightarrow>
      fst (fx_atomic_increment fx s k d) = Inr (from_le_bytes b + d) \<and>
      view (snd (fx_atomic_increment fx s k d)) = (view s)(k \<mapsto> to_le_bytes (from_le_bytes b + d))"
    and increment_other: "good s \<Longrightarrow> view s k = Some b \<Longrightarrow> length b \<noteq> 8 \<Longrightarrow>
      (\<exists>e. fst (fx_atomic_increment fx s k d) = Inl e) \<and> view (snd (fx_atomic_increment fx s k d)) = view s"
    and increment_good [simp]: "good s \<Longrightarrow> good (snd (fx_atomic_increment fx s k d))"
    and range_res [simp]: "good s \<Longrightarrow> fst (fx_range_query fx s a b lim) = Inr (take lim (entries_between (view s) a b))"
    and range_view [simp]: "good s \<Longrightarrow> view (snd (fx_range_query fx s a b lim)) = view s"
    and range_good [simp]: "good s \<Longrightarrow> good (snd (fx_range_query fx s a b lim))"
    and finite_view [simp]: "good s \<Longrightarrow> finite (dom (view s))"

text \<open>The same laws, one whole call at a time.\<close>

context feox_store
begin

lemma get_run:
  assumes "good s"
  obtains s1 where "fx_get_bytes fx s k = (found (view s k), s1)" "good s1" "view s1 = view s"
  using assms by (intro that [of "snd (fx_get_bytes fx s k)"] prod_eqI) simp_all

lemma contains_run:
  assumes "good s"
  obtains s1 where "fx_contains_key fx s k = (view s k \<noteq> None, s1)" "good s1" "view s1 = view s"
  using contains_res [OF assms] contains_view [OF assms] contains_good [OF assms]
  by (intro that [of "snd (fx_contains_key fx s k)"] prod_eqI) simp_all

lemma insert_run:
  assumes "good s" and "accepts k v"
  obtains s1 where "fx_insert fx s k v = (Inr (view s k = None), s1)" "good s1" "view s1 = (view s)(k \<mapsto> v)"
  using assms by (intro that [of "snd (fx_insert fx s k v)"] prod_eqI) simp_all

lemma delete_run:
  assumes "good s"
  obtains s1 where "fx_delete fx s k = (found (map_option (\<lambda>_. ()) (view s k)), s1)" "good s1"
    "view s1 = (view s)(k := None)"
  using assms by (intro that [of "snd (fx_delete fx s k)"] prod_eqI) simp_all

lemma range_run:
  assumes "good s"
  obtains s1 where "fx_range_query fx s a b lim = (Inr (take lim (entries_between (view s) a b)), s1)" "good s1"
    "view s1 = view s"
  using assms by (intro that [of "snd (fx_range_query fx s a b lim)"] prod_eqI) simp_all

end

text \<open>
  Expiry times, in whole seconds; setting one changes no value. \<open>ttl_of\<close> is the time that was set last
  for a key; what \<open>get_ttl\<close> answers is what remains of it, so at most that time, and the clock is
  free between any two calls. A plain write clears the expiry. Of a time of 0 nothing is said: neither
  the server's documentation nor its tests say what the store does with it.
\<close>

definition remains :: "u64 option \<Rightarrow> u64 option \<Rightarrow> bool" where
  "remains left t \<longleftrightarrow> (case t of None \<Rightarrow> left = None | Some n \<Rightarrow> (\<exists>r \<le> n. left = Some r))"

lemma remains_simps [simp]:
  "remains left None \<longleftrightarrow> left = None" "remains left (Some n) \<longleftrightarrow> (\<exists>r \<le> n. left = Some r)"
  by (simp_all add: remains_def)

lemma remains_refl [simp]: "remains t t"
  by (cases t) simp_all

locale feox_ttl = feox_store fx view good accepts
  for fx :: "'s feox" and view good accepts +
  fixes ttl_of :: "'s \<Rightarrow> bytes \<Rightarrow> u64 option"
  assumes get_ttl_missing: "good s \<Longrightarrow> view s k = None \<Longrightarrow> fst (fx_get_ttl fx s k) = Inl KeyNotFound"
    and get_ttl_remains: "good s \<Longrightarrow> view s k \<noteq> None \<Longrightarrow> \<exists>left. fst (fx_get_ttl fx s k) = Inr left \<and> remains left (ttl_of s k)"
    and update_ttl_res [simp]: "good s \<Longrightarrow> 0 < t \<Longrightarrow> fst (fx_update_ttl fx s k t) = found (map_option (\<lambda>_. ()) (view s k))"
    and update_ttl_view [simp]: "good s \<Longrightarrow> 0 < t \<Longrightarrow> view (snd (fx_update_ttl fx s k t)) = view s"
    and update_ttl_good [simp]: "good s \<Longrightarrow> 0 < t \<Longrightarrow> good (snd (fx_update_ttl fx s k t))"
    and update_ttl_ttl [simp]: "good s \<Longrightarrow> 0 < t \<Longrightarrow> ttl_of (snd (fx_update_ttl fx s k t)) =
      (if view s k = None then ttl_of s else (ttl_of s)(k \<mapsto> t))"
    and persist_res [simp]: "good s \<Longrightarrow> fst (fx_persist fx s k) = found (map_option (\<lambda>_. ()) (view s k))"
    and persist_view [simp]: "good s \<Longrightarrow> view (snd (fx_persist fx s k)) = view s"
    and persist_good [simp]: "good s \<Longrightarrow> good (snd (fx_persist fx s k))"
    and persist_ttl [simp]: "good s \<Longrightarrow> ttl_of (snd (fx_persist fx s k)) =
      (if view s k = None then ttl_of s else (ttl_of s)(k := None))"
    and insert_ttl_ttl [simp]: "good s \<Longrightarrow> accepts k v \<Longrightarrow> 0 < t \<Longrightarrow>
      ttl_of (snd (fx_insert_bytes_with_ttl_and_timestamp fx s k v t None)) = (ttl_of s)(k \<mapsto> t)"
    and insert_ttl_of [simp]: "good s \<Longrightarrow> accepts k v \<Longrightarrow> ttl_of (snd (fx_insert fx s k v)) = (ttl_of s)(k := None)"

section \<open>An instance: the ordered association list\<close>

record mem =
  mem_entries :: "(bytes \<times> bytes) list"
  mem_ttls :: "(bytes \<times> u64) list"

fun put :: "bytes \<Rightarrow> bytes \<Rightarrow> (bytes \<times> bytes) list \<Rightarrow> (bytes \<times> bytes) list" where
  "put k v [] = [(k, v)]"
| "put k v ((k', v') # es) =
     (if k < k' then (k, v) # (k', v') # es
      else if k = k' then (k, v) # es
      else (k', v') # put k v es)"

definition mem_view :: "mem \<Rightarrow> bytes \<Rightarrow> bytes option" where
  "mem_view m = map_of (mem_entries m)"

definition mem_good :: "mem \<Rightarrow> bool" where
  "mem_good m \<longleftrightarrow> sorted_wrt (<) (map fst (mem_entries m))"

definition mem_insert :: "mem \<Rightarrow> bytes \<Rightarrow> bytes \<Rightarrow> (feox_error + bool) \<times> mem" where
  "mem_insert m k v = (Inr (mem_view m k = None),
     m\<lparr>mem_entries := put k v (mem_entries m), mem_ttls := filter (\<lambda>e. fst e \<noteq> k) (mem_ttls m)\<rparr>)"

definition mem_increment :: "mem \<Rightarrow> bytes \<Rightarrow> i64 \<Rightarrow> (feox_error + i64) \<times> mem" where
  "mem_increment m k d = (case mem_view m k of
     None \<Rightarrow> (Inr d, snd (mem_insert m k (to_le_bytes d)))
   | Some b \<Rightarrow>
       if length b = 8
       then (Inr (i64_saturating_add (from_le_bytes b) d),
             snd (mem_insert m k (to_le_bytes (i64_saturating_add (from_le_bytes b) d))))
       else (Inl (OtherError ''Invalid operation''), m))"

definition mem_store :: "mem feox" where
  "mem_store = \<lparr>
     fx_show_error = (\<lambda>e. case e of KeyNotFound \<Rightarrow> ''Key not found'' | OtherError t \<Rightarrow> t),
     fx_get_bytes = (\<lambda>m k. (found (mem_view m k), m)),
     fx_contains_key = (\<lambda>m k. (mem_view m k \<noteq> None, m)),
     fx_insert = mem_insert,
     fx_insert_bytes = mem_insert,
     fx_insert_with_timestamp = (\<lambda>m k v t. mem_insert m k v),
     fx_insert_bytes_with_timestamp = (\<lambda>m k v t. mem_insert m k v),
     fx_insert_bytes_with_ttl_and_timestamp = (\<lambda>m k v ttl t.
       (fst (mem_insert m k v),
        snd (mem_insert m k v)\<lparr>mem_ttls := (k, ttl) # mem_ttls m\<rparr>)),
     fx_delete = (\<lambda>m k. (found (map_option (\<lambda>_. ()) (mem_view m k)),
       m\<lparr>mem_entries := filter (\<lambda>e. fst e \<noteq> k) (mem_entries m)\<rparr>)),
     fx_compare_and_swap = (\<lambda>m k e n. (found (map_option (\<lambda>v. v = e) (mem_view m k)),
       if mem_view m k = Some e then snd (mem_insert m k n) else m)),
     fx_atomic_increment = mem_increment,
     fx_range_query = (\<lambda>m a b n.
       (Inr (take n (filter (\<lambda>e. in_range a b (fst e)) (mem_entries m))), m)),
     fx_get_ttl = (\<lambda>m k. (found (map_option (\<lambda>_. map_of (mem_ttls m) k) (mem_view m k)), m)),
     fx_update_ttl = (\<lambda>m k t. (found (map_option (\<lambda>_. ()) (mem_view m k)),
       if mem_view m k = None then m else m\<lparr>mem_ttls := (k, t) # mem_ttls m\<rparr>)),
     fx_persist = (\<lambda>m k. (found (map_option (\<lambda>_. ()) (mem_view m k)),
       if mem_view m k = None then m else m\<lparr>mem_ttls := filter (\<lambda>e. fst e \<noteq> k) (mem_ttls m)\<rparr>)),
     fx_json_patch = (\<lambda>m k p. (found (map_option (\<lambda>_. ()) (mem_view m k)),
       if mem_view m k = None then m else snd (mem_insert m k p))),
     fx_stats = (\<lambda>m. (\<lparr>fs_memory_usage = 0, fs_cache_memory = 0, fs_total_operations = 0,
       fs_total_gets = 0, fs_total_inserts = 0, fs_cache_hits = 0, fs_cache_misses = 0,
       fs_cache_hit_rate_percent = ''0.00'', fs_record_count = length (mem_entries m)\<rparr>, m))\<rparr>"

definition empty_mem :: mem where
  "empty_mem = \<lparr>mem_entries = [], mem_ttls = []\<rparr>"

lemma put_keys: "set (map fst (put k v es)) = insert k (set (map fst es))"
  by (induction k v es rule: put.induct) auto

lemma sorted_put: "sorted_wrt (<) (map fst es) \<Longrightarrow> sorted_wrt (<) (map fst (put k v es))"
proof (induction es)
  case (Cons e es)
  obtain k' v' where e: "e = (k', v')" by force
  have "\<forall>x \<in> set (map fst (put k v es)). k' < x" if "\<not> k < k'" "k \<noteq> k'"
    using Cons.prems that unfolding put_keys e by auto
  with Cons show ?case by (auto simp: e)
qed simp

lemma map_of_put: "sorted_wrt (<) (map fst es) \<Longrightarrow> map_of (put k v es) = (map_of es)(k \<mapsto> v)"
  by (induction es) (auto simp: fun_eq_iff)

lemma map_of_filter_key: "map_of (filter (\<lambda>e. fst e \<noteq> k) es) = (map_of es)(k := None)"
  by (induction es) (auto simp: fun_eq_iff)

lemma sorted_filter_key: "sorted_wrt (<) (map fst es) \<Longrightarrow> sorted_wrt (<) (map fst (filter P es))"
  by (induction es) auto

lemma entries_map_of:
  assumes "sorted_wrt (<) (map fst es)"
  shows "entries (map_of es) = es"
proof -
  have "distinct (map fst es)" and "sorted (map fst es)"
    using assms strict_sorted_iff by auto
  then have "sorted_list_of_set (dom (map_of es)) = map fst es"
    by (simp add: dom_map_of_conv_image_fst sorted_list_of_set.idem_if_sorted_distinct flip: set_map)
  moreover have "map ((\<lambda>k. (k, the (map_of es k))) \<circ> fst) es = es"
    using \<open>distinct (map fst es)\<close> by (intro map_idI) auto
  ultimately show ?thesis by (simp add: entries_def)
qed

lemmas mem_defs = mem_store_def mem_view_def mem_good_def mem_insert_def mem_increment_def

lemma mem_ttl_filter: "map_of (filter (\<lambda>e. fst e \<noteq> k) ts) = (map_of ts)(k := None)"
  by (induction ts) (auto simp: fun_eq_iff)

interpretation mem: feox_store mem_store mem_view mem_good "\<lambda>_ _. True"
proof (unfold_locales, goal_cases)
  case (23 s k b d)
  note that = this
  have "\<not> sint (from_le_bytes b) + sint d < - (2 ^ 63)" "\<not> 2 ^ 63 \<le> sint (from_le_bytes b) + sint d"
    using that by (auto simp: in_i64_def)
  then have "i64_saturating_add (from_le_bytes b) d = from_le_bytes b + d"
    by (simp add: i64_saturating_add_def Let_def)
  with that show ?case by (simp add: mem_defs map_of_put)
qed (auto simp: mem_defs map_of_put sorted_put map_of_filter_key sorted_filter_key entries_map_of
      entries_between_def dom_map_of_conv_image_fst split: option.splits)

interpretation mem: feox_ttl mem_store mem_view mem_good "\<lambda>_ _. True" "\<lambda>m. map_of (mem_ttls m)"
  by unfold_locales (auto simp: mem_defs mem_ttl_filter fun_eq_iff)

end
