(* ===== verification/Server_Error.thy ===== *)
theory Server_Error
  imports Store
begin

text \<open>
  \<open>src/src/error.rs\<close>: the error type of the server, its \<open>Display\<close> text (the \<open>#[error]\<close>
  attributes) and its RESP form. \<open>show\<close> prints the errors of the storage engine.
\<close>

datatype server_error =
    Io bytes
  | Database feox_error
  | Protocol bytes
  | ConnectionClosed
  | BufferOverflow
  | InvalidCommand bytes
  | WrongArity bytes
  | ConfigError bytes
  | Shutdown
  | System bytes
  | Other bytes

definition quoted :: "bytes \<Rightarrow> bytes" where
  "quoted s = [CHR 0x27] @ s @ [CHR 0x27]"

fun show_server_error :: "(feox_error \<Rightarrow> bytes) \<Rightarrow> server_error \<Rightarrow> bytes" where
  "show_server_error show (Io t) = ''IO error: '' @ t"
| "show_server_error show (Database e) = ''FeOxDB error: '' @ show e"
| "show_server_error show (Protocol t) = ''Protocol error: '' @ t"
| "show_server_error show ConnectionClosed = ''Connection closed''"
| "show_server_error show BufferOverflow = ''Buffer overflow''"
| "show_server_error show (InvalidCommand t) = ''Invalid command: '' @ t"
| "show_server_error show (WrongArity t) = ''Wrong number of arguments for '' @ quoted t @ '' command''"
| "show_server_error show (ConfigError t) = ''Configuration error: '' @ t"
| "show_server_error show Shutdown = ''Server shutting down''"
| "show_server_error show (System t) = ''System error: '' @ t"
| "show_server_error show (Other t) = t"

definition error_to_resp :: "(feox_error \<Rightarrow> bytes) \<Rightarrow> server_error \<Rightarrow> bytes" where
  "error_to_resp show e = (case e of
     Database KeyNotFound \<Rightarrow> ''$-1'' @ [CHR 0x0D, CHR 0x0A]
   | WrongArity cmd \<Rightarrow>
       ''-ERR wrong number of arguments for '' @ quoted cmd @ '' command'' @ [CHR 0x0D, CHR 0x0A]
   | InvalidCommand cmd \<Rightarrow> ''-ERR unknown command '' @ quoted cmd @ [CHR 0x0D, CHR 0x0A]
   | _ \<Rightarrow> ''-ERR '' @ show_server_error show e @ [CHR 0x0D, CHR 0x0A])"

end
