(* ===== verification/List_Ops.thy ===== *)
theory List_Ops
  imports Server_Error Rust_Strings
begin

text \<open>
  \<open>src/src/protocol/command/list.rs\<close>: the list commands over the key-value store. A list
  \<open>key\<close> is a metadata record under \<open>L:key:meta\<close> (head, tail, count as three little-endian
  64-bit integers) and one entry \<open>L:key:pos\<close> for each position from head to tail. The
  retry loops are \<open>partial_function (option)\<close>: the result \<open>None\<close> is a call that never
  returns.
\<close>

section \<open>Names and metadata\<close>

definition INITIAL_POSITION :: i64 where
  "INITIAL_POSITION = 1000000000"

definition MAX_RETRIES :: nat where
  "MAX_RETRIES = 10"

definition list_meta_key :: "bytes \<Rightarrow> bytes" where
  "list_meta_key key = ''L:'' @ utf8_lossy key @ '':meta''"

definition list_value_key :: "bytes \<Rightarrow> i64 \<Rightarrow> bytes" where
  "list_value_key key pos = ''L:'' @ utf8_lossy key @ '':'' @ show_i64 pos"

definition parse_metadata :: "bytes \<Rightarrow> i64 \<times> i64 \<times> u64" where
  "parse_metadata d =
     (if length d < 24 then (INITIAL_POSITION, INITIAL_POSITION, 0)
      else (from_le_bytes (take 8 d), from_le_bytes (take 8 (drop 8 d)),
            from_le_bytes (take 8 (drop 16 d))))"

definition build_metadata :: "i64 \<Rightarrow> i64 \<Rightarrow> u64 \<Rightarrow> bytes" where
  "build_metadata head tail count = to_le_bytes head @ to_le_bytes tail @ to_le_bytes count"

lemma parse_build_metadata [simp]: "parse_metadata (build_metadata h t c) = (h, t, c)"
  by (simp add: parse_metadata_def build_metadata_def)

section \<open>Pushing\<close>

text \<open>
  Reading the metadata, or creating it: \<open>None\<close> is the \<open>continue\<close> taken when the creation
  fails, which the source does not count as a retry.
\<close>

definition open_metadata :: "'s feox \<Rightarrow> bytes \<Rightarrow> 's \<Rightarrow> (bytes \<times> bool) option \<times> 's" where
  "open_metadata fx key s =
     (case fx_get_bytes fx s (list_meta_key key) of
        (Inr meta_bytes, s1) \<Rightarrow> (Some (meta_bytes, False), s1)
      | (Inl _, s1) \<Rightarrow>
          (let initial_meta = build_metadata INITIAL_POSITION INITIAL_POSITION 0 in
           case fx_insert fx s1 (list_meta_key key) initial_meta of
             (Inr _, s2) \<Rightarrow> (Some (initial_meta, True), s2)
           | (Inl _, s2) \<Rightarrow> (None, s2)))"

definition commit_metadata ::
  "'s feox \<Rightarrow> bytes \<Rightarrow> bool \<Rightarrow> bytes \<Rightarrow> bytes \<Rightarrow> 's \<Rightarrow> (feox_error + bool) \<times> 's" where
  "commit_metadata fx key is_new meta_bytes new_meta s =
     (if is_new
      then (case fx_insert fx s (list_meta_key key) new_meta of
              (Inr _, s1) \<Rightarrow> (Inr True, s1) | (Inl _, s1) \<Rightarrow> (Inr False, s1))
      else fx_compare_and_swap fx s (list_meta_key key) meta_bytes new_meta)"

definition contention :: server_error where
  "contention = System ''Operation failed due to contention''"

partial_function (option) lpush_loop ::
  "'s feox \<Rightarrow> bytes \<Rightarrow> bytes \<Rightarrow> nat \<Rightarrow> 's \<Rightarrow> ((server_error + unit) \<times> 's) option" where
  "lpush_loop fx key val retries s =
     (case open_metadata fx key s of
        (None, s1) \<Rightarrow> lpush_loop fx key val retries s1
      | (Some (meta_bytes, is_new), s1) \<Rightarrow>
          (let (head, tail, count) = parse_metadata meta_bytes;
               new_head = head - 1;
               new_tail = (if count = 0 then head else tail);
               new_meta = build_metadata new_head new_tail (count + 1)
           in case commit_metadata fx key is_new meta_bytes new_meta s1 of
                (Inl e, s2) \<Rightarrow> Some (Inl (Database e), s2)
              | (Inr cas_success, s2) \<Rightarrow>
                  if cas_success
                  then (case fx_insert fx s2 (list_value_key key new_head) val of
                          (Inl e, s3) \<Rightarrow> Some (Inl (Database e), s3)
                        | (Inr _, s3) \<Rightarrow> Some (Inr (), s3))
                  else if MAX_RETRIES \<le> retries + 1 then Some (Inl contention, s2)
                  else lpush_loop fx key val (retries + 1) s2))"

partial_function (option) rpush_loop ::
  "'s feox \<Rightarrow> bytes \<Rightarrow> bytes \<Rightarrow> nat \<Rightarrow> 's \<Rightarrow> ((server_error + unit) \<times> 's) option" where
  "rpush_loop fx key val retries s =
     (case open_metadata fx key s of
        (None, s1) \<Rightarrow> rpush_loop fx key val retries s1
      | (Some (meta_bytes, is_new), s1) \<Rightarrow>
          (let (head, tail, count) = parse_metadata meta_bytes;
               insert_pos = tail;
               new_head = (if count = 0 then tail else head);
               new_tail = tail + 1;
               new_meta = build_metadata new_head new_tail (count + 1)
           in case commit_metadata fx key is_new meta_bytes new_meta s1 of
                (Inl e, s2) \<Rightarrow> Some (Inl (Database e), s2)
              | (Inr cas_success, s2) \<Rightarrow>
                  if cas_success
                  then (case fx_insert fx s2 (list_value_key key insert_pos) val of
                          (Inl e, s3) \<Rightarrow> Some (Inl (Database e), s3)
                        | (Inr _, s3) \<Rightarrow> Some (Inr (), s3))
                  else if MAX_RETRIES \<le> retries + 1 then Some (Inl contention, s2)
                  else rpush_loop fx key val (retries + 1) s2))"

text \<open>The outer loop over the values, and the final read of the count.\<close>

fun push_values ::
  "(bytes \<Rightarrow> 's \<Rightarrow> ((server_error + unit) \<times> 's) option) \<Rightarrow> bytes list \<Rightarrow> 's \<Rightarrow> ((server_error + unit) \<times> 's) option" where
  "push_values push [] s = Some (Inr (), s)"
| "push_values push (v # vs) s = (case push v s of
     None \<Rightarrow> None
   | Some (Inl e, s1) \<Rightarrow> Some (Inl e, s1)
   | Some (Inr _, s1) \<Rightarrow> push_values push vs s1)"

definition read_count :: "'s feox \<Rightarrow> bytes \<Rightarrow> 's \<Rightarrow> (server_error + i64) \<times> 's" where
  "read_count fx key s = (case fx_get_bytes fx s (list_meta_key key) of
     (Inl e, s1) \<Rightarrow> (Inl (Database e), s1)
   | (Inr meta_bytes, s1) \<Rightarrow> (let (_, _, count) = parse_metadata meta_bytes in (Inr count, s1)))"

definition push_then_count ::
  "'s feox \<Rightarrow> bytes \<Rightarrow> (bytes \<Rightarrow> 's \<Rightarrow> ((server_error + unit) \<times> 's) option) \<Rightarrow> bytes list \<Rightarrow> 's \<Rightarrow>
     ((server_error + i64) \<times> 's) option" where
  "push_then_count fx key push values s = (case push_values push values s of
     None \<Rightarrow> None
   | Some (Inl e, s1) \<Rightarrow> Some (Inl e, s1)
   | Some (Inr _, s1) \<Rightarrow> Some (read_count fx key s1))"

definition lpush :: "'s feox \<Rightarrow> bytes \<Rightarrow> bytes list \<Rightarrow> 's \<Rightarrow> ((server_error + i64) \<times> 's) option" where
  "lpush fx key values s = push_then_count fx key (\<lambda>v. lpush_loop fx key v 0) values s"

definition rpush :: "'s feox \<Rightarrow> bytes \<Rightarrow> bytes list \<Rightarrow> 's \<Rightarrow> ((server_error + i64) \<times> 's) option" where
  "rpush fx key values s = push_then_count fx key (\<lambda>v. rpush_loop fx key v 0) values s"

section \<open>Popping\<close>

text \<open>
  One round of the \<open>for\<close> loop: \<open>Popped\<close> is its \<open>break\<close>, \<open>Finished\<close> the early return of what
  was popped so far. A gap (committed metadata without a value) repeats the inner loop
  without counting a retry.
\<close>

datatype pop_step = Popped bytes | Finished | Failed server_error

partial_function (option) lpop_loop :: "'s feox \<Rightarrow> bytes \<Rightarrow> nat \<Rightarrow> 's \<Rightarrow> (pop_step \<times> 's) option" where
  "lpop_loop fx key retries s =
     (case fx_get_bytes fx s (list_meta_key key) of
        (Inl _, s1) \<Rightarrow> Some (Finished, s1)
      | (Inr meta_bytes, s1) \<Rightarrow>
          (let (head, tail, list_count) = parse_metadata meta_bytes in
           if list_count = 0 \<or> sint tail \<le> sint head then Some (Finished, s1)
           else
             (let new_meta = build_metadata (head + 1) tail (list_count - 1) in
              case fx_compare_and_swap fx s1 (list_meta_key key) meta_bytes new_meta of
                (Inl e, s2) \<Rightarrow> Some (Failed (Database e), s2)
              | (Inr swapped, s2) \<Rightarrow>
                  if swapped then
                    (case fx_get_bytes fx s2 (list_value_key key head) of
                       (Inr val, s3) \<Rightarrow>
                         (case fx_delete fx s3 (list_value_key key head) of
                            (Inl e, s4) \<Rightarrow> Some (Failed (Database e), s4)
                          | (Inr _, s4) \<Rightarrow> Some (Popped val, s4))
                     | (Inl _, s3) \<Rightarrow> lpop_loop fx key retries s3)
                  else if MAX_RETRIES \<le> retries + 1 then Some (Finished, s2)
                  else lpop_loop fx key (retries + 1) s2)))"

partial_function (option) rpop_loop :: "'s feox \<Rightarrow> bytes \<Rightarrow> nat \<Rightarrow> 's \<Rightarrow> (pop_step \<times> 's) option" where
  "rpop_loop fx key retries s =
     (case fx_get_bytes fx s (list_meta_key key) of
        (Inl _, s1) \<Rightarrow> Some (Finished, s1)
      | (Inr meta_bytes, s1) \<Rightarrow>
          (let (head, tail, list_count) = parse_metadata meta_bytes in
           if list_count = 0 \<or> sint tail \<le> sint head then Some (Finished, s1)
           else
             (let new_tail = tail - 1; new_meta = build_metadata head new_tail (list_count - 1) in
              case fx_compare_and_swap fx s1 (list_meta_key key) meta_bytes new_meta of
                (Inl e, s2) \<Rightarrow> Some (Failed (Database e), s2)
              | (Inr swapped, s2) \<Rightarrow>
                  if swapped then
                    (case fx_get_bytes fx s2 (list_value_key key new_tail) of
                       (Inr val, s3) \<Rightarrow>
                         (case fx_delete fx s3 (list_value_key key new_tail) of
                            (Inl e, s4) \<Rightarrow> Some (Failed (Database e), s4)
                          | (Inr _, s4) \<Rightarrow> Some (Popped val, s4))
                     | (Inl _, s3) \<Rightarrow> rpop_loop fx key retries s3)
                  else if MAX_RETRIES \<le> retries + 1 then Some (Finished, s2)
                  else rpop_loop fx key (retries + 1) s2)))"

fun pop_rounds ::
  "('s \<Rightarrow> (pop_step \<times> 's) option) \<Rightarrow> nat \<Rightarrow> bytes list \<Rightarrow> 's \<Rightarrow> ((server_error + bytes list) \<times> 's) option" where
  "pop_rounds pop 0 popped s = Some (Inr popped, s)"
| "pop_rounds pop (Suc n) popped s = (case pop s of
     None \<Rightarrow> None
   | Some (Failed e, s1) \<Rightarrow> Some (Inl e, s1)
   | Some (Finished, s1) \<Rightarrow> Some (Inr popped, s1)
   | Some (Popped v, s1) \<Rightarrow> pop_rounds pop n (popped @ [v]) s1)"

definition pop_count :: "u64 option \<Rightarrow> nat" where
  "pop_count count = (case count of None \<Rightarrow> 1 | Some n \<Rightarrow> unat n)"

definition lpop :: "'s feox \<Rightarrow> bytes \<Rightarrow> u64 option \<Rightarrow> 's \<Rightarrow> ((server_error + bytes list) \<times> 's) option" where
  "lpop fx key count s = pop_rounds (lpop_loop fx key 0) (pop_count count) [] s"

definition rpop :: "'s feox \<Rightarrow> bytes \<Rightarrow> u64 option \<Rightarrow> 's \<Rightarrow> ((server_error + bytes list) \<times> 's) option" where
  "rpop fx key count s = pop_rounds (rpop_loop fx key 0) (pop_count count) [] s"

section \<open>Reading\<close>

definition llen :: "'s feox \<Rightarrow> bytes \<Rightarrow> 's \<Rightarrow> (server_error + i64) \<times> 's" where
  "llen fx key s = (case fx_get_bytes fx s (list_meta_key key) of
     (Inr meta_bytes, s1) \<Rightarrow> (let (_, _, count) = parse_metadata meta_bytes in (Inr count, s1))
   | (Inl _, s1) \<Rightarrow> (Inr 0, s1))"

text \<open>The values at a list of positions; positions without a value are skipped.\<close>

fun collect_values :: "'s feox \<Rightarrow> bytes \<Rightarrow> i64 list \<Rightarrow> 's \<Rightarrow> bytes list \<times> 's" where
  "collect_values fx key [] s = ([], s)"
| "collect_values fx key (pos # rest) s = (case fx_get_bytes fx s (list_value_key key pos) of
     (Inr v, s1) \<Rightarrow> (let (vs, s2) = collect_values fx key rest s1 in (v # vs, s2))
   | (Inl _, s1) \<Rightarrow> collect_values fx key rest s1)"

definition lrange :: "'s feox \<Rightarrow> bytes \<Rightarrow> i64 \<Rightarrow> i64 \<Rightarrow> 's \<Rightarrow> (server_error + bytes list) \<times> 's" where
  "lrange fx key start stop s = (case fx_get_bytes fx s (list_meta_key key) of
     (Inl _, s1) \<Rightarrow> (Inr [], s1)
   | (Inr meta_bytes, s1) \<Rightarrow>
       (let (head, tail, count) = parse_metadata meta_bytes in
        if count = 0 then (Inr [], s1)
        else
          (let len = tail - head;
               start1 = (if sint start < 0 then max 0 (sint (len + start)) else sint start);
               stop1 = (if sint stop < 0 then sint (len + stop) else sint stop)
           in if sint len \<le> start1 \<or> stop1 < 0 then (Inr [], s1)
              else (let start2 = min (max start1 0) (sint len - 1);
                        stop2 = min (max stop1 0) (sint len - 1)
                    in if stop2 < start2 then (Inr [], s1)
                       else (let (vs, s2) = collect_values fx key
                                    (map (\<lambda>i. head + word_of_int i) [start2..stop2]) s1
                             in (Inr vs, s2))))))"

definition lindex :: "'s feox \<Rightarrow> bytes \<Rightarrow> i64 \<Rightarrow> 's \<Rightarrow> (server_error + bytes option) \<times> 's" where
  "lindex fx key index s = (case fx_get_bytes fx s (list_meta_key key) of
     (Inl _, s1) \<Rightarrow> (Inr None, s1)
   | (Inr meta_bytes, s1) \<Rightarrow>
       (let (head, tail, count) = parse_metadata meta_bytes in
        if count = 0 then (Inr None, s1)
        else
          (let len = tail - head;
               positive_index = (if sint index < 0 then len + index else index)
           in if (sint index < 0 \<and> sint positive_index < 0) \<or> (0 \<le> sint index \<and> sint len \<le> sint index)
              then (Inr None, s1)
              else (case fx_get_bytes fx s1 (list_value_key key (head + positive_index)) of
                      (Inr v, s2) \<Rightarrow> (Inr (Some v), s2)
                    | (Inl _, s2) \<Rightarrow> (Inr None, s2)))))"

end
