(* ===== verification/Hash_Ops.thy ===== *)
theory Hash_Ops
  imports Server_Error Rust_Strings
begin

text \<open>
  \<open>src/src/protocol/command/hash.rs\<close>: the hash commands. A field of the hash \<open>key\<close> is the
  entry \<open>H:key:f:field\<close>; the number of fields is kept under \<open>H:key:meta\<close>, behind by the
  updates that the process-wide \<open>MetadataTracker\<close> has collected and not yet flushed.
  \<open>now\<close> is the clock (\<open>Instant::now()\<close>, in nanoseconds) during the command. A Rust
  \<open>HashMap\<close> is iterated in an unspecified order; the pending updates are an association
  list in insertion order, and the effect of a flush does not depend on it.
\<close>

section \<open>The metadata tracker\<close>

record tracker =
  pending_updates :: "(bytes \<times> i64) list"
  last_flush :: nat
  flush_interval :: nat
  max_batch_size :: nat

definition new_tracker :: "nat \<Rightarrow> tracker" where
  "new_tracker now = \<lparr>pending_updates = [], last_flush = now,
     flush_interval = 100 * 1000 * 1000, max_batch_size = 1000\<rparr>"

fun add_entry :: "bytes \<Rightarrow> i64 \<Rightarrow> (bytes \<times> i64) list \<Rightarrow> (bytes \<times> i64) list" where
  "add_entry k d [] = [(k, 0 + d)]"
| "add_entry k d ((k', e) # es) = (if k' = k then (k', e + d) # es else (k', e) # add_entry k d es)"

definition add_update :: "bytes \<Rightarrow> i64 \<Rightarrow> tracker \<Rightarrow> tracker" where
  "add_update key delta tr = tr\<lparr>pending_updates := add_entry key delta (pending_updates tr)\<rparr>"

definition should_flush :: "nat \<Rightarrow> tracker \<Rightarrow> bool" where
  "should_flush now tr \<longleftrightarrow>
     max_batch_size tr \<le> length (pending_updates tr) \<or> flush_interval tr \<le> now - last_flush tr"

definition take_updates :: "nat \<Rightarrow> tracker \<Rightarrow> (bytes \<times> i64) list \<times> tracker" where
  "take_updates now tr = (pending_updates tr, tr\<lparr>last_flush := now, pending_updates := []\<rparr>)"

fun flush_updates :: "'s feox \<Rightarrow> (bytes \<times> i64) list \<Rightarrow> 's \<Rightarrow> 's" where
  "flush_updates fx [] s = s"
| "flush_updates fx ((meta_key, delta) # us) s =
     flush_updates fx us (if delta \<noteq> 0 then snd (fx_atomic_increment fx s meta_key delta) else s)"

definition flush_metadata :: "'s feox \<Rightarrow> nat \<Rightarrow> tracker \<Rightarrow> 's \<Rightarrow> tracker \<times> 's" where
  "flush_metadata fx now tr s =
     (let (updates, tr1) = take_updates now tr in (tr1, flush_updates fx updates s))"

definition maybe_flush_metadata :: "'s feox \<Rightarrow> nat \<Rightarrow> tracker \<Rightarrow> 's \<Rightarrow> tracker \<times> 's" where
  "maybe_flush_metadata fx now tr s =
     (if should_flush now tr then flush_metadata fx now tr s else (tr, s))"

definition hash_parse_metadata :: "bytes \<Rightarrow> i64" where
  "hash_parse_metadata d = (if length d < 8 then 0 else from_le_bytes (take 8 d))"

section \<open>Names\<close>

definition hash_prefix :: "bytes \<Rightarrow> bytes" where
  "hash_prefix key = ''H:'' @ key @ '':f:''"

definition hash_field_key :: "bytes \<Rightarrow> bytes \<Rightarrow> bytes" where
  "hash_field_key key field = hash_prefix key @ field"

definition hash_meta_key :: "bytes \<Rightarrow> bytes" where
  "hash_meta_key key = ''H:'' @ key @ '':meta''"

section \<open>The operations\<close>

fun hset_fields :: "'s feox \<Rightarrow> bytes \<Rightarrow> (bytes \<times> bytes) list \<Rightarrow> i64 \<Rightarrow> 's \<Rightarrow> (server_error + i64) \<times> 's" where
  "hset_fields fx key [] n s = (Inr n, s)"
| "hset_fields fx key ((field, value) # rest) n s =
     (case fx_insert_bytes fx s (hash_field_key key field) value of
        (Inl e, s1) \<Rightarrow> (Inl (Database e), s1)
      | (Inr is_new, s1) \<Rightarrow> hset_fields fx key rest (if is_new then n + 1 else n) s1)"

definition hset :: "'s feox \<Rightarrow> nat \<Rightarrow> bytes \<Rightarrow> (bytes \<times> bytes) list \<Rightarrow> tracker \<Rightarrow> 's \<Rightarrow>
    (server_error + i64) \<times> tracker \<times> 's" where
  "hset fx now key flds tr s = (case hset_fields fx key flds 0 s of
     (Inl e, s1) \<Rightarrow> (Inl e, tr, s1)
   | (Inr new_fields_count, s1) \<Rightarrow>
       if 0 < sint new_fields_count
       then (Inr new_fields_count,
             maybe_flush_metadata fx now (add_update (hash_meta_key key) new_fields_count tr) s1)
       else (Inr new_fields_count, tr, s1))"

definition hget :: "'s feox \<Rightarrow> bytes \<Rightarrow> bytes \<Rightarrow> 's \<Rightarrow> (server_error + bytes option) \<times> 's" where
  "hget fx key field s = (case fx_get_bytes fx s (hash_field_key key field) of
     (Inr value, s1) \<Rightarrow> (Inr (Some value), s1) | (Inl _, s1) \<Rightarrow> (Inr None, s1))"

fun hmget :: "'s feox \<Rightarrow> bytes \<Rightarrow> bytes list \<Rightarrow> 's \<Rightarrow> (server_error + bytes option list) \<times> 's" where
  "hmget fx key [] s = (Inr [], s)"
| "hmget fx key (field # rest) s = (case hget fx key field s of
     (Inl e, s1) \<Rightarrow> (Inl e, s1)
   | (Inr v, s1) \<Rightarrow> (case hmget fx key rest s1 of
       (Inl e, s2) \<Rightarrow> (Inl e, s2) | (Inr vs, s2) \<Rightarrow> (Inr (v # vs), s2)))"

fun hdel_fields :: "'s feox \<Rightarrow> bytes \<Rightarrow> bytes list \<Rightarrow> i64 \<Rightarrow> 's \<Rightarrow> i64 \<times> 's" where
  "hdel_fields fx key [] n s = (n, s)"
| "hdel_fields fx key (field # rest) n s = (case fx_delete fx s (hash_field_key key field) of
     (Inr _, s1) \<Rightarrow> hdel_fields fx key rest (n + 1) s1
   | (Inl _, s1) \<Rightarrow> hdel_fields fx key rest n s1)"

definition hdel :: "'s feox \<Rightarrow> nat \<Rightarrow> bytes \<Rightarrow> bytes list \<Rightarrow> tracker \<Rightarrow> 's \<Rightarrow>
    (server_error + i64) \<times> tracker \<times> 's" where
  "hdel fx now key flds tr s =
     (if flds = [] then (Inr 0, tr, s)
      else (case hdel_fields fx key flds 0 s of (deleted_count, s1) \<Rightarrow>
        if 0 < sint deleted_count
        then (Inr deleted_count,
              maybe_flush_metadata fx now (add_update (hash_meta_key key) (- deleted_count) tr) s1)
        else (Inr deleted_count, tr, s1)))"

definition hexists :: "'s feox \<Rightarrow> bytes \<Rightarrow> bytes \<Rightarrow> 's \<Rightarrow> (server_error + bool) \<times> 's" where
  "hexists fx key field s =
     (case fx_contains_key fx s (hash_field_key key field) of (b, s1) \<Rightarrow> (Inr b, s1))"

definition strip_prefix :: "bytes \<Rightarrow> (bytes \<times> bytes) list \<Rightarrow> (bytes \<times> bytes) list" where
  "strip_prefix prefix pairs =
     map (\<lambda>(field_key, value). (drop (length prefix) field_key, value))
       (filter (\<lambda>(field_key, value). starts_with field_key prefix) pairs)"

definition hgetall :: "'s feox \<Rightarrow> bytes \<Rightarrow> 's \<Rightarrow> (server_error + (bytes \<times> bytes) list) \<times> 's" where
  "hgetall fx key s =
     (case fx_range_query fx s (hash_prefix key) (hash_prefix key @ [CHR 0xFF]) 10000 of
        (Inr pairs, s1) \<Rightarrow> (Inr (strip_prefix (hash_prefix key) pairs), s1)
      | (Inl e, s1) \<Rightarrow> (Inl (Database e), s1))"

definition hkeys :: "'s feox \<Rightarrow> bytes \<Rightarrow> 's \<Rightarrow> (server_error + bytes list) \<times> 's" where
  "hkeys fx key s =
     (case fx_range_query fx s (hash_prefix key) (hash_prefix key @ [CHR 0xFF]) 10000 of
        (Inr pairs, s1) \<Rightarrow> (Inr (map (\<lambda>(field_key, _). drop (length (hash_prefix key)) field_key)
            (filter (\<lambda>(field_key, _). starts_with field_key (hash_prefix key)) pairs)), s1)
      | (Inl e, s1) \<Rightarrow> (Inl (Database e), s1))"

definition hvals :: "'s feox \<Rightarrow> bytes \<Rightarrow> 's \<Rightarrow> (server_error + bytes list) \<times> 's" where
  "hvals fx key s =
     (case fx_range_query fx s (hash_prefix key) (hash_prefix key @ [CHR 0xFF]) 10000 of
        (Inr pairs, s1) \<Rightarrow> (Inr (map (\<lambda>(_, value). value)
            (filter (\<lambda>(field_key, _). starts_with field_key (hash_prefix key)) pairs)), s1)
      | (Inl e, s1) \<Rightarrow> (Inl (Database e), s1))"

definition hlen :: "'s feox \<Rightarrow> nat \<Rightarrow> bytes \<Rightarrow> tracker \<Rightarrow> 's \<Rightarrow> (server_error + i64) \<times> tracker \<times> 's" where
  "hlen fx now key tr s = (case flush_metadata fx now tr s of (tr1, s1) \<Rightarrow>
     (case fx_get_bytes fx s1 (hash_meta_key key) of
        (Inr meta_bytes, s2) \<Rightarrow> (Inr (hash_parse_metadata meta_bytes), tr1, s2)
      | (Inl _, s2) \<Rightarrow> (Inr 0, tr1, s2)))"

text \<open>The number a stored value stands for: decimal text if it is UTF-8, else eight bytes.\<close>

definition hash_value_add :: "bytes \<Rightarrow> i64 \<Rightarrow> server_error + i64" where
  "hash_value_add b delta =
     (if utf8_valid b
      then (case parse_i64 b of
              Some current \<Rightarrow> Inr (i64_saturating_add current delta)
            | None \<Rightarrow> Inl (Protocol ''hash value is not an integer''))
      else if length b = 8 then Inr (i64_saturating_add (from_le_bytes (take 8 b)) delta)
      else Inl (Protocol ''hash value is not an integer''))"

definition hincrby :: "'s feox \<Rightarrow> nat \<Rightarrow> bytes \<Rightarrow> bytes \<Rightarrow> i64 \<Rightarrow> tracker \<Rightarrow> 's \<Rightarrow>
    (server_error + i64) \<times> tracker \<times> 's" where
  "hincrby fx now key field delta tr s =
     (let field_key = hash_field_key key field in
      case fx_contains_key fx s field_key of (field_exists, s1) \<Rightarrow>
      (case (if field_exists
             then (case fx_get_bytes fx s1 field_key of
                     (Inr b, s2) \<Rightarrow> (hash_value_add b delta, tr, s2)
                   | (Inl _, s2) \<Rightarrow> (Inr delta, tr, s2))
             else (Inr delta, maybe_flush_metadata fx now (add_update (hash_meta_key key) 1 tr) s1)) of
         (Inl e, tr1, s2) \<Rightarrow> (Inl e, tr1, s2)
       | (Inr new_value, tr1, s2) \<Rightarrow>
           (case fx_insert fx s2 field_key (show_i64 new_value) of
              (Inl e, s3) \<Rightarrow> (Inl (Database e), tr1, s3)
            | (Inr _, s3) \<Rightarrow> (Inr new_value, tr1, s3))))"

end
