(* ===== verification/Watch_Registry.thy ===== *)
theory Watch_Registry
  imports Prelude
begin

text \<open>
  \<open>src/src/watch_registry.rs\<close>: the global version counter and the version of each key, which
  WATCH reads and EXEC compares. The interface that the transactions rely on is the
  locale \<open>version_registry\<close>: as long as the counter does not wrap, a key has kept its
  version exactly if it has not been notified.
\<close>

record watch =
  w_global :: u64
  w_versions :: "bytes \<Rightarrow> u64 option"

definition new_watch :: watch where
  "new_watch = \<lparr>w_global = 1, w_versions = Map.empty\<rparr>"

definition notify_key_modified :: "bytes \<Rightarrow> watch \<Rightarrow> watch" where
  "notify_key_modified key w =
     w\<lparr>w_global := w_global w + 1, w_versions := (w_versions w)(key \<mapsto> w_global w)\<rparr>"

definition get_key_version :: "watch \<Rightarrow> bytes \<Rightarrow> u64" where
  "get_key_version w key = (case w_versions w key of Some v \<Rightarrow> v | None \<Rightarrow> 0)"

fun check_keys_unchanged :: "watch \<Rightarrow> (bytes \<times> u64) list \<Rightarrow> bool" where
  "check_keys_unchanged w [] = True"
| "check_keys_unchanged w ((key, watched_version) # rest) =
     (if get_key_version w key \<noteq> watched_version then False else check_keys_unchanged w rest)"

lemma check_keys_unchanged_all:
  "check_keys_unchanged w kvs \<longleftrightarrow> (\<forall>(k, v) \<in> set kvs. get_key_version w k = v)"
  by (induction kvs) (auto split: if_splits)

section \<open>The interface of a version registry\<close>

locale version_registry =
  fixes notify :: "bytes \<Rightarrow> 'w \<Rightarrow> 'w"
    and version :: "'w \<Rightarrow> bytes \<Rightarrow> u64"
    and room :: "'w \<Rightarrow> nat \<Rightarrow> bool"
  assumes notify_same: "room w (Suc n) \<Longrightarrow> unat (version w k) < unat (version (notify k w) k)"
    and notify_other: "j \<noteq> k \<Longrightarrow> version (notify k w) j = version w j"
    and notify_room: "room w (Suc n) \<Longrightarrow> room (notify k w) n"
begin

lemma version_mono: "room w (length ks) \<Longrightarrow> unat (version w k) \<le> unat (version (fold notify ks w) k)"
proof (induction ks arbitrary: w)
  case (Cons j ks)
  have "unat (version w k) \<le> unat (version (notify j w) k)"
    using Cons.prems notify_same [of w "length ks" k] notify_other [of k j w] by (cases "k = j") auto
  also have "\<dots> \<le> unat (version (fold notify ks (notify j w)) k)"
    using Cons.prems notify_room by (intro Cons.IH) simp
  finally show ?case by simp
qed simp

lemma version_fold_other: "k \<notin> set ks \<Longrightarrow> version (fold notify ks w) k = version w k"
  by (induction ks arbitrary: w) (auto simp: notify_other)

lemma version_fold_notified:
  "room w (length ks) \<Longrightarrow> k \<in> set ks \<Longrightarrow> unat (version w k) < unat (version (fold notify ks w) k)"
proof (induction ks arbitrary: w)
  case (Cons j ks)
  have room: "room (notify j w) (length ks)" using Cons.prems notify_room by simp
  show ?case
  proof (cases "j = k")
    case True
    have "unat (version w k) < unat (version (notify k w) k)"
      using Cons.prems notify_same by simp
    also have "\<dots> \<le> unat (version (fold notify ks (notify k w)) k)"
      using version_mono room True by simp
    finally show ?thesis using True by simp
  next
    case False
    then show ?thesis using Cons.prems Cons.IH [OF room] notify_other [of k j w] by simp
  qed
qed simp

lemma version_unchanged_iff:
  "room w (length ks) \<Longrightarrow> version (fold notify ks w) k = version w k \<longleftrightarrow> k \<notin> set ks"
  using version_fold_notified [of w ks k] version_fold_other [of k ks w] by auto

end

text \<open>There is room for \<open>n\<close> notifications when the counter is above every version and far from its end.\<close>

definition watch_room :: "watch \<Rightarrow> nat \<Rightarrow> bool" where
  "watch_room w n \<longleftrightarrow> unat (w_global w) + n < 2 ^ 64 \<and> 0 < unat (w_global w) \<and>
     (\<forall>k v. w_versions w k = Some v \<longrightarrow> unat v < unat (w_global w))"

lemma watch_room_new: "n < 2 ^ 64 - 1 \<Longrightarrow> watch_room new_watch n"
  by (simp add: watch_room_def new_watch_def)

lemma watch_room_notify: "watch_room w (Suc n) \<Longrightarrow> watch_room (notify_key_modified k w) n"
proof -
  assume room: "watch_room w (Suc n)"
  then have "unat (w_global w + 1) = Suc (unat (w_global w))"
    by (intro unat_add_lem [THEN iffD1, THEN trans]) (simp_all add: watch_room_def)
  with room show ?thesis
    by (auto simp: watch_room_def notify_key_modified_def less_Suc_eq)
qed

interpretation wr: version_registry notify_key_modified get_key_version watch_room
proof
  fix w n k
  show "watch_room w (Suc n) \<Longrightarrow>
      unat (get_key_version w k) < unat (get_key_version (notify_key_modified k w) k)"
    by (auto simp: watch_room_def get_key_version_def notify_key_modified_def split: option.splits)
  show "watch_room w (Suc n) \<Longrightarrow> watch_room (notify_key_modified k w) n"
    by (rule watch_room_notify)
qed (simp add: get_key_version_def notify_key_modified_def)

lemma check_after_notifications:
  assumes "watch_room w (length ks)"
  shows "check_keys_unchanged (fold notify_key_modified ks w) (map (\<lambda>k. (k, get_key_version w k)) keys)
     \<longleftrightarrow> set ks \<inter> set keys = {}"
  using wr.version_unchanged_iff [OF assms] by (auto simp: check_keys_unchanged_all)

end
