(* ===== verification/Executor.thy ===== *)
theory Executor
  imports List_Ops Hash_Ops Glob Config Command_Table Watch_Registry Client_Ops
begin

text \<open>
  \<open>src/src/protocol/command/executor.rs\<close>: one definition per command, from the shared state
  to the reply and the new shared state, and \<open>execute\<close>, the match over all commands. The
  shared state \<open>world\<close> is the store, the watch registry, the hash metadata tracker and the
  client registry; \<open>executor\<close> is what each connection has of its own. \<open>execute\<close> is \<open>None\<close>
  when a list command does not return.
\<close>

section \<open>State\<close>

record 's world =
  wd_store :: 's
  wd_watch :: watch
  wd_tracker :: tracker
  wd_clients :: client_registry

text \<open>The clocks and the constants of the process.\<close>

record env =
  env_now :: nat \<comment> \<open>\<open>Instant::now()\<close>, in nanoseconds\<close>
  env_unix :: nat \<comment> \<open>\<open>SystemTime::now()\<close>, in seconds since the epoch\<close>
  env_version :: bytes \<comment> \<open>\<open>CARGO_PKG_VERSION\<close>\<close>
  env_pid :: nat

record executor =
  ex_config :: config
  ex_start_time :: nat
  ex_commands_processed :: u64
  ex_connection_id :: "nat option"
  ex_has_registry :: bool

definition new_executor :: "env \<Rightarrow> config \<Rightarrow> executor" where
  "new_executor env config = \<lparr>ex_config = config, ex_start_time = env_now env, ex_commands_processed = 0,
     ex_connection_id = None, ex_has_registry = False\<rparr>"

definition with_client_info :: "nat \<Rightarrow> executor \<Rightarrow> executor" where
  "with_client_info connection_id ex = ex\<lparr>ex_connection_id := Some connection_id, ex_has_registry := True\<rparr>"

definition check_auth :: "executor \<Rightarrow> bytes \<Rightarrow> bool" where
  "check_auth ex password = check_password (ex_config ex) password"

definition notify :: "bytes \<Rightarrow> 's world \<Rightarrow> 's world" where
  "notify key w = w\<lparr>wd_watch := notify_key_modified key (wd_watch w)\<rparr>"

definition set_store :: "'s \<Rightarrow> 's world \<Rightarrow> 's world" where
  "set_store s w = w\<lparr>wd_store := s\<rparr>"

definition db_error :: "'s feox \<Rightarrow> feox_error \<Rightarrow> resp_value" where
  "db_error fx e = Error (''ERR '' @ fx_show_error fx e)"

definition op_error :: "'s feox \<Rightarrow> server_error \<Rightarrow> resp_value" where
  "op_error fx e = Error (''ERR '' @ show_server_error (fx_show_error fx) e)"

abbreviation bulk :: "bytes \<Rightarrow> resp_value" where
  "bulk b \<equiv> BulkString (Some b)"

section \<open>Strings and keys\<close>

definition fast_set :: "'s feox \<Rightarrow> bytes \<Rightarrow> bytes \<Rightarrow> 's world \<Rightarrow> (feox_error + unit) \<times> 's world" where
  "fast_set fx key value w =
     (case fx_insert_with_timestamp fx (wd_store w) key value None of
        (Inl e, s) \<Rightarrow> (Inl e, set_store s w)
      | (Inr _, s) \<Rightarrow> (Inr (), notify key (set_store s w)))"

definition fast_set_bytes :: "'s feox \<Rightarrow> bytes \<Rightarrow> bytes \<Rightarrow> 's world \<Rightarrow> (feox_error + unit) \<times> 's world" where
  "fast_set_bytes fx key value w =
     (case fx_insert_bytes_with_timestamp fx (wd_store w) key value None of
        (Inl e, s) \<Rightarrow> (Inl e, set_store s w)
      | (Inr _, s) \<Rightarrow> (Inr (), notify key (set_store s w)))"

definition fast_get :: "'s feox \<Rightarrow> bytes \<Rightarrow> 's world \<Rightarrow> (feox_error + bytes) \<times> 's world" where
  "fast_get fx key w = (case fx_get_bytes fx (wd_store w) key of (r, s) \<Rightarrow> (r, set_store s w))"

definition exec_get :: "'s feox \<Rightarrow> bytes \<Rightarrow> 's world \<Rightarrow> resp_value \<times> 's world" where
  "exec_get fx key w = (case fx_get_bytes fx (wd_store w) key of
     (Inr value, s) \<Rightarrow> (bulk value, set_store s w)
   | (Inl KeyNotFound, s) \<Rightarrow> (BulkString None, set_store s w)
   | (Inl e, s) \<Rightarrow> (db_error fx e, set_store s w))"

definition exec_set :: "'s feox \<Rightarrow> bytes \<Rightarrow> bytes \<Rightarrow> u64 option \<Rightarrow> u64 option \<Rightarrow> 's world \<Rightarrow> resp_value \<times> 's world" where
  "exec_set fx key value ex px w =
     (case (case ex of
              Some seconds \<Rightarrow> fx_insert_bytes_with_ttl_and_timestamp fx (wd_store w) key value seconds None
            | None \<Rightarrow> (case px of
                Some millis \<Rightarrow>
                  fx_insert_bytes_with_ttl_and_timestamp fx (wd_store w) key value (millis div 1000) None
              | None \<Rightarrow> fx_insert_bytes_with_timestamp fx (wd_store w) key value None)) of
        (Inr _, s) \<Rightarrow> (SimpleString ''OK'', notify key (set_store s w))
      | (Inl e, s) \<Rightarrow> (db_error fx e, set_store s w))"

fun del_keys :: "'s feox \<Rightarrow> bytes list \<Rightarrow> i64 \<Rightarrow> 's world \<Rightarrow> i64 \<times> 's world" where
  "del_keys fx [] count w = (count, w)"
| "del_keys fx (key # keys) count w = (case fx_delete fx (wd_store w) key of
     (Inr _, s) \<Rightarrow> del_keys fx keys (count + 1) (notify key (set_store s w))
   | (Inl _, s) \<Rightarrow> del_keys fx keys count (set_store s w))"

definition exec_del :: "'s feox \<Rightarrow> bytes list \<Rightarrow> 's world \<Rightarrow> resp_value \<times> 's world" where
  "exec_del fx keys w = (case del_keys fx keys 0 w of (count, w1) \<Rightarrow> (Integer count, w1))"

fun count_existing :: "'s feox \<Rightarrow> bytes list \<Rightarrow> 's \<Rightarrow> nat \<times> 's" where
  "count_existing fx [] s = (0, s)"
| "count_existing fx (key # keys) s = (case fx_contains_key fx s key of (b, s1) \<Rightarrow>
     (case count_existing fx keys s1 of (n, s2) \<Rightarrow> (if b then Suc n else n, s2)))"

definition exec_exists :: "'s feox \<Rightarrow> bytes list \<Rightarrow> 's world \<Rightarrow> resp_value \<times> 's world" where
  "exec_exists fx keys w = (case count_existing fx keys (wd_store w) of
     (n, s) \<Rightarrow> (Integer (word_of_nat n), set_store s w))"

definition incr_write :: "'s feox \<Rightarrow> bytes \<Rightarrow> i64 \<Rightarrow> 's world \<Rightarrow> resp_value \<times> 's world" where
  "incr_write fx key new_val w =
     (case fx_insert_bytes_with_timestamp fx (wd_store w) key (show_i64 new_val) None of
        (Inr _, s) \<Rightarrow> (Integer new_val, notify key (set_store s w))
      | (Inl e, s) \<Rightarrow> (db_error fx e, set_store s w))"

definition string_incr :: "'s feox \<Rightarrow> bytes \<Rightarrow> i64 \<Rightarrow> 's world \<Rightarrow> resp_value \<times> 's world" where
  "string_incr fx key delta w =
     (case fx_atomic_increment fx (wd_store w) key delta of
        (Inr val, s) \<Rightarrow> (Integer val, notify key (set_store s w))
      | (Inl _, s) \<Rightarrow>
          (case fx_get_bytes fx s key of
             (Inr b, s1) \<Rightarrow>
               (case parse_i64 (str_trim (utf8_lossy b)) of
                  Some current \<Rightarrow> incr_write fx key (current + delta) (set_store s1 w)
                | None \<Rightarrow> (Error ''ERR value is not an integer or out of range'', set_store s1 w))
           | (Inl KeyNotFound, s1) \<Rightarrow> incr_write fx key (0 + delta) (set_store s1 w)
           | (Inl e, s1) \<Rightarrow> (db_error fx e, set_store s1 w)))"

text \<open>The replies of EXPIRE, PEXPIRE and PERSIST.\<close>

definition done_reply :: "'s feox \<Rightarrow> (feox_error + unit) \<Rightarrow> resp_value" where
  "done_reply fx r = (case r of
     Inr _ \<Rightarrow> Integer 1 | Inl KeyNotFound \<Rightarrow> Integer 0 | Inl e \<Rightarrow> db_error fx e)"

definition exec_expire :: "'s feox \<Rightarrow> bytes \<Rightarrow> u64 \<Rightarrow> 's world \<Rightarrow> resp_value \<times> 's world" where
  "exec_expire fx key seconds w =
     (case fx_update_ttl fx (wd_store w) key seconds of (r, s) \<Rightarrow> (done_reply fx r, set_store s w))"

definition exec_pexpire :: "'s feox \<Rightarrow> bytes \<Rightarrow> u64 \<Rightarrow> 's world \<Rightarrow> resp_value \<times> 's world" where
  "exec_pexpire fx key milliseconds w =
     (case fx_update_ttl fx (wd_store w) key (milliseconds div 1000) of
        (r, s) \<Rightarrow> (done_reply fx r, set_store s w))"

definition exec_persist :: "'s feox \<Rightarrow> bytes \<Rightarrow> 's world \<Rightarrow> resp_value \<times> 's world" where
  "exec_persist fx key w =
     (case fx_persist fx (wd_store w) key of (r, s) \<Rightarrow> (done_reply fx r, set_store s w))"

definition exec_ttl :: "'s feox \<Rightarrow> bytes \<Rightarrow> 's world \<Rightarrow> resp_value \<times> 's world" where
  "exec_ttl fx key w = (case fx_get_ttl fx (wd_store w) key of
     (Inr (Some ttl), s) \<Rightarrow> (Integer ttl, set_store s w)
   | (Inr None, s) \<Rightarrow> (Integer (- 1), set_store s w)
   | (Inl KeyNotFound, s) \<Rightarrow> (Integer (- 2), set_store s w)
   | (Inl e, s) \<Rightarrow> (db_error fx e, set_store s w))"

definition exec_pttl :: "'s feox \<Rightarrow> bytes \<Rightarrow> 's world \<Rightarrow> resp_value \<times> 's world" where
  "exec_pttl fx key w = (case fx_get_ttl fx (wd_store w) key of
     (Inr (Some ttl), s) \<Rightarrow> (Integer (ttl * 1000), set_store s w)
   | (Inr None, s) \<Rightarrow> (Integer (- 1), set_store s w)
   | (Inl KeyNotFound, s) \<Rightarrow> (Integer (- 2), set_store s w)
   | (Inl e, s) \<Rightarrow> (db_error fx e, set_store s w))"

fun get_values :: "'s feox \<Rightarrow> bytes list \<Rightarrow> 's \<Rightarrow> resp_value list \<times> 's" where
  "get_values fx [] s = ([], s)"
| "get_values fx (key # keys) s = (case fx_get_bytes fx s key of (r, s1) \<Rightarrow>
     (case get_values fx keys s1 of (vs, s2) \<Rightarrow>
        ((case r of Inr value \<Rightarrow> bulk value | Inl _ \<Rightarrow> BulkString None) # vs, s2)))"

definition exec_mget :: "'s feox \<Rightarrow> bytes list \<Rightarrow> 's world \<Rightarrow> resp_value \<times> 's world" where
  "exec_mget fx keys w = (case get_values fx keys (wd_store w) of
     (vs, s) \<Rightarrow> (Array (Some vs), set_store s w))"

fun exec_mset :: "'s feox \<Rightarrow> (bytes \<times> bytes) list \<Rightarrow> 's world \<Rightarrow> resp_value \<times> 's world" where
  "exec_mset fx [] w = (SimpleString ''OK'', w)"
| "exec_mset fx ((key, value) # pairs) w =
     (case fx_insert_with_timestamp fx (wd_store w) key value None of
        (Inl e, s) \<Rightarrow> (db_error fx e, set_store s w)
      | (Inr _, s) \<Rightarrow> exec_mset fx pairs (notify key (set_store s w)))"

definition exec_json_patch :: "'s feox \<Rightarrow> bytes \<Rightarrow> bytes \<Rightarrow> 's world \<Rightarrow> resp_value \<times> 's world" where
  "exec_json_patch fx key patch w = (case fx_json_patch fx (wd_store w) key patch of
     (Inr _, s) \<Rightarrow> (SimpleString ''OK'', set_store s w)
   | (Inl e, s) \<Rightarrow> (db_error fx e, set_store s w))"

definition exec_cas :: "'s feox \<Rightarrow> bytes \<Rightarrow> bytes \<Rightarrow> bytes \<Rightarrow> 's world \<Rightarrow> resp_value \<times> 's world" where
  "exec_cas fx key expected new_value w =
     (case fx_compare_and_swap fx (wd_store w) key expected new_value of
        (Inr swapped, s) \<Rightarrow> (Integer (if swapped then 1 else 0), set_store s w)
      | (Inl e, s) \<Rightarrow> (db_error fx e, set_store s w))"

section \<open>Connection and server commands\<close>

definition exec_ping :: "bytes option \<Rightarrow> resp_value" where
  "exec_ping msg = (case msg of Some m \<Rightarrow> bulk m | None \<Rightarrow> SimpleString ''PONG'')"

definition config_value :: "bytes \<Rightarrow> bytes" where
  "config_value key =
     (if key = ''maxmemory'' then ''0''
      else if key = ''maxclients'' then ''10000''
      else if key = ''timeout'' then ''0''
      else if key = ''tcp-keepalive'' then ''300''
      else if key = ''databases'' then ''16''
      else ''0'')"

definition exec_config :: "bytes \<Rightarrow> bytes list \<Rightarrow> resp_value" where
  "exec_config action args =
     (let act = str_to_uppercase action in
      if act = ''GET''
      then Array (Some (concat (map (\<lambda>arg.
             [bulk arg, bulk (config_value (str_to_lowercase (utf8_lossy arg)))]) args)))
      else if act = ''SET'' then SimpleString ''OK''
      else Error (''ERR Unknown CONFIG subcommand '' @ quoted action))"

definition all_commands :: resp_value where
  "all_commands = Array (Some (map (\<lambda>d. Array (Some (to_resp_array d))) COMMAND_TABLE))"

definition handle_command_subcommand :: "bytes option \<Rightarrow> bytes list \<Rightarrow> resp_value" where
  "handle_command_subcommand subcommand args = (case subcommand of
     None \<Rightarrow> all_commands
   | Some subcmd \<Rightarrow>
       (let u = str_to_uppercase subcmd in
        if u = ''COUNT'' then Integer (word_of_nat (length COMMAND_TABLE))
        else if u = ''INFO'' then
          (if args = [] then all_commands
           else Array (Some (map (\<lambda>arg. case find_command (utf8_lossy arg) of
                  Some d \<Rightarrow> Array (Some (to_resp_array d)) | None \<Rightarrow> BulkString None) args)))
        else if u = ''DOCS'' then Array (Some [])
        else if u = ''LIST'' then Array (Some (map (\<lambda>d. bulk (cd_name d)) COMMAND_TABLE))
        else if u = ''HELP'' then Array (Some (map bulk
          [''COMMAND'', ''COMMAND COUNT'', ''COMMAND INFO <command-name> [<command-name> ...]'',
           ''COMMAND LIST'', ''COMMAND DOCS [<command-name> ...]'']))
        else Error (''ERR Unknown subcommand '' @ quoted subcmd @ ''. Try COMMAND HELP.'')))"

section \<open>KEYS and SCAN\<close>

definition exec_keys :: "'s feox \<Rightarrow> bytes \<Rightarrow> 's world \<Rightarrow> resp_value \<times> 's world" where
  "exec_keys fx pattern w =
     (let prefix = extract_prefix pattern in
      if prefix \<noteq> [] \<and> pattern = prefix
      then (case fx_get_bytes fx (wd_store w) prefix of
              (Inr _, s) \<Rightarrow> (Array (Some [bulk prefix]), set_store s w)
            | (Inl _, s) \<Rightarrow> (Array (Some []), set_store s w))
      else
        (let (start_key, end_key) =
           (if prefix = [] then ([], replicate 255 (CHR 0xFF)) else (prefix, prefix @ ''~''))
         in case fx_range_query fx (wd_store w) start_key end_key 100000 of
              (Inr pairs, s) \<Rightarrow>
                (Array (Some (map (\<lambda>(key, _). bulk key) (filter (\<lambda>(key, _). match_pattern key pattern) pairs))),
                 set_store s w)
            | (Inl e, s) \<Rightarrow> (db_error fx e, set_store s w)))"

definition scan_range :: "bytes \<Rightarrow> bytes option \<Rightarrow> bytes \<times> bytes" where
  "scan_range start_key pattern = (case pattern of
     Some pat \<Rightarrow>
       (let prefix = extract_prefix pat in
        if prefix \<noteq> [] \<and> starts_with pat prefix \<and> CHR ''*'' \<in> set pat
        then (if length prefix < length start_key \<and> starts_with start_key prefix then start_key
              else if start_key = [] then prefix
              else start_key,
              prefix @ ''~'')
        else (start_key, replicate 255 (CHR 0xFF)))
   | None \<Rightarrow> (start_key, replicate 255 (CHR 0xFF)))"

fun scan_collect :: "nat \<Rightarrow> bytes option \<Rightarrow> bytes list \<Rightarrow> bytes list \<Rightarrow> bytes list \<times> bytes option" where
  "scan_collect count pattern [] keys = (keys, None)"
| "scan_collect count pattern (key # rest) keys =
     (if count \<le> length keys then (keys, Some key)
      else if (case pattern of Some pat \<Rightarrow> \<not> match_pattern key pat | None \<Rightarrow> False)
      then scan_collect count pattern rest keys
      else scan_collect count pattern rest (keys @ [key]))"

definition exec_scan :: "'s feox \<Rightarrow> bytes \<Rightarrow> u64 \<Rightarrow> bytes option \<Rightarrow> 's world \<Rightarrow> resp_value \<times> 's world" where
  "exec_scan fx cursor count pattern w =
     (let start_key = (if cursor = [] \<or> cursor = ''0'' then [] else cursor);
          (scan_start, scan_end) = scan_range start_key pattern;
          fetch_count = (if pattern = None then count else count * 2)
      in case fx_range_query fx (wd_store w) scan_start scan_end (unat (fetch_count + 1)) of
           (Inr pairs, s) \<Rightarrow>
             (let (keys, next_cursor) = scan_collect (unat count) pattern (map fst pairs) [];
                  cursor_str = (case next_cursor of Some next_key \<Rightarrow> next_key | None \<Rightarrow> ''0'')
              in (Array (Some [bulk cursor_str, Array (Some (map bulk keys))]), set_store s w))
         | (Inl e, s) \<Rightarrow> (db_error fx e, set_store s w))"

section \<open>INFO\<close>

text \<open>
  A division by a power of 1024 is exact for the sizes in question (below \<open>2 ^ 53\<close>);
  \<open>{:.1}\<close> prints the nearest tenth, ties to even.
\<close>

definition round_even :: "nat \<Rightarrow> nat \<Rightarrow> nat" where
  "round_even n d = (let q = n div d; r = n mod d in
     if 2 * r < d then q else if 2 * r > d then q + 1 else if even q then q else q + 1)"

definition show_tenths :: "nat \<Rightarrow> nat \<Rightarrow> bytes" where
  "show_tenths n d = (let t = round_even (10 * n) d in show_nat (t div 10) @ ''.'' @ show_nat (t mod 10))"

definition format_bytes :: "nat \<Rightarrow> bytes" where
  "format_bytes n =
     (if n < 1024 then show_nat n @ ''B''
      else if n < 1024 * 1024 then show_tenths n 1024 @ ''K''
      else if n < 1024 * 1024 * 1024 then show_tenths n (1024 * 1024) @ ''M''
      else show_tenths n (1024 * 1024 * 1024) @ ''G'')"

definition crlf :: bytes where
  "crlf = [CHR 0x0D, CHR 0x0A]"

definition lines_of :: "bytes list \<Rightarrow> bytes" where
  "lines_of ls = concat (map (\<lambda>l. l @ crlf) ls)"

definition wants_section :: "bytes option \<Rightarrow> bytes \<Rightarrow> bool" where
  "wants_section sec name = (case sec of None \<Rightarrow> True | Some s \<Rightarrow> eq_ignore_ascii_case s name)"

definition info_server :: "env \<Rightarrow> executor \<Rightarrow> bytes" where
  "info_server env ex = lines_of
     [''# Server'', ''redis_version:feox-'' @ env_version env, ''redis_mode:standalone'',
      ''arch_bits:'' @ show_nat 64, ''process_id:'' @ show_nat (env_pid env), ''tcp_port:6379'',
      ''uptime_in_seconds:'' @ show_nat ((env_now env - ex_start_time ex) div 1000000000)]"

definition info_memory :: "feox_stats \<Rightarrow> bytes" where
  "info_memory st = lines_of
     [''# Memory'', ''used_memory:'' @ show_nat (fs_memory_usage st),
      ''used_memory_human:'' @ format_bytes (fs_memory_usage st),
      ''used_memory_cache:'' @ show_nat (fs_cache_memory st),
      ''used_memory_cache_human:'' @ format_bytes (fs_cache_memory st)]"

definition info_stats :: "executor \<Rightarrow> feox_stats \<Rightarrow> bytes" where
  "info_stats ex st = lines_of
     [''# Stats'', ''total_connections_received:0'',
      ''total_commands_processed:'' @ show_nat (unat (ex_commands_processed ex)),
      ''instantaneous_ops_per_sec:0'', ''total_net_input_bytes:0'', ''total_net_output_bytes:0'',
      ''total_operations:'' @ show_nat (fs_total_operations st),
      ''total_gets:'' @ show_nat (fs_total_gets st),
      ''total_inserts:'' @ show_nat (fs_total_inserts st),
      ''keyspace_hits:'' @ show_nat (fs_cache_hits st),
      ''keyspace_misses:'' @ show_nat (fs_cache_misses st),
      ''cache_hit_rate:'' @ fs_cache_hit_rate_percent st]"

definition info_keyspace :: "feox_stats \<Rightarrow> bytes" where
  "info_keyspace st = lines_of
     [''# Keyspace'', ''db0:keys='' @ show_nat (fs_record_count st) @ '',expires=0,avg_ttl=0'']"

definition exec_info :: "'s feox \<Rightarrow> env \<Rightarrow> executor \<Rightarrow> bytes option \<Rightarrow> 's world \<Rightarrow> resp_value \<times> 's world" where
  "exec_info fx env ex sec w = (case fx_stats fx (wd_store w) of (st, s) \<Rightarrow>
     (bulk ((if wants_section sec ''server'' then info_server env ex else []) @
            (if wants_section sec ''memory'' then info_memory st else []) @
            (if wants_section sec ''stats'' then info_stats ex st else []) @
            (if wants_section sec ''keyspace'' then info_keyspace st else [])), set_store s w))"

section \<open>Lists\<close>

definition push_reply ::
  "'s feox \<Rightarrow> bytes \<Rightarrow> ((server_error + i64) \<times> 's) option \<Rightarrow> 's world \<Rightarrow> (resp_value \<times> 's world) option" where
  "push_reply fx key r w = (case r of
     None \<Rightarrow> None
   | Some (Inr count, s) \<Rightarrow> Some (Integer count, notify key (set_store s w))
   | Some (Inl e, s) \<Rightarrow> Some (op_error fx e, set_store s w))"

definition pop_reply ::
  "'s feox \<Rightarrow> bytes \<Rightarrow> ((server_error + bytes list) \<times> 's) option \<Rightarrow> 's world \<Rightarrow> (resp_value \<times> 's world) option" where
  "pop_reply fx key r w = (case r of
     None \<Rightarrow> None
   | Some (Inr [], s) \<Rightarrow> Some (BulkString None, set_store s w)
   | Some (Inr [v], s) \<Rightarrow> Some (bulk v, notify key (set_store s w))
   | Some (Inr values, s) \<Rightarrow> Some (Array (Some (map bulk values)), notify key (set_store s w))
   | Some (Inl e, s) \<Rightarrow> Some (op_error fx e, set_store s w))"

definition exec_lpush :: "'s feox \<Rightarrow> bytes \<Rightarrow> bytes list \<Rightarrow> 's world \<Rightarrow> (resp_value \<times> 's world) option" where
  "exec_lpush fx key values w = push_reply fx key (lpush fx key values (wd_store w)) w"

definition exec_rpush :: "'s feox \<Rightarrow> bytes \<Rightarrow> bytes list \<Rightarrow> 's world \<Rightarrow> (resp_value \<times> 's world) option" where
  "exec_rpush fx key values w = push_reply fx key (rpush fx key values (wd_store w)) w"

definition exec_lpop :: "'s feox \<Rightarrow> bytes \<Rightarrow> u64 option \<Rightarrow> 's world \<Rightarrow> (resp_value \<times> 's world) option" where
  "exec_lpop fx key count w = pop_reply fx key (lpop fx key count (wd_store w)) w"

definition exec_rpop :: "'s feox \<Rightarrow> bytes \<Rightarrow> u64 option \<Rightarrow> 's world \<Rightarrow> (resp_value \<times> 's world) option" where
  "exec_rpop fx key count w = pop_reply fx key (rpop fx key count (wd_store w)) w"

text \<open>The reply of a command that only reads the store: a value printed by \<open>f\<close>, or the error.\<close>

definition read_reply ::
  "'s feox \<Rightarrow> ('a \<Rightarrow> resp_value) \<Rightarrow> (server_error + 'a) \<times> 's \<Rightarrow> 's world \<Rightarrow> resp_value \<times> 's world" where
  "read_reply fx f r w = (case r of
     (Inr v, s) \<Rightarrow> (f v, set_store s w) | (Inl e, s) \<Rightarrow> (op_error fx e, set_store s w))"

definition bulks :: "bytes list \<Rightarrow> resp_value" where
  "bulks vs = Array (Some (map bulk vs))"

definition exec_llen :: "'s feox \<Rightarrow> bytes \<Rightarrow> 's world \<Rightarrow> resp_value \<times> 's world" where
  "exec_llen fx key w = read_reply fx Integer (llen fx key (wd_store w)) w"

definition exec_lrange :: "'s feox \<Rightarrow> bytes \<Rightarrow> i64 \<Rightarrow> i64 \<Rightarrow> 's world \<Rightarrow> resp_value \<times> 's world" where
  "exec_lrange fx key start stop w = read_reply fx bulks (lrange fx key start stop (wd_store w)) w"

definition exec_lindex :: "'s feox \<Rightarrow> bytes \<Rightarrow> i64 \<Rightarrow> 's world \<Rightarrow> resp_value \<times> 's world" where
  "exec_lindex fx key index w = read_reply fx BulkString (lindex fx key index (wd_store w)) w"

section \<open>Hashes\<close>

definition set_hash :: "tracker \<Rightarrow> 's \<Rightarrow> 's world \<Rightarrow> 's world" where
  "set_hash tr s w = w\<lparr>wd_store := s, wd_tracker := tr\<rparr>"

definition exec_hset :: "'s feox \<Rightarrow> env \<Rightarrow> bytes \<Rightarrow> (bytes \<times> bytes) list \<Rightarrow> 's world \<Rightarrow> resp_value \<times> 's world" where
  "exec_hset fx env key fvs w = (case hset fx (env_now env) key fvs (wd_tracker w) (wd_store w) of
     (Inr count, tr, s) \<Rightarrow> (Integer count, notify key (set_hash tr s w))
   | (Inl e, tr, s) \<Rightarrow> (op_error fx e, set_hash tr s w))"

definition exec_hget :: "'s feox \<Rightarrow> bytes \<Rightarrow> bytes \<Rightarrow> 's world \<Rightarrow> resp_value \<times> 's world" where
  "exec_hget fx key field w = read_reply fx BulkString (hget fx key field (wd_store w)) w"

definition exec_hmget :: "'s feox \<Rightarrow> bytes \<Rightarrow> bytes list \<Rightarrow> 's world \<Rightarrow> resp_value \<times> 's world" where
  "exec_hmget fx key names w =
     read_reply fx (\<lambda>vs. Array (Some (map BulkString vs))) (hmget fx key names (wd_store w)) w"

definition exec_hdel :: "'s feox \<Rightarrow> env \<Rightarrow> bytes \<Rightarrow> bytes list \<Rightarrow> 's world \<Rightarrow> resp_value \<times> 's world" where
  "exec_hdel fx env key names w = (case hdel fx (env_now env) key names (wd_tracker w) (wd_store w) of
     (Inr count, tr, s) \<Rightarrow>
       (Integer count, if 0 < sint count then notify key (set_hash tr s w) else set_hash tr s w)
   | (Inl e, tr, s) \<Rightarrow> (op_error fx e, set_hash tr s w))"

definition exec_hexists :: "'s feox \<Rightarrow> bytes \<Rightarrow> bytes \<Rightarrow> 's world \<Rightarrow> resp_value \<times> 's world" where
  "exec_hexists fx key field w =
     read_reply fx (\<lambda>b. Integer (if b then 1 else 0)) (hexists fx key field (wd_store w)) w"

definition exec_hgetall :: "'s feox \<Rightarrow> bytes \<Rightarrow> 's world \<Rightarrow> resp_value \<times> 's world" where
  "exec_hgetall fx key w =
     read_reply fx (\<lambda>pairs. Array (Some (concat (map (\<lambda>(f, v). [bulk f, bulk v]) pairs))))
       (hgetall fx key (wd_store w)) w"

definition exec_hlen :: "'s feox \<Rightarrow> env \<Rightarrow> bytes \<Rightarrow> 's world \<Rightarrow> resp_value \<times> 's world" where
  "exec_hlen fx env key w = (case hlen fx (env_now env) key (wd_tracker w) (wd_store w) of
     (Inr count, tr, s) \<Rightarrow> (Integer count, set_hash tr s w)
   | (Inl e, tr, s) \<Rightarrow> (op_error fx e, set_hash tr s w))"

definition exec_hkeys :: "'s feox \<Rightarrow> bytes \<Rightarrow> 's world \<Rightarrow> resp_value \<times> 's world" where
  "exec_hkeys fx key w = read_reply fx bulks (hkeys fx key (wd_store w)) w"

definition exec_hvals :: "'s feox \<Rightarrow> bytes \<Rightarrow> 's world \<Rightarrow> resp_value \<times> 's world" where
  "exec_hvals fx key w = read_reply fx bulks (hvals fx key (wd_store w)) w"

definition exec_hincrby :: "'s feox \<Rightarrow> env \<Rightarrow> bytes \<Rightarrow> bytes \<Rightarrow> i64 \<Rightarrow> 's world \<Rightarrow> resp_value \<times> 's world" where
  "exec_hincrby fx env key field delta w =
     (case hincrby fx (env_now env) key field delta (wd_tracker w) (wd_store w) of
        (Inr new_value, tr, s) \<Rightarrow> (Integer new_value, notify key (set_hash tr s w))
      | (Inl e, tr, s) \<Rightarrow> (op_error fx e, set_hash tr s w))"

section \<open>All commands\<close>

definition exec_auth :: "executor \<Rightarrow> resp_value" where
  "exec_auth ex =
     (if cfg_requirepass (ex_config ex) = None then Error ''-ERR Client sent AUTH, but no password is set''
      else Error ''-ERR AUTH failed'')"

fun run_command :: "'s feox \<Rightarrow> env \<Rightarrow> executor \<Rightarrow> command \<Rightarrow> 's world \<Rightarrow> (resp_value \<times> 's world) option" where
  "run_command fx env ex (Get key) w = Some (exec_get fx key w)"
| "run_command fx env ex (Set key value ex_secs px) w = Some (exec_set fx key value ex_secs px w)"
| "run_command fx env ex (Del keys) w = Some (exec_del fx keys w)"
| "run_command fx env ex (Exists keys) w = Some (exec_exists fx keys w)"
| "run_command fx env ex (Incr key) w = Some (string_incr fx key 1 w)"
| "run_command fx env ex (IncrBy key delta) w = Some (string_incr fx key delta w)"
| "run_command fx env ex (Decr key) w = Some (string_incr fx key (- 1) w)"
| "run_command fx env ex (DecrBy key delta) w = Some (string_incr fx key (- delta) w)"
| "run_command fx env ex (Expire key seconds) w = Some (exec_expire fx key seconds w)"
| "run_command fx env ex (PExpire key milliseconds) w = Some (exec_pexpire fx key milliseconds w)"
| "run_command fx env ex (Ttl key) w = Some (exec_ttl fx key w)"
| "run_command fx env ex (PTtl key) w = Some (exec_pttl fx key w)"
| "run_command fx env ex (Persist key) w = Some (exec_persist fx key w)"
| "run_command fx env ex (MGet keys) w = Some (exec_mget fx keys w)"
| "run_command fx env ex (MSet pairs) w = Some (exec_mset fx pairs w)"
| "run_command fx env ex (Ping msg) w = Some (exec_ping msg, w)"
| "run_command fx env ex (Echo msg) w = Some (bulk msg, w)"
| "run_command fx env ex (Command.Config action args) w = Some (exec_config action args, w)"
| "run_command fx env ex (Command subcommand args) w = Some (handle_command_subcommand subcommand args, w)"
| "run_command fx env ex Quit w = Some (SimpleString ''OK'', w)"
| "run_command fx env ex FlushDb w =
     Some (Error ''ERR FLUSHDB requires server restart. For persistent mode, also delete data files.'', w)"
| "run_command fx env ex (Keys pattern) w = Some (exec_keys fx pattern w)"
| "run_command fx env ex (Scan cursor count pattern) w = Some (exec_scan fx cursor count pattern w)"
| "run_command fx env ex (Info sec) w = Some (exec_info fx env ex sec w)"
| "run_command fx env ex (JsonPatch key patch) w = Some (exec_json_patch fx key patch w)"
| "run_command fx env ex (Cas key expected new_value) w = Some (exec_cas fx key expected new_value w)"
| "run_command fx env ex (LPush key values) w = exec_lpush fx key values w"
| "run_command fx env ex (RPush key values) w = exec_rpush fx key values w"
| "run_command fx env ex (LPop key count) w = exec_lpop fx key count w"
| "run_command fx env ex (RPop key count) w = exec_rpop fx key count w"
| "run_command fx env ex (LLen key) w = Some (exec_llen fx key w)"
| "run_command fx env ex (LRange key start stop) w = Some (exec_lrange fx key start stop w)"
| "run_command fx env ex (LIndex key index) w = Some (exec_lindex fx key index w)"
| "run_command fx env ex (HSet key fvs) w = Some (exec_hset fx env key fvs w)"
| "run_command fx env ex (HGet key field) w = Some (exec_hget fx key field w)"
| "run_command fx env ex (HMGet key names) w = Some (exec_hmget fx key names w)"
| "run_command fx env ex (HDel key names) w = Some (exec_hdel fx env key names w)"
| "run_command fx env ex (HExists key field) w = Some (exec_hexists fx key field w)"
| "run_command fx env ex (HGetAll key) w = Some (exec_hgetall fx key w)"
| "run_command fx env ex (HLen key) w = Some (exec_hlen fx env key w)"
| "run_command fx env ex (HKeys key) w = Some (exec_hkeys fx key w)"
| "run_command fx env ex (HVals key) w = Some (exec_hvals fx key w)"
| "run_command fx env ex (HIncrBy key field delta) w = Some (exec_hincrby fx env key field delta w)"
| "run_command fx env ex (Auth _) w = Some (exec_auth ex, w)"
| "run_command fx env ex (Client subcommand args) w = Some
     (client_execute (env_unix env) (if ex_has_registry ex then Some (wd_clients w) else None)
        subcommand args (ex_connection_id ex), w)"
| "run_command fx env ex (Subscribe _) w = Some (Error ''-ERR Pub/Sub commands should be handled in connection layer'', w)"
| "run_command fx env ex (Unsubscribe _) w = Some (Error ''-ERR Pub/Sub commands should be handled in connection layer'', w)"
| "run_command fx env ex (PSubscribe _) w = Some (Error ''-ERR Pub/Sub commands should be handled in connection layer'', w)"
| "run_command fx env ex (PUnsubscribe _) w = Some (Error ''-ERR Pub/Sub commands should be handled in connection layer'', w)"
| "run_command fx env ex (Publish _ _) w = Some (Error ''-ERR Pub/Sub commands should be handled in connection layer'', w)"
| "run_command fx env ex (PubSub _ _) w = Some (Error ''-ERR Pub/Sub commands should be handled in connection layer'', w)"
| "run_command fx env ex Multi w = Some (Error ''-ERR Transaction commands should be handled in connection layer'', w)"
| "run_command fx env ex Exec w = Some (Error ''-ERR Transaction commands should be handled in connection layer'', w)"
| "run_command fx env ex Discard w = Some (Error ''-ERR Transaction commands should be handled in connection layer'', w)"
| "run_command fx env ex (Watch _) w = Some (Error ''-ERR Transaction commands should be handled in connection layer'', w)"
| "run_command fx env ex Unwatch w = Some (Error ''-ERR Transaction commands should be handled in connection layer'', w)"

definition execute ::
  "'s feox \<Rightarrow> env \<Rightarrow> executor \<Rightarrow> command \<Rightarrow> 's world \<Rightarrow> (resp_value \<times> executor \<times> 's world) option" where
  "execute fx env ex c w =
     (let ex1 = ex\<lparr>ex_commands_processed := ex_commands_processed ex + 1\<rparr>
      in case run_command fx env ex1 c w of
           None \<Rightarrow> None
         | Some (reply, w1) \<Rightarrow> Some (reply, ex1, w1))"

end
