(* ===== verification/List_Spec.thy ===== *)
theory List_Spec
  imports List_Ops
begin

text \<open>
  What the list commands promise. \<open>list_at m key h xs\<close> says that the store content \<open>m\<close>
  represents the list \<open>xs\<close> under \<open>key\<close>, its head at position \<open>h\<close>. On a store that keeps its
  contract every command returns, acts on the represented list as its specification
  says, and leaves every entry that does not belong to the list alone. Two lemmas at the
  end state what the loops do when the store does not cooperate.
\<close>

section \<open>Storage keys\<close>

abbreviation pos_key :: "bytes \<Rightarrow> int \<Rightarrow> bytes" where
  "pos_key key p \<equiv> list_value_key key (word_of_int p)"

definition list_owns :: "bytes \<Rightarrow> bytes \<Rightarrow> bool" where
  "list_owns key k \<longleftrightarrow> k = list_meta_key key \<or> (\<exists>p. k = list_value_key key p)"

lemma show_i64_mem: "c \<in> set (show_i64 w) \<Longrightarrow> is_digit c \<or> c = CHR ''-''"
  unfolding show_i64_def by (rule show_int_mem)

lemma show_i64_no_colon: "CHR '':'' \<notin> set (show_i64 w)"
  using show_i64_mem [of "CHR '':''" w] by (auto simp: is_digit_def)

lemma meta_not_value [simp]: "list_meta_key key \<noteq> list_value_key key p" "list_value_key key p \<noteq> list_meta_key key"
proof -
  have "''meta'' \<noteq> show_i64 p"
  proof
    assume "''meta'' = show_i64 p"
    then have "CHR ''m'' \<in> set (show_i64 p)" by (metis list.set_intros(1))
    then show False by (auto dest: show_i64_mem simp: is_digit_def)
  qed
  then show "list_meta_key key \<noteq> list_value_key key p" "list_value_key key p \<noteq> list_meta_key key"
    by (auto simp: list_meta_key_def list_value_key_def)
qed

lemma list_value_key_inj [simp]: "list_value_key key p = list_value_key key q \<longleftrightarrow> p = q"
  by (auto simp: list_value_key_def dest: show_i64_inj)

lemma pos_key_inj: "in_i64 a \<Longrightarrow> in_i64 b \<Longrightarrow> pos_key key a = pos_key key b \<longleftrightarrow> a = b"
  by (metis list_value_key_inj sint_word_of_int64)

lemma last_colon_unique:
  assumes "a @ CHR '':'' # x = b @ CHR '':'' # y" and "CHR '':'' \<notin> set x" and "CHR '':'' \<notin> set y"
  shows "a = b"
proof -
  from assms(1) have "rev x @ CHR '':'' # rev a = rev y @ CHR '':'' # rev b"
    by (metis append.assoc append_Cons append_Nil rev.simps(2) rev_append)
  moreover have "takeWhile (\<lambda>c. c \<noteq> CHR '':'') (rev z @ CHR '':'' # w) = rev z"
    if "CHR '':'' \<notin> set z" for z w
    using that by (subst takeWhile_append2) auto
  ultimately have "rev x = rev y" using assms(2,3) by metis
  with assms(1) show ?thesis by simp
qed

lemma list_owns_disjoint:
  assumes "list_owns a k" and "list_owns b k"
  shows "utf8_lossy a = utf8_lossy b"
proof -
  have "\<exists>x. k = ''L:'' @ utf8_lossy c @ CHR '':'' # x \<and> CHR '':'' \<notin> set x" if "list_owns c k" for c
    using that show_i64_no_colon by (auto simp: list_owns_def list_meta_key_def list_value_key_def)
  from this [OF assms(1)] this [OF assms(2)] show ?thesis
    using last_colon_unique by fastforce
qed

section \<open>The represented list\<close>

definition list_at :: "(bytes \<Rightarrow> bytes option) \<Rightarrow> bytes \<Rightarrow> int \<Rightarrow> bytes list \<Rightarrow> bool" where
  "list_at m key h xs \<longleftrightarrow> in_i64 h \<and> in_i64 (h + int (length xs)) \<and>
     (m (list_meta_key key) = None \<and> xs = [] \<and> h = 1000000000 \<or>
      m (list_meta_key key) =
        Some (build_metadata (word_of_int h) (word_of_int (h + int (length xs))) (word_of_nat (length xs))) \<and>
      (\<forall>i < length xs. m (pos_key key (h + int i)) = Some (xs ! i)))"

definition list_writable :: "(bytes \<Rightarrow> bytes \<Rightarrow> bool) \<Rightarrow> bytes \<Rightarrow> bool" where
  "list_writable accepts key \<longleftrightarrow> (\<forall>k v. list_owns key k \<longrightarrow> accepts k v)"

lemma list_writable_accepts [simp]:
  assumes "list_writable accepts key"
  shows "accepts (list_meta_key key) v" "accepts (list_value_key key p) v"
  using assms by (auto simp: list_writable_def list_owns_def)

definition same_outside :: "bytes \<Rightarrow> (bytes \<Rightarrow> bytes option) \<Rightarrow> (bytes \<Rightarrow> bytes option) \<Rightarrow> bool" where
  "same_outside key m m' \<longleftrightarrow> (\<forall>k. \<not> list_owns key k \<longrightarrow> m' k = m k)"

lemma same_outside_refl [simp]: "same_outside key m m"
  by (simp add: same_outside_def)

lemma same_outside_trans [trans]:
  "same_outside key m m' \<Longrightarrow> same_outside key m' m'' \<Longrightarrow> same_outside key m m''"
  by (simp add: same_outside_def)

lemma same_outside_upd [simp]:
  "same_outside key m (m'(list_meta_key key \<mapsto> v)) = same_outside key m m'"
  "same_outside key m (m'(list_value_key key p := w)) = same_outside key m m'"
  by (auto simp: same_outside_def list_owns_def)

text \<open>A list under another name is not touched.\<close>

lemma list_at_outside:
  assumes "same_outside key m m'" and "utf8_lossy key \<noteq> utf8_lossy other"
  shows "list_at m' other h xs = list_at m other h xs"
proof -
  have "\<not> list_owns key k" if "list_owns other k" for k
    using list_owns_disjoint [OF _ that, of key] assms(2) by auto
  then have "m' (list_meta_key other) = m (list_meta_key other)"
    and "\<And>p. m' (list_value_key other p) = m (list_value_key other p)"
    using assms(1) by (auto simp: same_outside_def list_owns_def)
  then show ?thesis by (simp add: list_at_def)
qed

lemma list_at_length: "list_at m key h xs \<Longrightarrow> length xs < 2 ^ 64"
  by (auto simp: list_at_def in_i64_def)

lemma count_zero_iff: "list_at m key h xs \<Longrightarrow> (word_of_nat (length xs) :: u64) = 0 \<longleftrightarrow> xs = []"
proof -
  assume "list_at m key h xs"
  then have "length xs < 2 ^ 64" by (rule list_at_length)
  then have "unat (word_of_nat (length xs) :: u64) = length xs" by (simp add: unat_of_nat)
  then show ?thesis by (metis length_0_conv unat_0 unat_eq_zero)
qed

lemma list_at_push_front:
  assumes "list_at m key h xs" and "in_i64 (h - 1)"
  shows "list_at (m(list_meta_key key \<mapsto> build_metadata (word_of_int (h - 1)) (word_of_int (h + int (length xs)))
             (word_of_nat (Suc (length xs))), pos_key key (h - 1) \<mapsto> v)) key (h - 1) (v # xs)"
proof -
  have "pos_key key (h - 1 + int i) = pos_key key (h - 1) \<longleftrightarrow> i = 0" if "i \<le> length xs" for i
    using assms that by (subst pos_key_inj) (auto simp: list_at_def in_i64_def)
  then show ?thesis
    using assms by (auto simp: list_at_def nth_Cons add.commute split: nat.splits)
qed

lemma list_at_push_back:
  assumes "list_at m key h xs" and "in_i64 (h + int (length xs) + 1)"
  shows "list_at (m(list_meta_key key \<mapsto> build_metadata (word_of_int h) (word_of_int (h + int (length xs) + 1))
             (word_of_nat (Suc (length xs))), pos_key key (h + int (length xs)) \<mapsto> v)) key h (xs @ [v])"
proof -
  have "pos_key key (h + int i) = pos_key key (h + int (length xs)) \<longleftrightarrow> i = length xs" if "i \<le> length xs" for i
    using assms that by (subst pos_key_inj) (auto simp: list_at_def in_i64_def)
  then show ?thesis
    using assms by (auto simp: list_at_def nth_append less_Suc_eq_le ac_simps)
qed

lemma list_at_pop_front:
  assumes "list_at m key h (x # xs)"
  shows "list_at (m(list_meta_key key \<mapsto> build_metadata (word_of_int (h + 1)) (word_of_int (h + 1 + int (length xs)))
             (word_of_nat (length xs)), pos_key key h := None)) key (h + 1) xs"
proof -
  have "pos_key key (h + 1 + int i) = pos_key key h \<longleftrightarrow> False" if "i < length xs" for i
    using assms that by (subst pos_key_inj) (auto simp: list_at_def in_i64_def)
  moreover have "m (pos_key key (h + 1 + int i)) = Some (xs ! i)" if "i < length xs" for i
    using assms that by (auto simp: list_at_def dest!: spec [of _ "Suc i"] simp: add.assoc)
  ultimately show ?thesis
    using assms by (auto simp: list_at_def in_i64_def)
qed

lemma list_at_pop_back:
  assumes "list_at m key h (xs @ [x])"
  shows "list_at (m(list_meta_key key \<mapsto> build_metadata (word_of_int h) (word_of_int (h + int (length xs)))
             (word_of_nat (length xs)), pos_key key (h + int (length xs)) := None)) key h xs"
proof -
  have "pos_key key (h + int i) = pos_key key (h + int (length xs)) \<longleftrightarrow> False" if "i < length xs" for i
    using assms that by (subst pos_key_inj) (auto simp: list_at_def in_i64_def)
  moreover have "m (pos_key key (h + int i)) = Some (xs ! i)" if "i < length xs" for i
    using assms that by (auto simp: list_at_def nth_append dest!: spec [of _ i])
  ultimately show ?thesis
    using assms by (auto simp: list_at_def in_i64_def)
qed

section \<open>The operations on a store that keeps its contract\<close>

context feox_store
begin

lemma open_metadata_spec:
  assumes "good s" and "list_writable accepts key" and "list_at (view s) key h xs"
  shows "\<exists>s1 new. open_metadata fx key s = (Some (build_metadata (word_of_int h) (word_of_int (h + int (length xs)))
        (word_of_nat (length xs)), new), s1) \<and> good s1 \<and>
      view s1 = (view s)(list_meta_key key \<mapsto> build_metadata (word_of_int h) (word_of_int (h + int (length xs)))
        (word_of_nat (length xs)))"
proof (cases "view s (list_meta_key key)")
  case None
  with assms show ?thesis
    by (auto simp: open_metadata_def split_beta list_at_def INITIAL_POSITION_def Let_def)
next
  case (Some mb)
  with assms show ?thesis
    by (auto simp: open_metadata_def split_beta list_at_def fun_upd_idem)
qed

lemma commit_metadata_spec:
  assumes "good s" and "list_writable accepts key" and "view s (list_meta_key key) = Some mb"
  shows "\<exists>s1. commit_metadata fx key new mb new_meta s = (Inr True, s1) \<and> good s1 \<and>
      view s1 = (view s)(list_meta_key key \<mapsto> new_meta)"
  using assms by (cases new) (auto simp: commit_metadata_def split_beta ex_pair_conv)

lemma lpush_loop_spec:
  assumes "good s" and "list_writable accepts key" and "list_at (view s) key h xs" and "in_i64 (h - 1)"
  shows "\<exists>s'. lpush_loop fx key v r s = Some (Inr (), s') \<and> good s' \<and>
      list_at (view s') key (h - 1) (v # xs) \<and> same_outside key (view s) (view s')"
proof -
  let ?mb = "build_metadata (word_of_int h) (word_of_int (h + int (length xs))) (word_of_nat (length xs))"
  let ?new = "build_metadata (word_of_int (h - 1)) (word_of_int (h + int (length xs))) (word_of_nat (Suc (length xs)))"
  from open_metadata_spec [OF assms(1-3)] obtain s1 new where
    s1: "open_metadata fx key s = (Some (?mb, new), s1)" "good s1" "view s1 = (view s)(list_meta_key key \<mapsto> ?mb)"
    by blast
  have "view s1 (list_meta_key key) = Some ?mb" by (simp add: s1(3))
  from commit_metadata_spec [OF s1(2) assms(2) this, of new ?new] obtain s2 where
    s2: "commit_metadata fx key new ?mb ?new s1 = (Inr True, s2)" "good s2"
      "view s2 = (view s1)(list_meta_key key \<mapsto> ?new)"
    by blast
  have loop: "lpush_loop fx key v r s = (case fx_insert fx s2 (pos_key key (h - 1)) v of
        (Inl e, s3) \<Rightarrow> Some (Inl (Database e), s3) | (Inr _, s3) \<Rightarrow> Some (Inr (), s3))"
    using s2(1) count_zero_iff [OF assms(3)]
    by (subst lpush_loop.simps) (cases "xs = []"; simp add: s1(1) Let_def add.commute)
  define s' where "s' = snd (fx_insert fx s2 (pos_key key (h - 1)) v)"
  have "view s' = (view s)(list_meta_key key \<mapsto> ?new, pos_key key (h - 1) \<mapsto> v)"
    using s1(3) s2(2,3) assms(2) by (simp add: s'_def)
  moreover have "good s'" using s2(2) assms(2) by (simp add: s'_def)
  moreover have "lpush_loop fx key v r s = Some (Inr (), s')"
    using loop s2(2) assms(2) by (simp add: s'_def split_beta)
  ultimately show ?thesis
    using list_at_push_front [OF assms(3,4)] by (auto simp flip: fun_upd_apply)
qed

lemma rpush_loop_spec:
  assumes "good s" and "list_writable accepts key" and "list_at (view s) key h xs"
    and "in_i64 (h + int (length xs) + 1)"
  shows "\<exists>s'. rpush_loop fx key v r s = Some (Inr (), s') \<and> good s' \<and>
      list_at (view s') key h (xs @ [v]) \<and> same_outside key (view s) (view s')"
proof -
  let ?mb = "build_metadata (word_of_int h) (word_of_int (h + int (length xs))) (word_of_nat (length xs))"
  let ?new = "build_metadata (word_of_int h) (word_of_int (h + int (length xs) + 1)) (word_of_nat (Suc (length xs)))"
  let ?pos = "h + int (length xs)"
  from open_metadata_spec [OF assms(1-3)] obtain s1 new where
    s1: "open_metadata fx key s = (Some (?mb, new), s1)" "good s1" "view s1 = (view s)(list_meta_key key \<mapsto> ?mb)"
    by blast
  have "view s1 (list_meta_key key) = Some ?mb" by (simp add: s1(3))
  from commit_metadata_spec [OF s1(2) assms(2) this, of new ?new] obtain s2 where
    s2: "commit_metadata fx key new ?mb ?new s1 = (Inr True, s2)" "good s2"
      "view s2 = (view s1)(list_meta_key key \<mapsto> ?new)"
    by blast
  have loop: "rpush_loop fx key v r s = (case fx_insert fx s2 (pos_key key ?pos) v of
        (Inl e, s3) \<Rightarrow> Some (Inl (Database e), s3) | (Inr _, s3) \<Rightarrow> Some (Inr (), s3))"
    using s2(1) count_zero_iff [OF assms(3)]
    by (subst rpush_loop.simps) (cases "xs = []"; simp add: s1(1) Let_def ac_simps)
  define s' where "s' = snd (fx_insert fx s2 (pos_key key ?pos) v)"
  have "view s' = (view s)(list_meta_key key \<mapsto> ?new, pos_key key ?pos \<mapsto> v)"
    using s1(3) s2(2,3) assms(2) by (simp add: s'_def)
  moreover have "good s'" using s2(2) assms(2) by (simp add: s'_def)
  moreover have "rpush_loop fx key v r s = Some (Inr (), s')"
    using loop s2(2) assms(2) by (simp add: s'_def split_beta)
  ultimately show ?thesis
    using list_at_push_back [OF assms(3,4)] by (auto simp flip: fun_upd_apply)
qed

lemma push_values_front:
  assumes "good s" and "list_writable accepts key" and "list_at (view s) key h xs"
    and "in_i64 (h - int (length vs))"
  shows "\<exists>s'. push_values (\<lambda>v. lpush_loop fx key v 0) vs s = Some (Inr (), s') \<and> good s' \<and>
      list_at (view s') key (h - int (length vs)) (rev vs @ xs) \<and> same_outside key (view s) (view s')"
  using assms
proof (induction vs arbitrary: s h xs)
  case (Cons v vs)
  have room: "in_i64 (h - 1)"
    using Cons.prems(3,4) by (auto simp: in_i64_def list_at_def)
  from lpush_loop_spec [OF Cons.prems(1-3) room, of v 0] obtain s1 where
    s1: "lpush_loop fx key v 0 s = Some (Inr (), s1)" "good s1"
      "list_at (view s1) key (h - 1) (v # xs)" "same_outside key (view s) (view s1)" by blast
  have "in_i64 (h - 1 - int (length vs))" using Cons.prems(4) by (simp add: algebra_simps)
  from Cons.IH [OF s1(2) Cons.prems(2) s1(3) this] obtain s2 where
    "push_values (\<lambda>v. lpush_loop fx key v 0) vs s1 = Some (Inr (), s2)" "good s2"
      "list_at (view s2) key (h - 1 - int (length vs)) (rev vs @ v # xs)" "same_outside key (view s1) (view s2)"
    by blast
  with s1 show ?case by (auto simp: algebra_simps intro: same_outside_trans)
qed simp

lemma push_values_back:
  assumes "good s" and "list_writable accepts key" and "list_at (view s) key h xs"
    and "in_i64 (h + int (length xs) + int (length vs))"
  shows "\<exists>s'. push_values (\<lambda>v. rpush_loop fx key v 0) vs s = Some (Inr (), s') \<and> good s' \<and>
      list_at (view s') key h (xs @ vs) \<and> same_outside key (view s) (view s')"
  using assms
proof (induction vs arbitrary: s xs)
  case (Cons v vs)
  have room: "in_i64 (h + int (length xs) + 1)"
    using Cons.prems(3,4) by (auto simp: in_i64_def list_at_def)
  from rpush_loop_spec [OF Cons.prems(1-3) room, of v 0] obtain s1 where
    s1: "rpush_loop fx key v 0 s = Some (Inr (), s1)" "good s1"
      "list_at (view s1) key h (xs @ [v])" "same_outside key (view s) (view s1)" by blast
  have "in_i64 (h + int (length (xs @ [v])) + int (length vs))"
    using Cons.prems(4) by (simp add: algebra_simps)
  from Cons.IH [OF s1(2) Cons.prems(2) s1(3) this] obtain s2 where
    "push_values (\<lambda>v. rpush_loop fx key v 0) vs s1 = Some (Inr (), s2)" "good s2"
      "list_at (view s2) key h ((xs @ [v]) @ vs)" "same_outside key (view s1) (view s2)"
    by blast
  with s1 show ?case by (auto intro: same_outside_trans)
qed simp

lemma read_count_spec:
  assumes "good s" and "list_at (view s) key h xs" and "xs \<noteq> []"
  shows "\<exists>s'. read_count fx key s = (Inr (word_of_nat (length xs)), s') \<and> good s' \<and> view s' = view s"
  using assms by (auto simp: read_count_def split_beta list_at_def ex_pair_conv)

lemma lpush_spec:
  assumes "good s" and "list_writable accepts key" and "list_at (view s) key h xs"
    and "in_i64 (h - int (length vs))" and "vs \<noteq> []"
  shows "\<exists>s'. lpush fx key vs s = Some (Inr (word_of_nat (length vs + length xs)), s') \<and> good s' \<and>
      list_at (view s') key (h - int (length vs)) (rev vs @ xs) \<and> same_outside key (view s) (view s')"
proof -
  from push_values_front [OF assms(1-4)] obtain s1 where
    s1: "push_values (\<lambda>v. lpush_loop fx key v 0) vs s = Some (Inr (), s1)" "good s1"
      "list_at (view s1) key (h - int (length vs)) (rev vs @ xs)" "same_outside key (view s) (view s1)"
    by blast
  from read_count_spec [OF s1(2,3)] assms(5) s1 show ?thesis
    by (auto simp: lpush_def push_then_count_def)
qed

lemma rpush_spec:
  assumes "good s" and "list_writable accepts key" and "list_at (view s) key h xs"
    and "in_i64 (h + int (length xs) + int (length vs))" and "vs \<noteq> []"
  shows "\<exists>s'. rpush fx key vs s = Some (Inr (word_of_nat (length xs + length vs)), s') \<and> good s' \<and>
      list_at (view s') key h (xs @ vs) \<and> same_outside key (view s) (view s')"
proof -
  from push_values_back [OF assms(1-4)] obtain s1 where
    s1: "push_values (\<lambda>v. rpush_loop fx key v 0) vs s = Some (Inr (), s1)" "good s1"
      "list_at (view s1) key h (xs @ vs)" "same_outside key (view s) (view s1)"
    by blast
  from read_count_spec [OF s1(2,3)] assms(5) s1 show ?thesis
    by (auto simp: rpush_def push_then_count_def)
qed

text \<open>Popping.\<close>

lemma pop_finished:
  assumes "good s" and "list_at (view s) key h []"
  shows "\<exists>s'. lpop_loop fx key r s = Some (Finished, s') \<and> good s' \<and> view s' = view s"
    and "\<exists>s'. rpop_loop fx key r s = Some (Finished, s') \<and> good s' \<and> view s' = view s"
  using assms
  by (auto simp: lpop_loop.simps [of fx key r s] rpop_loop.simps [of fx key r s] split_beta
        list_at_def Let_def)

lemma sint_head_tail:
  assumes "list_at m key h xs"
  shows "sint (word_of_int (h + int (length xs)) :: i64) \<le> sint (word_of_int h :: i64) \<longleftrightarrow> xs = []"
proof -
  have "in_i64 h" and "in_i64 (h + int (length xs))" using assms by (simp_all add: list_at_def)
  then show ?thesis by (simp only: sint_word_of_int64) simp
qed

lemma lpop_loop_spec:
  assumes "good s" and "list_writable accepts key" and "list_at (view s) key h (x # xs)"
  shows "\<exists>s'. lpop_loop fx key r s = Some (Popped x, s') \<and> good s' \<and>
      list_at (view s') key (h + 1) xs \<and> same_outside key (view s) (view s')"
proof -
  let ?len = "length (x # xs)"
  let ?mb = "build_metadata (word_of_int h) (word_of_int (h + int ?len)) (word_of_nat ?len)"
  let ?new = "build_metadata (word_of_int (h + 1)) (word_of_int (h + 1 + int (length xs))) (word_of_nat (length xs))"
  have meta: "view s (list_meta_key key) = Some ?mb" and val: "view s (pos_key key h) = Some x"
    using assms(3) by (auto simp: list_at_def dest!: spec [of _ 0])
  define s1 where "s1 = snd (fx_get_bytes fx s (list_meta_key key))"
  define s2 where "s2 = snd (fx_compare_and_swap fx s1 (list_meta_key key) ?mb ?new)"
  define s3 where "s3 = snd (fx_get_bytes fx s2 (pos_key key h))"
  define s4 where "s4 = snd (fx_delete fx s3 (pos_key key h))"
  have good: "good s1" "good s2" "good s3" "good s4"
    using assms(1,2) by (simp_all add: s1_def s2_def s3_def s4_def)
  have v1: "view s1 = view s" using assms(1) by (simp add: s1_def)
  have v2: "view s2 = (view s)(list_meta_key key \<mapsto> ?new)"
    using good(1) assms(2) meta v1 by (simp only: s2_def cas_view list_writable_accepts simp_thms if_True)
  have v3: "view s3 = view s2" using good(2) by (simp add: s3_def)
  have v4: "view s4 = (view s)(list_meta_key key \<mapsto> ?new, pos_key key h := None)"
    using good(3) v3 v2 by (simp only: s4_def delete_view)
  have get: "fx_get_bytes fx s (list_meta_key key) = (Inr ?mb, s1)"
    by (rule prod_eqI) (simp_all only: s1_def get_res [OF assms(1)] meta found_simps fst_conv snd_conv)
  have cas: "fx_compare_and_swap fx s1 (list_meta_key key) ?mb ?new = (Inr True, s2)"
    by (rule prod_eqI)
      (simp_all only: s2_def cas_res [OF good(1) list_writable_accepts(1) [OF assms(2)]] v1 meta
         option.map found_simps fst_conv snd_conv simp_thms)
  have read: "fx_get_bytes fx s2 (pos_key key h) = (Inr x, s3)"
    by (rule prod_eqI) (simp_all add: s3_def good(2) v2 val)
  have del: "fx_delete fx s3 (pos_key key h) = (Inr (), s4)"
    by (rule prod_eqI) (simp_all add: s4_def good(3) v3 v2 val)
  have guard: "\<not> ((word_of_nat ?len :: u64) = 0 \<or>
      sint (word_of_int (h + int ?len) :: i64) \<le> sint (word_of_int h :: i64))"
    using count_zero_iff [OF assms(3)] sint_head_tail [OF assms(3)] by simp
  have "lpop_loop fx key r s = Some (Popped x, s4)"
    using guard cas read del
    by (subst lpop_loop.simps) (simp add: get Let_def ac_simps)
  then show ?thesis
    using good(4) v4 list_at_pop_front [OF assms(3)] by (auto simp flip: fun_upd_apply)
qed

lemma rpop_loop_spec:
  assumes "good s" and "list_writable accepts key" and "list_at (view s) key h (xs @ [x])"
  shows "\<exists>s'. rpop_loop fx key r s = Some (Popped x, s') \<and> good s' \<and>
      list_at (view s') key h xs \<and> same_outside key (view s) (view s')"
proof -
  let ?len = "length (xs @ [x])"
  let ?pos = "h + int (length xs)"
  let ?mb = "build_metadata (word_of_int h) (word_of_int (h + int ?len)) (word_of_nat ?len)"
  let ?new = "build_metadata (word_of_int h) (word_of_int ?pos) (word_of_nat (length xs))"
  have meta: "view s (list_meta_key key) = Some ?mb" and val: "view s (pos_key key ?pos) = Some x"
    using assms(3) by (auto simp: list_at_def dest!: spec [of _ "length xs"])
  define s1 where "s1 = snd (fx_get_bytes fx s (list_meta_key key))"
  define s2 where "s2 = snd (fx_compare_and_swap fx s1 (list_meta_key key) ?mb ?new)"
  define s3 where "s3 = snd (fx_get_bytes fx s2 (pos_key key ?pos))"
  define s4 where "s4 = snd (fx_delete fx s3 (pos_key key ?pos))"
  have good: "good s1" "good s2" "good s3" "good s4"
    using assms(1,2) by (simp_all add: s1_def s2_def s3_def s4_def)
  have v1: "view s1 = view s" using assms(1) by (simp add: s1_def)
  have v2: "view s2 = (view s)(list_meta_key key \<mapsto> ?new)"
    using good(1) assms(2) meta v1 by (simp only: s2_def cas_view list_writable_accepts simp_thms if_True)
  have v3: "view s3 = view s2" using good(2) by (simp add: s3_def)
  have v4: "view s4 = (view s)(list_meta_key key \<mapsto> ?new, pos_key key ?pos := None)"
    using good(3) v3 v2 by (simp only: s4_def delete_view)
  have get: "fx_get_bytes fx s (list_meta_key key) = (Inr ?mb, s1)"
    by (rule prod_eqI) (simp_all only: s1_def get_res [OF assms(1)] meta found_simps fst_conv snd_conv)
  have cas: "fx_compare_and_swap fx s1 (list_meta_key key) ?mb ?new = (Inr True, s2)"
    by (rule prod_eqI)
      (simp_all only: s2_def cas_res [OF good(1) list_writable_accepts(1) [OF assms(2)]] v1 meta
         option.map found_simps fst_conv snd_conv simp_thms)
  have read: "fx_get_bytes fx s2 (pos_key key ?pos) = (Inr x, s3)"
    using val by (intro prod_eqI) (simp_all add: s3_def good(2) v2)
  have del: "fx_delete fx s3 (pos_key key ?pos) = (Inr (), s4)"
    using val by (intro prod_eqI) (simp_all add: s4_def good(3) v3 v2)
  have guard: "\<not> ((word_of_nat ?len :: u64) = 0 \<or>
      sint (word_of_int (h + int ?len) :: i64) \<le> sint (word_of_int h :: i64))"
    using count_zero_iff [OF assms(3)] sint_head_tail [OF assms(3)] by simp
  have "rpop_loop fx key r s = Some (Popped x, s4)"
    using guard cas read del
    by (subst rpop_loop.simps) (simp add: get Let_def ac_simps)
  then show ?thesis
    using good(4) v4 list_at_pop_back [OF assms(3)] by (auto simp flip: fun_upd_apply)
qed

lemma pop_rounds_front:
  assumes "good s" and "list_writable accepts key" and "list_at (view s) key h xs"
  shows "\<exists>s'. pop_rounds (lpop_loop fx key 0) n ps s = Some (Inr (ps @ take n xs), s') \<and> good s' \<and>
      list_at (view s') key (h + int (min n (length xs))) (drop n xs) \<and> same_outside key (view s) (view s')"
  using assms
proof (induction n arbitrary: s h xs ps)
  case (Suc n)
  show ?case
  proof (cases xs)
    case Nil
    with Suc.prems(3) pop_finished(1) [OF Suc.prems(1), of key h 0] obtain s' where
      "lpop_loop fx key 0 s = Some (Finished, s')" "good s'" "view s' = view s" by auto
    with Nil Suc.prems(3) show ?thesis by auto
  next
    case (Cons x ys)
    from lpop_loop_spec [OF Suc.prems(1,2), of h x ys 0] Suc.prems(3) Cons obtain s1 where
      s1: "lpop_loop fx key 0 s = Some (Popped x, s1)" "good s1" "list_at (view s1) key (h + 1) ys"
        "same_outside key (view s) (view s1)" by auto
    from Suc.IH [OF s1(2) Suc.prems(2) s1(3), of "ps @ [x]"] obtain s2 where
      "pop_rounds (lpop_loop fx key 0) n (ps @ [x]) s1 = Some (Inr ((ps @ [x]) @ take n ys), s2)" "good s2"
      "list_at (view s2) key (h + 1 + int (min n (length ys))) (drop n ys)" "same_outside key (view s1) (view s2)"
      by blast
    with s1 Cons show ?thesis by (auto simp: algebra_simps intro: same_outside_trans)
  qed
qed auto

lemma pop_rounds_back:
  assumes "good s" and "list_writable accepts key" and "list_at (view s) key h xs"
  shows "\<exists>s'. pop_rounds (rpop_loop fx key 0) n ps s = Some (Inr (ps @ take n (rev xs)), s') \<and> good s' \<and>
      list_at (view s') key h (take (length xs - n) xs) \<and> same_outside key (view s) (view s')"
  using assms
proof (induction n arbitrary: s xs ps)
  case (Suc n)
  show ?case
  proof (cases xs rule: rev_cases)
    case Nil
    with Suc.prems(3) pop_finished(2) [OF Suc.prems(1), of key h 0] obtain s' where
      "rpop_loop fx key 0 s = Some (Finished, s')" "good s'" "view s' = view s" by auto
    with Nil Suc.prems(3) show ?thesis by auto
  next
    case (snoc ys x)
    from rpop_loop_spec [OF Suc.prems(1,2), of h ys x 0] Suc.prems(3) snoc obtain s1 where
      s1: "rpop_loop fx key 0 s = Some (Popped x, s1)" "good s1" "list_at (view s1) key h ys"
        "same_outside key (view s) (view s1)" by auto
    from Suc.IH [OF s1(2) Suc.prems(2) s1(3), of "ps @ [x]"] obtain s2 where
      "pop_rounds (rpop_loop fx key 0) n (ps @ [x]) s1 = Some (Inr ((ps @ [x]) @ take n (rev ys)), s2)" "good s2"
      "list_at (view s2) key h (take (length ys - n) ys)" "same_outside key (view s1) (view s2)"
      by blast
    with s1 snoc show ?thesis by (auto intro: same_outside_trans)
  qed
qed auto

lemma lpop_spec:
  assumes "good s" and "list_writable accepts key" and "list_at (view s) key h xs"
  shows "\<exists>s'. lpop fx key count s = Some (Inr (take (pop_count count) xs), s') \<and> good s' \<and>
      list_at (view s') key (h + int (min (pop_count count) (length xs))) (drop (pop_count count) xs) \<and>
      same_outside key (view s) (view s')"
  using pop_rounds_front [OF assms, of "pop_count count" "[]"] by (simp add: lpop_def)

lemma rpop_spec:
  assumes "good s" and "list_writable accepts key" and "list_at (view s) key h xs"
  shows "\<exists>s'. rpop fx key count s = Some (Inr (take (pop_count count) (rev xs)), s') \<and> good s' \<and>
      list_at (view s') key h (take (length xs - pop_count count) xs) \<and>
      same_outside key (view s) (view s')"
  using pop_rounds_back [OF assms, of "pop_count count" "[]"] by (simp add: rpop_def)

end

end
