(* ===== verification/List_Read.thy ===== *)
theory List_Read
  imports List_Spec
begin

text \<open>
  The reading list commands on a represented list (\<open>LLEN\<close>, \<open>LRANGE\<close>, \<open>LINDEX\<close>), and the
  two ways a push meets a store that does not cooperate: it gives up after \<open>MAX_RETRIES\<close>
  lost races, but never returns when the metadata can be neither read nor created.
\<close>

section \<open>The index arithmetic of Redis\<close>

definition from_end :: "nat \<Rightarrow> int \<Rightarrow> int" where
  "from_end n i = (if i < 0 then int n + i else i)"

definition redis_range :: "int \<Rightarrow> int \<Rightarrow> 'a list \<Rightarrow> 'a list" where
  "redis_range start stop xs =
     (let a = max 0 (from_end (length xs) start); b = from_end (length xs) stop
      in take (nat (b + 1 - a)) (drop (nat a) xs))"

definition redis_index :: "int \<Rightarrow> 'a list \<Rightarrow> 'a option" where
  "redis_index i xs =
     (let j = from_end (length xs) i
      in if 0 \<le> j \<and> j < int (length xs) then Some (xs ! nat j) else None)"

lemma map_nth_upto:
  assumes "0 \<le> a" and "b < int (length xs)"
  shows "map (\<lambda>i. xs ! nat i) [a..b] = take (nat (b + 1 - a)) (drop (nat a) xs)"
  using assms by (intro nth_equalityI) (auto simp: nth_upto nat_add_distrib)

lemma redis_range_nil: "int (length xs) \<le> a \<Longrightarrow> take n (drop (nat a) xs) = []"
  by simp

section \<open>Reading a represented list\<close>

lemma sint_offset64: "in_i64 n \<Longrightarrow> in_i64 (n + sint i) \<Longrightarrow> sint (word_of_int n + i :: i64) = n + sint i"
  by (subst sint_add64) (simp_all add: sint_word_of_int64)

lemma sint_from_end:
  assumes "in_i64 (int n)" and "sint i < 0"
  shows "sint (word_of_nat n + i :: i64) = int n + sint i"
proof -
  have "in_i64 (int n + sint i)" using assms sint_ge [of i] by (auto simp: in_i64_def)
  then have "sint (word_of_int (int n) + i :: i64) = int n + sint i"
    using assms(1) by (intro sint_offset64)
  then show ?thesis by simp
qed

lemma list_at_head: "list_at m key h xs \<Longrightarrow> in_i64 h"
  by (simp add: list_at_def)

lemma list_at_entry:
  assumes "list_at m key h xs" and "0 \<le> i" and "i < int (length xs)"
  shows "m (list_value_key key (word_of_int h + word_of_int i)) = Some (xs ! nat i)"
proof -
  have "nat i < length xs" using assms by simp
  with assms(1) have "m (pos_key key (h + int (nat i))) = Some (xs ! nat i)"
    unfolding list_at_def by auto
  with assms(2) show ?thesis by simp
qed

context feox_store
begin

lemma get_meta:
  assumes "good s" and "list_at (view s) key h xs"
  obtains (absent) s1 e where "fx_get_bytes fx s (list_meta_key key) = (Inl e, s1)" "xs = []" "good s1" "view s1 = view s"
    | (present) s1 where "fx_get_bytes fx s (list_meta_key key) =
        (Inr (build_metadata (word_of_int h) (word_of_int (h + int (length xs))) (word_of_nat (length xs))), s1)"
        "good s1" "view s1 = view s"
proof -
  define s1 where "s1 = snd (fx_get_bytes fx s (list_meta_key key))"
  have s1: "good s1" "view s1 = view s" using assms(1) by (simp_all add: s1_def)
  have get: "fx_get_bytes fx s (list_meta_key key) = (found (view s (list_meta_key key)), s1)"
    using assms(1) by (intro prod_eqI) (simp_all add: s1_def)
  show thesis
  proof (cases "view s (list_meta_key key)")
    case None
    with assms(2) have "xs = []" by (auto simp: list_at_def)
    with None get s1 show ?thesis by (intro absent [of KeyNotFound s1]) simp_all
  next
    case (Some mb)
    with assms(2) have "mb = build_metadata (word_of_int h) (word_of_int (h + int (length xs))) (word_of_nat (length xs))"
      by (auto simp: list_at_def)
    with Some get s1 show ?thesis by (intro present [of s1]) simp_all
  qed
qed

lemma llen_spec:
  assumes "good s" and "list_at (view s) key h xs"
  shows "\<exists>s'. llen fx key s = (Inr (word_of_nat (length xs)), s') \<and> good s' \<and> view s' = view s"
  using assms by (cases rule: get_meta) (auto simp: llen_def)

lemma collect_values_spec:
  assumes "good s" and "\<And>p. p \<in> set ps \<Longrightarrow> view s (list_value_key key p) = Some (f p)"
  shows "\<exists>s'. collect_values fx key ps s = (map f ps, s') \<and> good s' \<and> view s' = view s"
  using assms
proof (induction ps arbitrary: s)
  case (Cons p ps)
  define s1 where "s1 = snd (fx_get_bytes fx s (list_value_key key p))"
  have s1: "good s1" "view s1 = view s" using Cons.prems(1) by (simp_all add: s1_def)
  have "fx_get_bytes fx s (list_value_key key p) = (Inr (f p), s1)"
    using Cons.prems by (intro prod_eqI) (simp_all add: s1_def)
  moreover obtain s2 where "collect_values fx key ps s1 = (map f ps, s2)" "good s2" "view s2 = view s1"
    using Cons.IH [of s1] s1 Cons.prems(2) by auto
  ultimately show ?case using s1 by simp
qed simp

lemma collect_values_list:
  assumes "good s" and "list_at (view s) key h xs" and "0 \<le> a" and "b < int (length xs)"
  shows "\<exists>s'. collect_values fx key (map (\<lambda>i. word_of_int h + word_of_int i) [a..b]) s =
      (take (nat (b + 1 - a)) (drop (nat a) xs), s') \<and> good s' \<and> view s' = view s"
proof -
  let ?f = "\<lambda>i. xs ! nat i"
  have hs: "in_i64 h" "in_i64 (h + int (length xs))" using assms(2) by (simp_all add: list_at_def)
  have "sint (word_of_int h + word_of_int i :: i64) - h = i" if "i \<in> set [a..b]" for i
  proof -
    have "in_i64 (h + i)" using hs that assms(3,4) by (auto simp: in_i64_def)
    then have "sint (word_of_int (h + i) :: i64) = h + i" by (rule sint_word_of_int64)
    then show ?thesis by simp
  qed
  then have "map ?f [a..b] = map (\<lambda>p. xs ! nat (sint p - h)) (map (\<lambda>i. word_of_int h + word_of_int i :: i64) [a..b])"
    by (auto simp del: of_int_add)
  moreover have "view s (list_value_key key p) = Some (xs ! nat (sint p - h))"
    if "p \<in> set (map (\<lambda>i. word_of_int h + word_of_int i) [a..b])" for p
    using that assms(3,4) \<open>\<And>i. i \<in> set [a..b] \<Longrightarrow> sint (word_of_int h + word_of_int i :: i64) - h = i\<close>
      list_at_entry [OF assms(2)] by auto
  ultimately show ?thesis
    using collect_values_spec [OF assms(1), of "map (\<lambda>i. word_of_int h + word_of_int i) [a..b]" key
        "\<lambda>p. xs ! nat (sint p - h)"] map_nth_upto [OF assms(3,4)] by simp
qed

lemma lrange_spec:
  assumes "good s" and "list_at (view s) key h xs" and "in_i64 (int (length xs))"
  shows "\<exists>s'. lrange fx key start stop s = (Inr (redis_range (sint start) (sint stop) xs), s') \<and>
      good s' \<and> view s' = view s"
  using assms(1,2)
proof (cases rule: get_meta)
  case (absent s1 e)
  then show ?thesis by (simp add: lrange_def redis_range_def)
next
  case (present s1)
  let ?n = "int (length xs)"
  define len :: i64 where "len = word_of_int ?n"
  have len: "sint len = ?n" unfolding len_def by (rule sint_word_of_int64 [OF assms(3)])
  have diff: "word_of_int (h + ?n) - word_of_int h = len" by (simp add: len_def)
  have wrapped: "sint (len + i) = ?n + sint i" if "sint i < 0" for i :: i64
    using sint_from_end [OF assms(3) that] by (simp add: len_def)
  define a where "a = (if sint start < 0 then max 0 (sint (len + start)) else sint start)"
  define b where "b = (if sint stop < 0 then sint (len + stop) else sint stop)"
  have ab: "a = max 0 (from_end (length xs) (sint start))" "b = from_end (length xs) (sint stop)"
    by (auto simp: a_def b_def from_end_def wrapped)
  then have a0: "0 \<le> a" by simp
  have rep: "list_at (view s1) key h xs" using assms(2) present by simp
  have body: "lrange fx key start stop s =
      (if xs = [] then (Inr [], s1) else if ?n \<le> a \<or> b < 0 then (Inr [], s1)
       else if min (max b 0) (?n - 1) < min (max a 0) (?n - 1) then (Inr [], s1)
       else (case collect_values fx key (map (\<lambda>i. word_of_int h + word_of_int i)
               [min (max a 0) (?n - 1)..min (max b 0) (?n - 1)]) s1 of (vs, s2) \<Rightarrow> (Inr vs, s2)))"
    by (simp only: lrange_def present(1) sum.case prod.case Let_def parse_build_metadata
        count_zero_iff [OF assms(2)] diff len a_def [symmetric] b_def [symmetric])
  show ?thesis
  proof (cases "xs = [] \<or> ?n \<le> a \<or> b < 0")
    case True
    then have "redis_range (sint start) (sint stop) xs = []"
      using a0 by (auto simp: redis_range_def Let_def simp flip: ab)
    with True body present show ?thesis by auto
  next
    case False
    then have clamp: "min (max a 0) (?n - 1) = a" "max b 0 = b" using a0 by auto
    have last: "min b (?n - 1) < int (length xs)" by simp
    from False have "redis_range (sint start) (sint stop) xs =
        take (nat (min b (?n - 1) + 1 - a)) (drop (nat a) xs)"
      by (auto simp: redis_range_def Let_def min_def simp flip: ab)
    moreover obtain s2 where "collect_values fx key (map (\<lambda>i. word_of_int h + word_of_int i) [a..min b (?n - 1)]) s1 =
        (take (nat (min b (?n - 1) + 1 - a)) (drop (nat a) xs), s2)" "good s2" "view s2 = view s1"
      using collect_values_list [OF present(2) rep a0 last] by blast
    ultimately show ?thesis
      using False present body clamp by auto
  qed
qed

lemma lindex_spec:
  assumes "good s" and "list_at (view s) key h xs" and "in_i64 (int (length xs))"
  shows "\<exists>s'. lindex fx key index s = (Inr (redis_index (sint index) xs), s') \<and> good s' \<and> view s' = view s"
  using assms(1,2)
proof (cases rule: get_meta)
  case (absent s1 e)
  then show ?thesis by (simp add: lindex_def redis_index_def Let_def)
next
  case (present s1)
  let ?n = "int (length xs)"
  define len :: i64 where "len = word_of_int ?n"
  have len: "sint len = ?n" unfolding len_def by (rule sint_word_of_int64 [OF assms(3)])
  have diff: "word_of_int (h + ?n) - word_of_int h = len" by (simp add: len_def)
  define j where "j = (if sint index < 0 then len + index else index)"
  have j: "sint j = from_end (length xs) (sint index)"
    using sint_from_end [OF assms(3), of index] by (simp add: from_end_def j_def len_def)
  have body: "lindex fx key index s =
      (if xs = [] then (Inr None, s1)
       else if (sint index < 0 \<and> sint j < 0) \<or> (0 \<le> sint index \<and> ?n \<le> sint index) then (Inr None, s1)
       else case fx_get_bytes fx s1 (list_value_key key (word_of_int h + word_of_int (sint j))) of
              (Inr v, s2) \<Rightarrow> (Inr (Some v), s2) | (Inl _, s2) \<Rightarrow> (Inr None, s2))"
    by (simp only: lindex_def present(1) sum.case prod.case Let_def parse_build_metadata
        count_zero_iff [OF assms(2)] diff len j_def [symmetric] of_int_sint scast_id)
  show ?thesis
  proof (cases "0 \<le> sint j \<and> sint j < ?n")
    case True
    then have guard: "xs \<noteq> []" "\<not> ((sint index < 0 \<and> sint j < 0) \<or> (0 \<le> sint index \<and> ?n \<le> sint index))"
      by (auto simp: j from_end_def)
    define s2 where "s2 = snd (fx_get_bytes fx s1 (list_value_key key (word_of_int h + word_of_int (sint j))))"
    have "fx_get_bytes fx s1 (list_value_key key (word_of_int h + word_of_int (sint j))) = (Inr (xs ! nat (sint j)), s2)"
      using present list_at_entry [OF assms(2), of "sint j"] True by (intro prod_eqI) (simp_all add: s2_def)
    with guard have "lindex fx key index s = (Inr (Some (xs ! nat (sint j))), s2)"
      by (simp only: body if_False prod.case sum.case)
    moreover have "good s2" "view s2 = view s" using present by (simp_all add: s2_def)
    moreover have "redis_index (sint index) xs = Some (xs ! nat (sint j))"
      using True by (simp add: redis_index_def Let_def j)
    ultimately show ?thesis by simp
  next
    case False
    then have "redis_index (sint index) xs = None" by (auto simp: redis_index_def Let_def j)
    moreover have "lindex fx key index s = (Inr None, s1)"
      using False by (auto simp: body j from_end_def)
    ultimately show ?thesis using present by simp
  qed
qed

end

section \<open>A store that does not cooperate\<close>

text \<open>
  When the metadata can be neither read nor created (no memory left), \<open>LPUSH\<close> and \<open>RPUSH\<close>
  repeat their loop for ever: that branch counts no retry.
\<close>

definition push_stuck :: "'s feox \<Rightarrow> bytes \<Rightarrow> 's set \<Rightarrow> bool" where
  "push_stuck fx key S \<longleftrightarrow> (\<forall>s \<in> S. fst (open_metadata fx key s) = None \<and> snd (open_metadata fx key s) \<in> S)"

lemma lpush_returns_not_stuck:
  assumes "lpush_loop fx key v r s = Some y"
  shows "push_stuck fx key S \<longrightarrow> s \<notin> S"
  apply (rule lpush_loop.raw_induct [where P = "\<lambda>fx key v r s y. push_stuck fx key S \<longrightarrow> s \<notin> S", OF _ assms])
  apply (intro impI notI)
  subgoal premises p for push fx key v r s y
  proof -
    from p(3,4) obtain s1 where "open_metadata fx key s = (None, s1)" "s1 \<in> S"
      by (metis push_stuck_def prod.collapse)
    with p show False by auto
  qed
  done

lemma lpush_loop_stuck:
  assumes "push_stuck fx key S" and "s \<in> S"
  shows "lpush_loop fx key v r s = None"
proof (cases "lpush_loop fx key v r s")
  case (Some y)
  from lpush_returns_not_stuck [OF this] assms show ?thesis by blast
qed

lemma rpush_returns_not_stuck:
  assumes "rpush_loop fx key v r s = Some y"
  shows "push_stuck fx key S \<longrightarrow> s \<notin> S"
  apply (rule rpush_loop.raw_induct [where P = "\<lambda>fx key v r s y. push_stuck fx key S \<longrightarrow> s \<notin> S", OF _ assms])
  apply (intro impI notI)
  subgoal premises p for push fx key v r s y
  proof -
    from p(3,4) obtain s1 where "open_metadata fx key s = (None, s1)" "s1 \<in> S"
      by (metis push_stuck_def prod.collapse)
    with p show False by auto
  qed
  done

lemma rpush_loop_stuck:
  assumes "push_stuck fx key S" and "s \<in> S"
  shows "rpush_loop fx key v r s = None"
proof (cases "rpush_loop fx key v r s")
  case (Some y)
  from rpush_returns_not_stuck [OF this] assms show ?thesis by blast
qed

text \<open>When every swap is lost, a push gives up: it returns the contention error.\<close>

definition always_raced :: "'s feox \<Rightarrow> bytes \<Rightarrow> 's set \<Rightarrow> bool" where
  "always_raced fx key S \<longleftrightarrow> (\<forall>s \<in> S. \<exists>mb s1. fx_get_bytes fx s (list_meta_key key) = (Inr mb, s1) \<and>
     (\<forall>e n. \<exists>s2 \<in> S. fx_compare_and_swap fx s1 (list_meta_key key) e n = (Inr False, s2)))"

lemma lpush_loop_raced:
  assumes "always_raced fx key S" and "s \<in> S" and "r < MAX_RETRIES"
  shows "\<exists>s' \<in> S. lpush_loop fx key v r s = Some (Inl contention, s')"
  using assms(2,3)
proof (induction "MAX_RETRIES - r" arbitrary: r s)
  case (Suc n)
  from assms(1) Suc.prems(1) obtain mb s1 where s1: "fx_get_bytes fx s (list_meta_key key) = (Inr mb, s1)"
    "\<forall>e n. \<exists>s2 \<in> S. fx_compare_and_swap fx s1 (list_meta_key key) e n = (Inr False, s2)"
    unfolding always_raced_def by blast
  obtain h t c where meta: "parse_metadata mb = (h, t, c)" by (cases "parse_metadata mb")
  from s1(2) obtain s2 where s2: "s2 \<in> S" "fx_compare_and_swap fx s1 (list_meta_key key) mb
      (build_metadata (h - 1) (if c = 0 then h else t) (c + 1)) = (Inr False, s2)" by blast
  have step: "lpush_loop fx key v r s = (if MAX_RETRIES \<le> r + 1 then Some (Inl contention, s2)
      else lpush_loop fx key v (r + 1) s2)"
    using s1(1) s2(2) meta by (subst lpush_loop.simps) (simp add: open_metadata_def commit_metadata_def Let_def)
  show ?case
  proof (cases "MAX_RETRIES \<le> r + 1")
    case False
    then show ?thesis using Suc.hyps(1) [of "r + 1" s2] Suc.hyps(2) s2(1) step by auto
  qed (use step s2 in auto)
qed simp

end
