(* ===== verification/Hash_Spec.thy ===== *)
theory Hash_Spec
  imports Hash_Ops "HOL-Library.Multiset"
begin

text \<open>
  What the hash commands promise for hashes whose names hold no colon (a field key of one
  hash may otherwise be a field or metadata key of another, see \<open>hash_field_key_clash\<close>).
  \<open>hash_map m key\<close> is the map from fields to values that the store content \<open>m\<close>
  represents; \<open>counts_ok\<close> says that stored count plus pending update is the count of each
  hash, and \<open>hashes_ok\<close> that this count is the number of its fields.
\<close>

section \<open>Names\<close>

definition plain_name :: "bytes \<Rightarrow> bool" where
  "plain_name key \<longleftrightarrow> CHR '':'' \<notin> set key"

lemma first_colon_unique:
  "c \<notin> set a \<Longrightarrow> c \<notin> set b \<Longrightarrow> a @ c # x = b @ c # y \<longleftrightarrow> a = b \<and> x = y"
proof (induction a arbitrary: b)
  case (Cons d a)
  then show ?case by (cases b) auto
qed (auto simp: Cons_eq_append_conv)

lemma hash_field_key_eq [simp]: "hash_field_key key f = hash_field_key key g \<longleftrightarrow> f = g"
  by (simp add: hash_field_key_def)

lemma hash_field_key_plain:
  "plain_name a \<Longrightarrow> plain_name b \<Longrightarrow> hash_field_key a f = hash_field_key b g \<longleftrightarrow> a = b \<and> f = g"
  by (auto simp: plain_name_def hash_field_key_def hash_prefix_def first_colon_unique)

lemma hash_meta_key_plain [simp]:
  "plain_name a \<Longrightarrow> plain_name b \<Longrightarrow> hash_meta_key a = hash_meta_key b \<longleftrightarrow> a = b"
  by (auto simp: plain_name_def hash_meta_key_def first_colon_unique)

lemma hash_meta_not_field [simp]:
  assumes "plain_name a" and "plain_name b"
  shows "hash_meta_key a \<noteq> hash_field_key b f" "hash_field_key b f \<noteq> hash_meta_key a"
  using assms by (auto simp: plain_name_def hash_meta_key_def hash_field_key_def hash_prefix_def first_colon_unique)

lemma hash_field_key_clash: "hash_field_key ''a'' (''x:f:'' @ f) = hash_field_key ''a:f:x'' f"
  by (simp add: hash_field_key_def hash_prefix_def)

section \<open>The represented hash\<close>

definition hash_map :: "(bytes \<Rightarrow> bytes option) \<Rightarrow> bytes \<Rightarrow> bytes \<Rightarrow> bytes option" where
  "hash_map m key f = m (hash_field_key key f)"

abbreviation hash_size :: "(bytes \<Rightarrow> bytes option) \<Rightarrow> bytes \<Rightarrow> nat" where
  "hash_size m key \<equiv> card (dom (hash_map m key))"

lemma hash_map_upd: "hash_map (m(hash_field_key key f := v)) key = (hash_map m key)(f := v)"
  by (auto simp: hash_map_def)

lemma hash_dom_image: "hash_field_key key ` dom (hash_map m key) \<subseteq> dom m"
  by (auto simp: hash_map_def)

lemma finite_hash_map: "finite (dom m) \<Longrightarrow> finite (dom (hash_map m key))"
  using hash_dom_image by (rule finite_imageD [OF finite_subset]) (auto simp: inj_on_def)

lemma hash_size_le: "finite (dom m) \<Longrightarrow> hash_size m key \<le> card (dom m)"
  using card_inj_on_le [OF _ hash_dom_image, of key m] by (auto simp: inj_on_def)

text \<open>A change of fields of one hash grows the store by the new fields at most.\<close>

lemma dom_field_bound:
  assumes "finite (dom m)" and "\<And>k. (\<And>f. k \<noteq> hash_field_key key f) \<Longrightarrow> m' k = m k"
    and "dom (hash_map m' key) \<subseteq> dom (hash_map m key) \<union> A" and "finite A"
  shows "card (dom m') \<le> card (dom m) + card A"
proof -
  have "dom m' \<subseteq> dom m \<union> hash_field_key key ` A"
  proof
    fix k assume k: "k \<in> dom m'"
    show "k \<in> dom m \<union> hash_field_key key ` A"
    proof (cases "\<exists>f. k = hash_field_key key f")
      case True
      then obtain f where f: "k = hash_field_key key f" by blast
      with k have "f \<in> dom (hash_map m' key)" by (auto simp: hash_map_def)
      with assms(3) have "f \<in> dom (hash_map m key) \<union> A" by blast
      with f show ?thesis by (auto simp: hash_map_def)
    next
      case False
      with k assms(2) [of k] show ?thesis by auto
    qed
  qed
  then have "card (dom m') \<le> card (dom m \<union> hash_field_key key ` A)"
    using assms(1,4) by (intro card_mono) auto
  also have "\<dots> \<le> card (dom m) + card A"
    using card_Un_le card_image_le [OF assms(4)] by (metis add_left_mono order_trans)
  finally show ?thesis .
qed

definition hash_writable :: "(bytes \<Rightarrow> bytes \<Rightarrow> bool) \<Rightarrow> bool" where
  "hash_writable accepts \<longleftrightarrow> (\<forall>k v. starts_with k ''H:'' \<longrightarrow> accepts k v)"

lemma hash_writable_accepts [simp]:
  assumes "hash_writable accepts"
  shows "accepts (hash_field_key key f) v" "accepts (hash_meta_key key) v"
  using assms by (auto simp: hash_writable_def hash_field_key_def hash_prefix_def hash_meta_key_def starts_with_def)

section \<open>Counting\<close>

definition counter :: "(bytes \<Rightarrow> bytes option) \<Rightarrow> bytes \<Rightarrow> i64" where
  "counter m k = (case m k of None \<Rightarrow> 0 | Some b \<Rightarrow> from_le_bytes b)"

definition pending_for :: "tracker \<Rightarrow> bytes \<Rightarrow> i64" where
  "pending_for tr k = (case map_of (pending_updates tr) k of None \<Rightarrow> 0 | Some d \<Rightarrow> d)"

definition counted :: "tracker \<Rightarrow> (bytes \<Rightarrow> bytes option) \<Rightarrow> bytes \<Rightarrow> nat \<Rightarrow> bool" where
  "counted tr m k n \<longleftrightarrow> n < 2 ^ 63 \<and> (\<forall>b. m k = Some b \<longrightarrow> length b = 8) \<and>
     0 \<le> sint (counter m k) \<and> sint (counter m k) + sint (pending_for tr k) = int n"

definition counts_ok :: "tracker \<Rightarrow> (bytes \<Rightarrow> bytes option) \<Rightarrow> (bytes \<Rightarrow> nat) \<Rightarrow> bool" where
  "counts_ok tr m cnt \<longleftrightarrow> distinct (map fst (pending_updates tr)) \<and>
     fst ` set (pending_updates tr) \<subseteq> hash_meta_key ` {key. plain_name key} \<and>
     (\<forall>key. plain_name key \<longrightarrow> counted tr m (hash_meta_key key) (cnt key))"

definition hashes_ok :: "tracker \<Rightarrow> (bytes \<Rightarrow> bytes option) \<Rightarrow> bool" where
  "hashes_ok tr m \<longleftrightarrow> counts_ok tr m (hash_size m)"

lemma add_entry_keys: "fst ` set (add_entry k d es) = insert k (fst ` set es)"
  by (induction k d es rule: add_entry.induct) auto

lemma distinct_add_entry: "distinct (map fst es) \<Longrightarrow> distinct (map fst (add_entry k d es))"
  by (induction k d es rule: add_entry.induct) (simp_all add: add_entry_keys, blast)

lemma map_of_add_entry:
  "map_of (add_entry k d es) = (map_of es)(k \<mapsto> (case map_of es k of None \<Rightarrow> 0 | Some e \<Rightarrow> e) + d)"
  by (induction k d es rule: add_entry.induct) (auto simp: fun_eq_iff)

lemma pending_for_add_update:
  "pending_for (add_update k d tr) j = (if j = k then pending_for tr k + d else pending_for tr j)"
  by (simp add: pending_for_def add_update_def map_of_add_entry)

lemma counts_ok_cong:
  assumes "\<And>key. plain_name key \<Longrightarrow> m' (hash_meta_key key) = m (hash_meta_key key)"
    and "\<And>key. plain_name key \<Longrightarrow> cnt' key = cnt key"
  shows "counts_ok tr m' cnt' = counts_ok tr m cnt"
  using assms by (simp add: counts_ok_def counted_def counter_def)

lemma counts_ok_add_update:
  assumes "counts_ok tr m cnt" and "plain_name key" and "n < 2 ^ 63" and "sint d = int n - int (cnt key)"
  shows "counts_ok (add_update (hash_meta_key key) d tr) m (cnt(key := n))"
proof -
  let ?k = "hash_meta_key key"
  have old: "counted tr m ?k (cnt key)" using assms(1,2) by (simp add: counts_ok_def)
  then have sum: "sint (pending_for tr ?k) + sint d = int n - sint (counter m ?k)"
    using assms(4) by (simp add: counted_def)
  moreover have "in_i64 (int n - sint (counter m ?k))"
    using old assms(3) sint_range64 [of "counter m ?k"] by (auto simp: counted_def in_i64_def)
  ultimately have "sint (pending_for tr ?k + d) = int n - sint (counter m ?k)"
    by (metis sint_add64)
  then have "counted (add_update ?k d tr) m ?k n"
    using old assms(3) by (simp add: counted_def pending_for_add_update)
  moreover have "counted (add_update ?k d tr) m (hash_meta_key j) (cnt j)" if "plain_name j" "j \<noteq> key" for j
    using assms(1,2) that by (simp add: counts_ok_def counted_def pending_for_add_update)
  ultimately show ?thesis
    using assms(1,2) by (auto simp: counts_ok_def add_update_def distinct_add_entry add_entry_keys)
qed

section \<open>Flushing\<close>

definition flushed :: "(bytes \<times> i64) list \<Rightarrow> (bytes \<Rightarrow> bytes option) \<Rightarrow> bytes \<Rightarrow> bytes option" where
  "flushed us m k = (case map_of us k of
     None \<Rightarrow> m k | Some d \<Rightarrow> if d = 0 then m k else Some (to_le_bytes (counter m k + d)))"

definition incr_ok :: "(bytes \<Rightarrow> bytes option) \<Rightarrow> bytes \<times> i64 \<Rightarrow> bool" where
  "incr_ok m = (\<lambda>(k, d). (\<forall>b. m k = Some b \<longrightarrow> length b = 8) \<and> in_i64 (sint (counter m k) + sint d))"

lemma counts_ok_flushed:
  assumes "counts_ok tr m cnt"
  shows "counts_ok (snd (take_updates now tr)) (flushed (pending_updates tr) m) cnt"
proof -
  have "counted (snd (take_updates now tr)) (flushed (pending_updates tr) m) k n"
    if old: "counted tr m k n" for k n
  proof -
    have "sint (counter m k + pending_for tr k) = int n"
      using old by (subst sint_add64) (auto simp: counted_def in_i64_def)
    with old show ?thesis
      by (auto simp: counted_def flushed_def counter_def pending_for_def take_updates_def split: option.splits)
  qed
  with assms show ?thesis by (auto simp: counts_ok_def take_updates_def)
qed

lemma counts_ok_incr_ok:
  assumes "counts_ok tr m cnt" and "u \<in> set (pending_updates tr)"
  shows "incr_ok m u"
proof -
  obtain k d where u: "u = (k, d)" by force
  from assms u obtain key where key: "plain_name key" "k = hash_meta_key key" by (force simp: counts_ok_def)
  with assms(1) have "counted tr m k (cnt key)" by (simp add: counts_ok_def)
  moreover have "pending_for tr k = d"
    using assms u by (auto simp: counts_ok_def pending_for_def map_of_is_SomeI)
  ultimately show ?thesis by (auto simp: incr_ok_def u counted_def in_i64_def)
qed

lemma flushed_field:
  assumes "counts_ok tr m cnt" and "plain_name key"
  shows "hash_map (flushed (pending_updates tr) m) key = hash_map m key"
proof
  fix f
  have "hash_field_key key f \<notin> fst ` set (pending_updates tr)"
    using assms hash_meta_not_field by (auto simp: counts_ok_def)
  then have "map_of (pending_updates tr) (hash_field_key key f) = None" by (simp add: map_of_eq_None_iff)
  then show "hash_map (flushed (pending_updates tr) m) key f = hash_map m key f"
    by (simp add: hash_map_def flushed_def)
qed

context feox_store
begin

lemma increment_spec:
  assumes "good s" and "incr_ok (view s) (k, d)" and "\<And>v. accepts k v"
  shows "view (snd (fx_atomic_increment fx s k d)) = (view s)(k \<mapsto> to_le_bytes (counter (view s) k + d))"
  using assms increment_new [of s k d] increment_counter [of s k _ d]
  by (cases "view s k") (auto simp: incr_ok_def counter_def)

lemma flush_updates_spec:
  assumes "good s" and "distinct (map fst us)" and "\<And>u. u \<in> set us \<Longrightarrow> incr_ok (view s) u"
    and "\<And>k d v. (k, d) \<in> set us \<Longrightarrow> accepts k v"
  shows "good (flush_updates fx us s) \<and> view (flush_updates fx us s) = flushed us (view s)"
  using assms
proof (induction us arbitrary: s)
  case (Cons u us)
  obtain k d where u: "u = (k, d)" by force
  define s1 where "s1 = (if d \<noteq> 0 then snd (fx_atomic_increment fx s k d) else s)"
  have k: "k \<notin> fst ` set us" using Cons.prems(2) u by simp
  have inc: "incr_ok (view s) (k, d)" using Cons.prems(3) [of u] u by simp
  have acc: "accepts k v" for v using Cons.prems(4) [of k d v] u by simp
  have good: "good s1" using Cons.prems(1) by (simp add: s1_def)
  have view: "view s1 = (if d = 0 then view s else (view s)(k \<mapsto> to_le_bytes (counter (view s) k + d)))"
    using increment_spec [OF Cons.prems(1) inc acc] by (simp add: s1_def)
  have ok: "incr_ok (view s1) u'" if "u' \<in> set us" for u'
  proof -
    have "fst u' \<noteq> k" using k that by force
    with Cons.prems(3) [of u'] that show ?thesis by (auto simp: incr_ok_def view counter_def)
  qed
  have "good (flush_updates fx us s1) \<and> view (flush_updates fx us s1) = flushed us (view s1)"
    using Cons.IH [OF good _ ok] Cons.prems(2,4) by auto
  moreover have "flushed us (view s1) = flushed (u # us) (view s)"
  proof
    fix j
    have "map_of us k = None" using k by (simp add: map_of_eq_None_iff)
    then show "flushed us (view s1) j = flushed (u # us) (view s) j"
      by (auto simp: flushed_def u view counter_def split: option.splits)
  qed
  ultimately show ?case by (simp add: u flip: s1_def)
qed (simp add: flushed_def fun_eq_iff)

lemma flush_order:
  assumes "good s" and "distinct (map fst us)" and "\<And>u. u \<in> set us \<Longrightarrow> incr_ok (view s) u"
    and "\<And>k d v. (k, d) \<in> set us \<Longrightarrow> accepts k v" and "mset us' = mset us"
  shows "view (flush_updates fx us' s) = view (flush_updates fx us s)"
proof -
  have "set us' = set us" using assms(5) by (rule mset_eq_setD)
  moreover from assms(2,5) have "distinct (map fst us')"
    by (metis mset_eq_imp_distinct_iff mset_map)
  moreover from this have "map_of us' = map_of us"
    using assms(2) calculation(1) by (intro map_of_eqI) (auto simp: map_of_eq_None_iff)
  ultimately show ?thesis
    using flush_updates_spec [OF assms(1,2,3,4)] flush_updates_spec [OF assms(1), of us'] assms(3,4)
    by (simp add: flushed_def fun_eq_iff)
qed

section \<open>The commands\<close>

lemma flush_metadata_spec:
  assumes "good s" and "hash_writable accepts" and "counts_ok tr (view s) cnt"
  shows "\<exists>tr' s'. flush_metadata fx now tr s = (tr', s') \<and> good s' \<and> counts_ok tr' (view s') cnt \<and>
     pending_updates tr' = [] \<and> (\<forall>key. plain_name key \<longrightarrow> hash_map (view s') key = hash_map (view s) key)"
proof -
  have "good (flush_updates fx (pending_updates tr) s) \<and>
      view (flush_updates fx (pending_updates tr) s) = flushed (pending_updates tr) (view s)"
  proof (rule flush_updates_spec)
    show "distinct (map fst (pending_updates tr))" using assms(3) by (simp add: counts_ok_def)
    show "incr_ok (view s) u" if "u \<in> set (pending_updates tr)" for u
      using counts_ok_incr_ok [OF assms(3) that] .
    show "accepts k v" if "(k, d) \<in> set (pending_updates tr)" for k d v
      using assms(2,3) that by (force simp: counts_ok_def)
  qed (rule assms(1))
  then show ?thesis
    using counts_ok_flushed [OF assms(3), of now] flushed_field [OF assms(3)]
    by (simp add: flush_metadata_def take_updates_def)
qed

lemma maybe_flush_metadata_spec:
  assumes "good s" and "hash_writable accepts" and "counts_ok tr (view s) cnt"
  shows "\<exists>tr' s'. maybe_flush_metadata fx now tr s = (tr', s') \<and> good s' \<and> counts_ok tr' (view s') cnt \<and>
     (\<forall>key. plain_name key \<longrightarrow> hash_map (view s') key = hash_map (view s) key)"
  using flush_metadata_spec [OF assms, of now] assms by (auto simp: maybe_flush_metadata_def)

lemma hset_fields_spec:
  assumes "good s" and "hash_writable accepts"
  shows "\<exists>s'. hset_fields fx key flds n s =
       (Inr (n + word_of_nat (card (fst ` set flds - dom (hash_map (view s) key)))), s') \<and> good s' \<and>
     hash_map (view s') key = hash_map (view s) key ++ map_of (rev flds) \<and>
     (\<forall>k. (\<forall>f. k \<noteq> hash_field_key key f) \<longrightarrow> view s' k = view s k)"
  using assms(1)
proof (induction flds arbitrary: n s)
  case (Cons fv flds)
  obtain f v where fv: "fv = (f, v)" by force
  let ?k = "hash_field_key key f" and ?H = "dom (hash_map (view s) key)"
  define s1 where "s1 = snd (fx_insert fx s ?k v)"
  have s1: "good s1" "view s1 = (view s)(?k \<mapsto> v)"
    using Cons.prems assms(2) by (simp_all add: s1_def)
  have ins: "fx_insert_bytes fx s ?k v = (Inr (f \<notin> ?H), s1)"
    using Cons.prems assms(2) by (intro prod_eqI) (auto simp: s1_def hash_map_def)
  have "word_of_nat (card (fst ` set (fv # flds) - ?H)) =
      (if f \<notin> ?H then 1 else 0) + (word_of_nat (card (fst ` set flds - insert f ?H)) :: i64)"
  proof (cases "f \<in> ?H")
    case True
    then show ?thesis by (simp add: fv insert_absorb)
  next
    case False
    then have "fst ` set (fv # flds) - ?H = insert f (fst ` set flds - insert f ?H)" by (auto simp: fv)
    with False show ?thesis by simp
  qed
  moreover have "dom (hash_map (view s1) key) = insert f ?H" by (simp add: s1 hash_map_upd)
  moreover obtain s2 where "hset_fields fx key flds (if f \<notin> ?H then n + 1 else n) s1 =
       (Inr ((if f \<notin> ?H then n + 1 else n) + word_of_nat (card (fst ` set flds - dom (hash_map (view s1) key)))), s2)"
     "good s2" "hash_map (view s2) key = hash_map (view s1) key ++ map_of (rev flds)"
     "\<forall>k. (\<forall>f. k \<noteq> hash_field_key key f) \<longrightarrow> view s2 k = view s1 k"
    using Cons.IH [OF s1(1)] by blast
  ultimately show ?case
    using ins by (auto simp: fv s1 hash_map_upd map_add_def fun_eq_iff split: option.splits)
qed simp

lemma hash_map_frame:
  assumes "\<And>k. (\<And>f. k \<noteq> hash_field_key key f) \<Longrightarrow> m' k = m k" and "plain_name key" and "plain_name other" "other \<noteq> key"
  shows "hash_map m' other = hash_map m other"
  using assms by (auto simp: hash_map_def fun_eq_iff hash_field_key_plain)

lemma hashes_ok_change:
  assumes ok: "hashes_ok tr m" and key: "plain_name key" and fin: "finite (dom m')" "card (dom m') < 2 ^ 63"
    and frame: "\<And>k. (\<And>f. k \<noteq> hash_field_key key f) \<Longrightarrow> m' k = m k"
    and d: "sint d = int (hash_size m' key) - int (hash_size m key)"
  shows "counts_ok (add_update (hash_meta_key key) d tr) m' (hash_size m')"
    and "d = 0 \<Longrightarrow> counts_ok tr m' (hash_size m')"
proof -
  have meta: "m' (hash_meta_key j) = m (hash_meta_key j)" if "plain_name j" for j
    using frame key that by auto
  have other: "hash_size m' j = hash_size m j" if "plain_name j" "j \<noteq> key" for j
    using hash_map_frame [OF frame key that] by simp
  have "counts_ok (add_update (hash_meta_key key) d tr) m ((hash_size m)(key := hash_size m' key))"
    using ok key d hash_size_le [OF fin(1), of key] fin(2)
    by (intro counts_ok_add_update) (auto simp: hashes_ok_def)
  then show "counts_ok (add_update (hash_meta_key key) d tr) m' (hash_size m')"
    using counts_ok_cong [of m' m "hash_size m'" "(hash_size m)(key := hash_size m' key)"] meta other by simp
  show "counts_ok tr m' (hash_size m')" if "d = 0"
    using counts_ok_cong [of m' m "hash_size m'" "hash_size m"] meta other ok that d
    by (metis hashes_ok_def diff_0_eq_0 eq_iff_diff_eq_0 of_nat_eq_iff signed_0)
qed

lemma update_count_spec:
  assumes "good s1" and "hash_writable accepts" and ok: "hashes_ok tr m" and key: "plain_name key"
    and small: "card (dom (view s1)) < 2 ^ 63"
    and frame: "\<And>k. (\<And>f. k \<noteq> hash_field_key key f) \<Longrightarrow> view s1 k = m k"
    and d: "sint d = int (hash_size (view s1) key) - int (hash_size m key)"
  shows "\<exists>tr' s'. (if d \<noteq> 0 then maybe_flush_metadata fx now (add_update (hash_meta_key key) d tr) s1 else (tr, s1)) =
       (tr', s') \<and> good s' \<and> hashes_ok tr' (view s') \<and>
     (\<forall>j. plain_name j \<longrightarrow> hash_map (view s') j = (if j = key then hash_map (view s1) key else hash_map m j))"
proof -
  note change = hashes_ok_change [OF ok key finite_view [OF assms(1)] small frame d]
  have other: "hash_map (view s1) j = hash_map m j" if "plain_name j" "j \<noteq> key" for j
    using hash_map_frame [OF frame key that] .
  show ?thesis
  proof (cases "d = 0")
    case True
    then show ?thesis using change(2) assms(1) other by (auto simp: hashes_ok_def)
  next
    case False
    from maybe_flush_metadata_spec [OF assms(1,2) change(1), of now] obtain tr2 s2 where flush:
      "maybe_flush_metadata fx now (add_update (hash_meta_key key) d tr) s1 = (tr2, s2)"
      "good s2" "counts_ok tr2 (view s2) (hash_size (view s1))"
      "\<And>j. plain_name j \<Longrightarrow> hash_map (view s2) j = hash_map (view s1) j" by blast
    moreover have "hashes_ok tr2 (view s2)"
      using flush(3,4) counts_ok_cong [of "view s2" "view s2" "hash_size (view s2)" "hash_size (view s1)"]
      by (simp add: hashes_ok_def)
    ultimately show ?thesis using False other by auto
  qed
qed

lemma hset_spec:
  assumes "good s" and "hash_writable accepts" and "plain_name key" and "hashes_ok tr (view s)"
    and small: "card (dom (view s)) + length flds < 2 ^ 63"
  defines "fresh \<equiv> card (fst ` set flds - dom (hash_map (view s) key))"
  shows "\<exists>tr' s'. hset fx now key flds tr s = (Inr (word_of_nat fresh), tr', s') \<and> good s' \<and>
     hashes_ok tr' (view s') \<and> hash_map (view s') key = hash_map (view s) key ++ map_of (rev flds) \<and>
     (\<forall>other. plain_name other \<longrightarrow> other \<noteq> key \<longrightarrow> hash_map (view s') other = hash_map (view s) other)"
proof -
  let ?H = "dom (hash_map (view s) key)"
  from hset_fields_spec [OF assms(1,2), of key flds 0] obtain s1 where
    run: "hset_fields fx key flds 0 s = (Inr (word_of_nat fresh), s1)" and good: "good s1"
    and content: "hash_map (view s1) key = hash_map (view s) key ++ map_of (rev flds)"
    and frame: "\<And>k. (\<And>f. k \<noteq> hash_field_key key f) \<Longrightarrow> view s1 k = view s k"
    by (auto simp: fresh_def)
  have dom: "dom (hash_map (view s1) key) = ?H \<union> fst ` set flds"
    by (simp add: content dom_map_of_conv_image_fst Un_commute)
  have "finite ?H" using assms(1) by (simp add: finite_hash_map)
  then have size: "hash_size (view s1) key = hash_size (view s) key + fresh"
    unfolding dom fresh_def by (subst card_Un_disjoint [symmetric]) (auto intro: arg_cong [where f = card])
  have names: "card (fst ` set flds) \<le> length flds" by (metis card_length image_set length_map)
  have "fresh \<le> card (fst ` set flds)" unfolding fresh_def by (intro card_mono) auto
  then have "fresh < 2 ^ 63" using names small by linarith
  then have sint: "sint (word_of_nat fresh :: i64) = int fresh"
    using sint_word_of_int64 [of "int fresh"] by (simp add: in_i64_def)
  have "card (dom (view s1)) < 2 ^ 63"
    using dom_field_bound [OF finite_view [OF assms(1)] frame dom [THEN equalityD1]] names small by simp
  then obtain tr2 s2 where upd:
    "(if (word_of_nat fresh :: i64) \<noteq> 0 then maybe_flush_metadata fx now (add_update (hash_meta_key key) (word_of_nat fresh) tr) s1
      else (tr, s1)) = (tr2, s2)" "good s2" "hashes_ok tr2 (view s2)"
    "\<And>j. plain_name j \<Longrightarrow> hash_map (view s2) j = (if j = key then hash_map (view s1) key else hash_map (view s) j)"
    using update_count_spec [OF good assms(2,4,3) _ frame, of "word_of_nat fresh" now] sint size by auto
  have "hset fx now key flds tr s = (Inr (word_of_nat fresh), tr2, s2)"
    using run sint upd(1) by (auto simp: hset_def split: if_splits)
  then show ?thesis using upd content assms(3) by auto
qed

lemma hdel_fields_spec:
  assumes "good s"
  shows "\<exists>s'. hdel_fields fx key flds n s = (n + word_of_nat (card (set flds \<inter> dom (hash_map (view s) key))), s') \<and>
     good s' \<and> hash_map (view s') key = (hash_map (view s) key) |` (- set flds) \<and>
     (\<forall>k. (\<forall>f. k \<noteq> hash_field_key key f) \<longrightarrow> view s' k = view s k)"
  using assms(1)
proof (induction flds arbitrary: n s)
  case (Cons f flds)
  let ?k = "hash_field_key key f" and ?H = "dom (hash_map (view s) key)"
  define s1 where "s1 = snd (fx_delete fx s ?k)"
  have s1: "good s1" "view s1 = (view s)(?k := None)" using Cons.prems by (simp_all add: s1_def)
  have del: "fx_delete fx s ?k = (if f \<in> ?H then Inr () else Inl KeyNotFound, s1)"
    using Cons.prems by (intro prod_eqI) (auto simp: s1_def hash_map_def found_def split: option.splits)
  have dom: "dom (hash_map (view s1) key) = ?H - {f}" by (simp add: s1 hash_map_upd)
  have "word_of_nat (card (set (f # flds) \<inter> ?H)) =
      (if f \<in> ?H then 1 else 0) + (word_of_nat (card (set flds \<inter> (?H - {f}))) :: i64)"
  proof (cases "f \<in> ?H")
    case True
    then have "set (f # flds) \<inter> ?H = insert f (set flds \<inter> (?H - {f}))" by auto
    with True show ?thesis by simp
  next
    case False
    then have "set (f # flds) \<inter> ?H = set flds \<inter> (?H - {f})" by auto
    with False show ?thesis by (simp only: if_False add_0)
  qed
  note number = this
  obtain s2 where s2: "hdel_fields fx key flds (if f \<in> ?H then n + 1 else n) s1 =
       ((if f \<in> ?H then n + 1 else n) + word_of_nat (card (set flds \<inter> (?H - {f}))), s2)"
     "good s2" "hash_map (view s2) key = (hash_map (view s1) key) |` (- set flds)"
     "\<forall>k. (\<forall>f. k \<noteq> hash_field_key key f) \<longrightarrow> view s2 k = view s1 k"
    using Cons.IH [OF s1(1)] unfolding dom by blast
  have "hdel_fields fx key (f # flds) n s =
      (n + word_of_nat (card (set (f # flds) \<inter> ?H)), s2)"
    using del s2(1) by (simp only: number) (simp split: if_splits)
  moreover have "hash_map (view s2) key = hash_map (view s) key |` (- set (f # flds))"
    by (auto simp: s2(3) s1 hash_map_upd restrict_map_def)
  ultimately show ?case using s2(2,4) by (auto simp: s1)
qed (simp add: restrict_map_def)

lemma hdel_spec:
  fixes flds :: "bytes list"
  assumes "good s" and "hash_writable accepts" and "plain_name key" and "hashes_ok tr (view s)"
    and small: "card (dom (view s)) < 2 ^ 63"
  defines "gone \<equiv> card (set flds \<inter> dom (hash_map (view s) key))"
  shows "\<exists>tr' s'. hdel fx now key flds tr s = (Inr (word_of_nat gone), tr', s') \<and> good s' \<and>
     hashes_ok tr' (view s') \<and> hash_map (view s') key = (hash_map (view s) key) |` (- set flds) \<and>
     (\<forall>other. plain_name other \<longrightarrow> other \<noteq> key \<longrightarrow> hash_map (view s') other = hash_map (view s) other)"
proof (cases "flds = []")
  case True
  then show ?thesis using assms(1,4) by (simp add: hdel_def gone_def restrict_map_def)
next
  case False
  let ?H = "dom (hash_map (view s) key)"
  from hdel_fields_spec [OF assms(1), of key flds 0] obtain s1 where
    run: "hdel_fields fx key flds 0 s = (word_of_nat gone, s1)" and good: "good s1"
    and content: "hash_map (view s1) key = (hash_map (view s) key) |` (- set flds)"
    and frame: "\<And>k. (\<And>f. k \<noteq> hash_field_key key f) \<Longrightarrow> view s1 k = view s k"
    by (auto simp: gone_def)
  have finH: "finite ?H" using assms(1) by (simp add: finite_hash_map)
  have dom: "dom (hash_map (view s1) key) = ?H - (set flds \<inter> ?H)" by (auto simp: content)
  have gone_le: "gone \<le> card ?H" unfolding gone_def using finH by (intro card_mono) auto
  have size: "int (hash_size (view s1) key) = int (hash_size (view s) key) - int gone"
    unfolding dom using gone_le finH by (subst card_Diff_subset) (auto simp: gone_def)
  have "gone < 2 ^ 63" using gone_le hash_size_le [of "view s" key] assms(1) small by simp
  then have sint: "sint (word_of_nat gone :: i64) = int gone" "sint (- word_of_nat gone :: i64) = - int gone"
    using sint_word_of_int64 [of "int gone"] sint_word_of_int64 [of "- int gone"] by (simp_all add: in_i64_def)
  have "dom (hash_map (view s1) key) \<subseteq> ?H \<union> {}" using dom by auto
  from dom_field_bound [OF finite_view [OF assms(1)] frame this] small
  have "card (dom (view s1)) < 2 ^ 63" by simp
  then obtain tr2 s2 where upd:
    "(if - (word_of_nat gone :: i64) \<noteq> 0 then maybe_flush_metadata fx now (add_update (hash_meta_key key) (- word_of_nat gone) tr) s1
      else (tr, s1)) = (tr2, s2)" "good s2" "hashes_ok tr2 (view s2)"
    "\<And>j. plain_name j \<Longrightarrow> hash_map (view s2) j = (if j = key then hash_map (view s1) key else hash_map (view s) j)"
    using update_count_spec [OF good assms(2,4,3) _ frame, of "- word_of_nat gone" now] sint size by auto
  have "(0 < sint (word_of_nat gone :: i64)) = (- (word_of_nat gone :: i64) \<noteq> 0)"
    using sint(1) by (cases "gone = 0") auto
  then have "hdel fx now key flds tr s = (Inr (word_of_nat gone), tr2, s2)"
    using run upd(1) False by (simp add: hdel_def split: if_splits)
  then show ?thesis using upd content assms(3) by auto
qed

lemma hget_spec:
  assumes "good s"
  shows "\<exists>s'. hget fx key f s = (Inr (hash_map (view s) key f), s') \<and> good s' \<and> view s' = view s"
  by (rule get_run [OF assms, of "hash_field_key key f"])
    (cases "hash_map (view s) key f"; simp add: hget_def hash_map_def)

lemma hmget_spec:
  assumes "good s"
  shows "\<exists>s'. hmget fx key fs s = (Inr (map (hash_map (view s) key) fs), s') \<and> good s' \<and> view s' = view s"
  using assms
proof (induction fs arbitrary: s)
  case (Cons f fs)
  from hget_spec [OF Cons.prems, of key f] obtain s1 where
    s1: "hget fx key f s = (Inr (hash_map (view s) key f), s1)" "good s1" "view s1 = view s" by blast
  from Cons.IH [OF s1(2)] s1 show ?case by auto
qed simp

lemma hexists_spec:
  assumes "good s"
  shows "\<exists>s'. hexists fx key f s = (Inr (f \<in> dom (hash_map (view s) key)), s') \<and> good s' \<and> view s' = view s"
  by (rule contains_run [OF assms, of "hash_field_key key f"]) (simp add: hexists_def hash_map_def domIff)

lemma hlen_spec:
  assumes "good s" and "hash_writable accepts" and "plain_name key" and "hashes_ok tr (view s)"
  shows "\<exists>tr' s'. hlen fx now key tr s = (Inr (word_of_nat (hash_size (view s) key)), tr', s') \<and> good s' \<and>
     hashes_ok tr' (view s') \<and> (\<forall>j. plain_name j \<longrightarrow> hash_map (view s') j = hash_map (view s) j)"
proof -
  let ?k = "hash_meta_key key"
  from flush_metadata_spec [OF assms(1,2), of tr "hash_size (view s)" now] assms(4) obtain tr1 s1 where flush:
    "flush_metadata fx now tr s = (tr1, s1)" "good s1" "counts_ok tr1 (view s1) (hash_size (view s))"
    "pending_updates tr1 = []" "\<And>j. plain_name j \<Longrightarrow> hash_map (view s1) j = hash_map (view s) j"
    unfolding hashes_ok_def by blast
  define s2 where "s2 = snd (fx_get_bytes fx s1 ?k)"
  have s2: "good s2" "view s2 = view s1" using flush(2) by (simp_all add: s2_def)
  have get: "fx_get_bytes fx s1 ?k = (found (view s1 ?k), s2)"
    using flush(2) by (intro prod_eqI) (simp_all add: s2_def)
  have "counted tr1 (view s1) ?k (hash_size (view s) key)"
    using flush(3) assms(3) by (simp add: counts_ok_def)
  then have sint: "sint (counter (view s1) ?k) = int (hash_size (view s) key)"
    and len: "\<And>b. view s1 ?k = Some b \<Longrightarrow> length b = 8"
    by (auto simp: counted_def pending_for_def flush(4))
  from sint have "counter (view s1) ?k = word_of_nat (hash_size (view s) key)"
    by (metis of_int_of_nat_eq of_int_sint scast_id)
  then have "hlen fx now key tr s = (Inr (word_of_nat (hash_size (view s) key)), tr1, s2)"
    using flush(1) get len
    by (cases "view s1 ?k") (auto simp: hlen_def hash_parse_metadata_def counter_def)
  moreover have "hashes_ok tr1 (view s2)"
    using flush(3,5) s2 counts_ok_cong [of "view s2" "view s1" "hash_size (view s2)" "hash_size (view s)"]
    by (simp add: hashes_ok_def)
  ultimately show ?thesis using s2 flush(5) by auto
qed

lemma hashes_ok_insert:
  assumes "counts_ok tr m ((hash_size m)(key := card (insert f (dom (hash_map m key)))))" and "plain_name key"
  shows "hashes_ok tr (m(hash_field_key key f \<mapsto> v))"
proof -
  have "hash_size (m(hash_field_key key f \<mapsto> v)) j =
      ((hash_size m)(key := card (insert f (dom (hash_map m key))))) j" if "plain_name j" for j
    using that assms(2) hash_map_frame [of key "m(hash_field_key key f \<mapsto> v)" m j]
    by (auto simp: hash_map_upd)
  then show ?thesis
    using assms counts_ok_cong [of "m(hash_field_key key f \<mapsto> v)" m
        "hash_size (m(hash_field_key key f \<mapsto> v))"
        "(hash_size m)(key := card (insert f (dom (hash_map m key))))"]
    by (simp add: hashes_ok_def)
qed

lemma hincrby_spec:
  fixes f :: bytes and d :: i64
  assumes "good s" and "hash_writable accepts" and key: "plain_name key" and "hashes_ok tr (view s)"
    and small: "card (dom (view s)) + 1 < 2 ^ 63"
  defines "res \<equiv> (case hash_map (view s) key f of None \<Rightarrow> Inr d | Some b \<Rightarrow> hash_value_add b d)"
  shows "\<exists>tr' s'. hincrby fx now key f d tr s = (res, tr', s') \<and> good s' \<and> hashes_ok tr' (view s') \<and>
     hash_map (view s') key = (case res of Inl _ \<Rightarrow> hash_map (view s) key
       | Inr n \<Rightarrow> (hash_map (view s) key)(f \<mapsto> show_i64 n)) \<and>
     (\<forall>other. plain_name other \<longrightarrow> other \<noteq> key \<longrightarrow> hash_map (view s') other = hash_map (view s) other)"
proof -
  let ?k = "hash_field_key key f" and ?H = "dom (hash_map (view s) key)"
  from contains_run [OF assms(1), of ?k] obtain s1 where
    s1: "fx_contains_key fx s ?k = (f \<in> ?H, s1)" "good s1" "view s1 = view s"
    by (auto simp: hash_map_def domIff)
  have "\<exists>tr2 s2. (case (if f \<in> ?H
             then (case fx_get_bytes fx s1 ?k of
                     (Inr b, s2) \<Rightarrow> (hash_value_add b d, tr, s2)
                   | (Inl _, s2) \<Rightarrow> (Inr d, tr, s2))
             else (Inr d, maybe_flush_metadata fx now (add_update (hash_meta_key key) 1 tr) s1)) of x \<Rightarrow> x) =
       (res, tr2, s2) \<and> good s2 \<and>
     counts_ok tr2 (view s2) ((hash_size (view s2))(key := card (insert f (dom (hash_map (view s2) key))))) \<and>
     (\<forall>j. plain_name j \<longrightarrow> hash_map (view s2) j = hash_map (view s) j)"
  proof (cases "f \<in> ?H")
    case True
    then obtain b where b: "hash_map (view s) key f = Some b" by blast
    obtain s2 where s2: "fx_get_bytes fx s1 ?k = (found (hash_map (view s) key f), s2)" "good s2" "view s2 = view s"
      using s1 by (rule_tac get_run [of s1 ?k]) (simp_all add: hash_map_def)
    have "(hash_size (view s))(key := card (insert f ?H)) = hash_size (view s)"
      using True by (simp add: insert_absorb fun_upd_idem)
    with True b s2 assms(4) show ?thesis by (simp add: res_def hashes_ok_def)
  next
    case False
    have fin: "finite ?H" using assms(1) by (simp add: finite_hash_map)
    have "card (insert f ?H) < 2 ^ 63"
      using False fin hash_size_le [of "view s" key] assms(1) small by simp
    then have "counts_ok (add_update (hash_meta_key key) 1 tr) (view s1)
        ((hash_size (view s))(key := card (insert f ?H)))"
      using assms(4) key False fin unfolding s1(3) hashes_ok_def by (intro counts_ok_add_update) simp_all
    from maybe_flush_metadata_spec [OF s1(2) assms(2) this, of now] obtain tr2 s2 where flush:
      "maybe_flush_metadata fx now (add_update (hash_meta_key key) 1 tr) s1 = (tr2, s2)" "good s2"
      "counts_ok tr2 (view s2) ((hash_size (view s))(key := card (insert f ?H)))"
      "\<And>j. plain_name j \<Longrightarrow> hash_map (view s2) j = hash_map (view s) j" by (auto simp: s1(3))
    then have "counts_ok tr2 (view s2) ((hash_size (view s2))(key := card (insert f (dom (hash_map (view s2) key)))))"
      using counts_ok_cong [of "view s2" "view s2" "(hash_size (view s2))(key := card (insert f (dom (hash_map (view s2) key))))"
          "(hash_size (view s))(key := card (insert f ?H))"] key by simp
    with flush False show ?thesis by (auto simp: res_def domIff)
  qed
  then obtain tr2 s2 where two: "(if f \<in> ?H
             then (case fx_get_bytes fx s1 ?k of
                     (Inr b, s2) \<Rightarrow> (hash_value_add b d, tr, s2)
                   | (Inl _, s2) \<Rightarrow> (Inr d, tr, s2))
             else (Inr d, maybe_flush_metadata fx now (add_update (hash_meta_key key) 1 tr) s1)) = (res, tr2, s2)"
    "good s2" "counts_ok tr2 (view s2) ((hash_size (view s2))(key := card (insert f (dom (hash_map (view s2) key)))))"
    "\<And>j. plain_name j \<Longrightarrow> hash_map (view s2) j = hash_map (view s) j" by auto
  have body: "hincrby fx now key f d tr s = (case res of Inl e \<Rightarrow> (Inl e, tr2, s2)
     | Inr n \<Rightarrow> (case fx_insert fx s2 ?k (show_i64 n) of
              (Inl e, s3) \<Rightarrow> (Inl (Database e), tr2, s3) | (Inr _, s3) \<Rightarrow> (Inr n, tr2, s3)))"
    unfolding hincrby_def Let_def s1(1) prod.case two(1) by (cases res) simp_all
  show ?thesis
  proof (cases res)
    case (Inl e)
    then have "f \<in> ?H" by (auto simp: res_def split: option.splits)
    then have "insert f (dom (hash_map (view s2) key)) = dom (hash_map (view s2) key)"
      using two(4) [OF key] by auto
    with two(3) have "hashes_ok tr2 (view s2)" by (simp add: hashes_ok_def fun_upd_idem)
    with Inl two(2,4) key show ?thesis by (simp add: body)
  next
    case (Inr n)
    obtain s3 where s3: "fx_insert fx s2 ?k (show_i64 n) = (Inr (view s2 ?k = None), s3)" "good s3"
      "view s3 = (view s2)(?k \<mapsto> show_i64 n)"
      using two(2) assms(2) by (rule_tac insert_run [of s2 ?k "show_i64 n"]) simp_all
    have "hash_map (view s3) j = hash_map (view s2) j" if "plain_name j" "j \<noteq> key" for j
      using hash_map_frame [of key "view s3" "view s2" j] key that by (auto simp: s3(3))
    with Inr s3 two(4) key hashes_ok_insert [OF two(3) key] show ?thesis
      by (simp add: body hash_map_upd)
  qed
qed

end

lemma show_i64_valid: "utf8_valid (show_i64 w)"
proof (rule is_ascii_valid)
  have "bval c < 128" if "c \<in> set (show_i64 w)" for c
    using show_int_mem [of c "sint w"] that by (auto simp: show_i64_def is_digit_def byte_simps)
  then show "is_ascii (show_i64 w)" by (simp add: is_ascii_def list_all_iff)
qed

lemma hash_value_add_decimal: "hash_value_add (show_i64 v) d = Inr (i64_saturating_add v d)"
  by (simp add: hash_value_add_def show_i64_valid)

section \<open>HGETALL\<close>

text \<open>
  The scanned range ends with the prefix and one byte \<open>0xFF\<close>: fields that come after the
  one-byte field \<open>0xFF\<close> are outside, the others are listed in order.
\<close>

lemma append_le_prefix: "(p @ a \<le> p @ b) = (a \<le> (b :: bytes))"
  by (induction p) auto

lemma append_less_prefix: "(p @ a < p @ b) = (a < (b :: bytes))"
  by (induction p) auto

lemma between_has_prefix:
  assumes "p \<le> k" and "k \<le> p @ b"
  shows "\<exists>f. k = p @ (f :: bytes)"
  using assms
proof (induction p arbitrary: k)
  case (Cons c p)
  then show ?case by (cases k) (auto simp: less_le_not_le)
qed simp

definition listed_fields :: "(bytes \<Rightarrow> bytes option) \<Rightarrow> bytes \<Rightarrow> (bytes \<times> bytes) list" where
  "listed_fields m key = map (\<lambda>f. (f, the (hash_map m key f)))
     (sorted_list_of_set {f \<in> dom (hash_map m key). f \<le> [CHR 0xFF]})"

lemma hash_entries_between:
  assumes "finite (dom m)"
  shows "entries_between m (hash_prefix key) (hash_prefix key @ [CHR 0xFF]) =
    map (\<lambda>(f, v). (hash_prefix key @ f, v)) (listed_fields m key)"
proof -
  let ?p = "hash_prefix key" and ?F = "{f \<in> dom (hash_map m key). f \<le> [CHR 0xFF]}"
  let ?keys = "filter (\<lambda>k. in_range ?p (?p @ [CHR 0xFF]) k) (sorted_list_of_set (dom m))"
  have finF: "finite ?F" using finite_hash_map [OF assms, of key] by simp
  have sorted_fields: "sorted_wrt (<) (map (\<lambda>f. ?p @ f) (sorted_list_of_set ?F))"
    by (simp add: sorted_wrt_map append_less_prefix)
  have sorted_keys: "sorted_wrt (<) ?keys" by (simp add: sorted_wrt_filter)
  have same: "set ?keys = set (map (\<lambda>f. ?p @ f) (sorted_list_of_set ?F))"
  proof -
    have "k \<in> set ?keys \<longleftrightarrow> k \<in> (\<lambda>f. ?p @ f) ` ?F" for k
    proof (cases "\<exists>f. k = ?p @ f")
      case True
      then obtain f where f: "k = ?p @ f" by blast
      have "?p \<le> ?p @ f" using append_le_prefix [of ?p "[]" f] by simp
      then show ?thesis
        using assms by (auto simp: f in_range_def append_le_prefix hash_map_def hash_field_key_def)
    next
      case False
      then show ?thesis using between_has_prefix [of ?p k "[CHR 0xFF]"] by (auto simp: in_range_def)
    qed
    then have "set ?keys = (\<lambda>f. ?p @ f) ` ?F" by blast
    then show ?thesis using finF by simp
  qed
  have "?keys = map (\<lambda>f. ?p @ f) (sorted_list_of_set ?F)"
    by (rule strict_sorted_equal [OF sorted_fields sorted_keys same])
  then show ?thesis
    by (simp add: entries_between_def entries_def filter_map comp_def listed_fields_def hash_map_def hash_field_key_def)
qed

lemma strip_prefix_map: "strip_prefix p (map (\<lambda>(f, v). (p @ f, v)) fvs) = fvs"
  by (induction fvs) (auto simp: strip_prefix_def)

context feox_store
begin

lemma hgetall_spec:
  assumes "good s" and "length (listed_fields (view s) key) \<le> 10000"
  shows "\<exists>s'. hgetall fx key s = (Inr (listed_fields (view s) key), s') \<and> good s' \<and> view s' = view s"
proof -
  obtain s1 where "fx_range_query fx s (hash_prefix key) (hash_prefix key @ [CHR 0xFF]) 10000 =
      (Inr (map (\<lambda>(f, v). (hash_prefix key @ f, v)) (listed_fields (view s) key)), s1)" "good s1" "view s1 = view s"
    using assms by (rule_tac range_run [of s "hash_prefix key" "hash_prefix key @ [CHR 0xFF]" 10000])
      (simp_all add: hash_entries_between)
  then show ?thesis by (simp add: hgetall_def strip_prefix_map)
qed

end

lemma hkeys_is_hgetall:
  "hkeys fx key s = (map_sum id (map fst) (fst (hgetall fx key s)), snd (hgetall fx key s))"
  by (auto simp: hkeys_def hgetall_def strip_prefix_def split: sum.splits prod.splits)

lemma hvals_is_hgetall:
  "hvals fx key s = (map_sum id (map snd) (fst (hgetall fx key s)), snd (hgetall fx key s))"
  by (auto simp: hvals_def hgetall_def strip_prefix_def split: sum.splits prod.splits)

end
