(* ===== verification/Executor_Spec.thy ===== *)
theory Executor_Spec
  imports Executor List_Read Hash_Spec
begin

text \<open>
  What the commands on plain keys promise on a store that keeps its contract: their replies
  and effects as operations on the map of keys, and the notifications of the watch
  registry. The list and hash commands reply what \<open>List_Spec\<close>, \<open>List_Read\<close> and \<open>Hash_Spec\<close>
  say their operations return.
\<close>

lemma set_store_simps [simp]:
  "wd_store (set_store s w) = s" "wd_watch (set_store s w) = wd_watch w"
  "wd_tracker (set_store s w) = wd_tracker w" "wd_clients (set_store s w) = wd_clients w"
  "set_store s (set_store s' w) = set_store s w"
  by (simp_all add: set_store_def)

lemma notify_simps [simp]:
  "wd_store (notify key w) = wd_store w" "wd_watch (notify key w) = notify_key_modified key (wd_watch w)"
  "wd_tracker (notify key w) = wd_tracker w" "wd_clients (notify key w) = wd_clients w"
  by (simp_all add: notify_def)

lemma set_store_notify: "set_store s (notify key w) = notify key (set_store s w)"
  by (simp add: set_store_def notify_def)

text \<open>The seconds that SET hands to the store: EX is looked at first, PX is divided by 1000.\<close>

definition seconds_given :: "u64 option \<Rightarrow> u64 option \<Rightarrow> u64 option" where
  "seconds_given ex px = (case ex of Some t \<Rightarrow> Some t | None \<Rightarrow> map_option (\<lambda>m. m div 1000) px)"

lemma seconds_given_simps [simp]:
  "seconds_given (Some t) px = Some t" "seconds_given None (Some m) = Some (m div 1000)" "seconds_given None None = None"
  by (simp_all add: seconds_given_def)

lemma exec_set_seconds: "exec_set fx key v ex px w =
    (case (case seconds_given ex px of
             Some t \<Rightarrow> fx_insert_bytes_with_ttl_and_timestamp fx (wd_store w) key v t None
           | None \<Rightarrow> fx_insert_bytes_with_timestamp fx (wd_store w) key v None) of
       (Inr _, s) \<Rightarrow> (SimpleString ''OK'', notify key (set_store s w))
     | (Inl e, s) \<Rightarrow> (db_error fx e, set_store s w))"
  by (cases ex; cases px; simp add: exec_set_def)

context feox_store
begin

section \<open>Single keys\<close>

lemma exec_get_spec:
  assumes "good (wd_store w)"
  shows "\<exists>s'. exec_get fx key w = (BulkString (view (wd_store w) key), set_store s' w) \<and> good s' \<and>
     view s' = view (wd_store w)"
  by (rule get_run [OF assms, of key]) (cases "view (wd_store w) key"; fastforce simp: exec_get_def)

lemma insert_any_run:
  assumes "good s" and "accepts key v" and "0 < t"
  obtains s' where "fx_insert_bytes_with_ttl_and_timestamp fx s key v t None = (Inr (view s key = None), s')"
    "good s'" "view s' = (view s)(key \<mapsto> v)"
  using assms by (intro that [of "snd (fx_insert_bytes_with_ttl_and_timestamp fx s key v t None)"] prod_eqI) simp_all

lemma exec_set_spec:
  assumes "good (wd_store w)" and "accepts key v" and "seconds_given ex px \<noteq> Some 0"
  shows "\<exists>s'. exec_set fx key v ex px w = (SimpleString ''OK'', notify key (set_store s' w)) \<and> good s' \<and>
     view s' = (view (wd_store w))(key \<mapsto> v)"
proof (cases "seconds_given ex px")
  case None
  obtain s1 where "fx_insert fx (wd_store w) key v = (Inr (view (wd_store w) key = None), s1)"
    "good s1" "view s1 = (view (wd_store w))(key \<mapsto> v)"
    using insert_run [OF assms(1,2)] by blast
  then show ?thesis using assms(1) None by (auto simp: exec_set_seconds)
next
  case (Some t)
  with assms(3) have "0 < t" by (simp add: word_gt_0)
  from insert_any_run [OF assms(1,2) this] Some show ?thesis by (fastforce simp: exec_set_seconds)
qed

lemma fast_set_is_exec_set:
  assumes "good (wd_store w)" and "accepts key v"
  shows "exec_set fx key v None None w = (SimpleString ''OK'', snd (fast_set_bytes fx key v w)) \<and>
     fst (fast_set_bytes fx key v w) = Inr ()"
  by (rule insert_run [OF assms]) (simp add: exec_set_def fast_set_bytes_def assms(1))

lemma exec_del_loop:
  assumes "good (wd_store w)"
  shows "\<exists>ks s'. del_keys fx keys n w = (n + word_of_nat (card (set keys \<inter> dom (view (wd_store w)))),
       w\<lparr>wd_store := s', wd_watch := fold notify_key_modified ks (wd_watch w)\<rparr>) \<and> good s' \<and>
     view s' = view (wd_store w) |` (- set keys) \<and> set ks = set keys \<inter> dom (view (wd_store w))"
  using assms
proof (induction keys arbitrary: n w)
  case Nil
  have "w\<lparr>wd_store := wd_store w, wd_watch := fold notify_key_modified [] (wd_watch w)\<rparr> = w" by simp
  then show ?case using Nil by (intro exI [of _ "[]"] exI [of _ "wd_store w"]) (simp add: restrict_map_def)
next
  case (Cons key keys)
  let ?D = "dom (view (wd_store w))"
  obtain s1 where s1: "fx_delete fx (wd_store w) key = (found (map_option (\<lambda>_. ()) (view (wd_store w) key)), s1)"
    "good s1" "view s1 = (view (wd_store w))(key := None)"
    using delete_run [OF Cons.prems] by blast
  define w1 where "w1 = (if key \<in> ?D then notify key (set_store s1 w) else set_store s1 w)"
  have w1: "wd_store w1 = s1" by (simp add: w1_def)
  have step: "del_keys fx (key # keys) n w = del_keys fx keys (if key \<in> ?D then n + 1 else n) w1"
    using s1(1) by (auto simp: w1_def found_def split: option.splits)
  have dom1: "dom (view (wd_store w1)) = ?D - {key}" using s1(3) w1 by simp
  have card: "(word_of_nat (card (set (key # keys) \<inter> ?D)) :: i64) =
      (if key \<in> ?D then 1 else 0) + word_of_nat (card (set keys \<inter> (?D - {key})))"
  proof (cases "key \<in> ?D")
    case True
    then have "set (key # keys) \<inter> ?D = insert key (set keys \<inter> (?D - {key}))" by auto
    with True show ?thesis by simp
  next
    case False
    then have "set (key # keys) \<inter> ?D = set keys \<inter> (?D - {key})" by auto
    with False show ?thesis by (simp only: if_False add_0)
  qed
  from Cons.IH [of w1 "if key \<in> ?D then n + 1 else n"] s1(2) w1 dom1 obtain ks s2 where IH:
    "del_keys fx keys (if key \<in> ?D then n + 1 else n) w1 =
       ((if key \<in> ?D then n + 1 else n) + word_of_nat (card (set keys \<inter> (?D - {key}))),
        w1\<lparr>wd_store := s2, wd_watch := fold notify_key_modified ks (wd_watch w1)\<rparr>)" "good s2"
    "view s2 = view s1 |` (- set keys)" "set ks = set keys \<inter> (?D - {key})" by auto
  let ?ks = "if key \<in> ?D then key # ks else ks"
  have world: "w1\<lparr>wd_store := s2, wd_watch := fold notify_key_modified ks (wd_watch w1)\<rparr> =
      w\<lparr>wd_store := s2, wd_watch := fold notify_key_modified ?ks (wd_watch w)\<rparr>"
    by (simp add: w1_def set_store_def notify_def)
  have content: "view s2 = view (wd_store w) |` (- set (key # keys))"
    by (auto simp: IH(3) s1(3) restrict_map_def)
  have keys: "set ?ks = set (key # keys) \<inter> ?D" using IH(4) by auto
  have count: "(if key \<in> ?D then n + 1 else n) + word_of_nat (card (set keys \<inter> (?D - {key}))) =
      n + word_of_nat (card (set (key # keys) \<inter> ?D))" by (simp only: card) simp
  show ?case
    unfolding step IH(1) world count
    using IH(2) content keys by (intro exI [of _ ?ks] exI [of _ s2] conjI refl)
qed

lemma exec_del_spec:
  assumes "good (wd_store w)"
  shows "\<exists>ks s'. exec_del fx keys w = (Integer (word_of_nat (card (set keys \<inter> dom (view (wd_store w))))),
       w\<lparr>wd_store := s', wd_watch := fold notify_key_modified ks (wd_watch w)\<rparr>) \<and> good s' \<and>
     view s' = view (wd_store w) |` (- set keys) \<and> set ks = set keys \<inter> dom (view (wd_store w))"
proof -
  from exec_del_loop [OF assms, of keys 0] obtain ks s' where
    "del_keys fx keys 0 w = (0 + word_of_nat (card (set keys \<inter> dom (view (wd_store w)))),
       w\<lparr>wd_store := s', wd_watch := fold notify_key_modified ks (wd_watch w)\<rparr>)" "good s'"
    "view s' = view (wd_store w) |` (- set keys)" "set ks = set keys \<inter> dom (view (wd_store w))" by blast
  then show ?thesis by (intro exI [of _ ks] exI [of _ s']) (simp add: exec_del_def)
qed

lemma exec_mset_spec:
  assumes "good (wd_store w)" and "\<And>k v. (k, v) \<in> set pairs \<Longrightarrow> accepts k v"
  shows "\<exists>s'. exec_mset fx pairs w = (SimpleString ''OK'',
       w\<lparr>wd_store := s', wd_watch := fold notify_key_modified (map fst pairs) (wd_watch w)\<rparr>) \<and> good s' \<and>
     view s' = view (wd_store w) ++ map_of (rev pairs)"
  using assms
proof (induction pairs arbitrary: w)
  case Nil
  then show ?case by (intro exI [of _ "wd_store w"]) simp
next
  case (Cons p pairs)
  obtain k v where p: "p = (k, v)" by force
  obtain s1 where s1: "fx_insert fx (wd_store w) k v = (Inr (view (wd_store w) k = None), s1)" "good s1"
    "view s1 = (view (wd_store w))(k \<mapsto> v)"
    using insert_run [OF Cons.prems(1), of k v] Cons.prems(2) p by auto
  let ?w1 = "notify k (set_store s1 w)"
  have "good (wd_store ?w1)" using s1(2) by simp
  from Cons.IH [OF this] Cons.prems(2) obtain s2 where s2: "exec_mset fx pairs ?w1 = (SimpleString ''OK'',
       ?w1\<lparr>wd_store := s2, wd_watch := fold notify_key_modified (map fst pairs) (wd_watch ?w1)\<rparr>)"
    "good s2" "view s2 = view (wd_store ?w1) ++ map_of (rev pairs)" by (meson list.set_intros(2))
  have step: "exec_mset fx (p # pairs) w = exec_mset fx pairs ?w1"
    using s1(1) Cons.prems(1) by (simp add: p)
  have world: "?w1\<lparr>wd_store := s2, wd_watch := fold notify_key_modified (map fst pairs) (wd_watch ?w1)\<rparr> =
      w\<lparr>wd_store := s2, wd_watch := fold notify_key_modified (map fst (p # pairs)) (wd_watch w)\<rparr>"
    by (simp add: notify_def set_store_def p)
  have content: "view s2 = view (wd_store w) ++ map_of (rev (p # pairs))"
    using s2(3) s1(3) by (simp add: p)
  show ?case unfolding step s2(1) world using s2(2) content by (intro exI [of _ s2] conjI refl)
qed

lemma exec_mget_spec:
  assumes "good (wd_store w)"
  shows "\<exists>s'. exec_mget fx keys w = (Array (Some (map (\<lambda>k. BulkString (view (wd_store w) k)) keys)), set_store s' w) \<and>
     good s' \<and> view s' = view (wd_store w)"
proof -
  have "\<exists>s'. get_values fx keys s = (map (\<lambda>k. BulkString (view s k)) keys, s') \<and> good s' \<and> view s' = view s"
    if "good s" for s
    using that
  proof (induction keys arbitrary: s)
    case (Cons k keys)
    obtain s1 where s1: "fx_get_bytes fx s k = (found (view s k), s1)" "good s1" "view s1 = view s"
      using get_run [OF Cons.prems] by blast
    with Cons.IH [of s1] show ?case by (cases "view s k") auto
  qed simp
  from this [OF assms] show ?thesis by (auto simp: exec_mget_def)
qed

section \<open>Counters\<close>

text \<open>
  A key that INCR creates holds eight little-endian bytes; a value of another length is read
  as decimal text and written back as text. Neither addition is checked for overflow.
\<close>

lemma increment_absent_run:
  assumes "good s" and "view s k = None" and "accepts k (to_le_bytes d)"
  obtains s1 where "fx_atomic_increment fx s k d = (Inr d, s1)" "good s1" "view s1 = (view s)(k \<mapsto> to_le_bytes d)"
  using assms increment_new [OF assms] by (intro that [of "snd (fx_atomic_increment fx s k d)"] prod_eqI) simp_all

lemma incr_absent_spec:
  assumes "good (wd_store w)" and "view (wd_store w) key = None" and "accepts key (to_le_bytes d)"
  shows "\<exists>s'. string_incr fx key d w = (Integer d, notify key (set_store s' w)) \<and> good s' \<and>
     view s' = (view (wd_store w))(key \<mapsto> to_le_bytes d)"
  by (rule increment_absent_run [OF assms]) (force simp: string_incr_def)

lemma incr_counter_spec:
  assumes "good (wd_store w)" and "view (wd_store w) key = Some b" and "length b = 8"
    and "in_i64 (sint (from_le_bytes b) + sint d)"
  shows "\<exists>s'. string_incr fx key d w = (Integer (from_le_bytes b + d), notify key (set_store s' w)) \<and> good s' \<and>
     view s' = (view (wd_store w))(key \<mapsto> to_le_bytes (from_le_bytes b + d))"
proof -
  define s1 where "s1 = snd (fx_atomic_increment fx (wd_store w) key d)"
  have "fx_atomic_increment fx (wd_store w) key d = (Inr (from_le_bytes b + d), s1)"
    using increment_counter [OF assms] by (intro prod_eqI) (simp_all add: s1_def)
  then have "string_incr fx key d w = (Integer (from_le_bytes b + d), notify key (set_store s1 w))"
    by (simp add: string_incr_def)
  then show ?thesis
    using increment_counter [OF assms] assms(1) by (intro exI [of _ s1]) (simp add: s1_def)
qed

lemma show_i64_lossy: "utf8_lossy (show_i64 w) = show_i64 w"
  using show_i64_valid by (rule utf8_lossy_valid)

lemma incr_decimal_spec:
  assumes "good (wd_store w)" and "view (wd_store w) key = Some (show_i64 v)" and "length (show_i64 v) \<noteq> 8"
    and "accepts key (show_i64 (v + d))"
  shows "\<exists>s'. string_incr fx key d w = (Integer (v + d), notify key (set_store s' w)) \<and> good s' \<and>
     view s' = (view (wd_store w))(key \<mapsto> show_i64 (v + d))"
proof -
  define s1 where "s1 = snd (fx_atomic_increment fx (wd_store w) key d)"
  obtain e where inc: "fx_atomic_increment fx (wd_store w) key d = (Inl e, s1)"
    using increment_other [OF assms(1,2,3), of d] by (metis s1_def prod.collapse)
  have s1: "good s1" "view s1 = view (wd_store w)"
    using assms(1) increment_other [OF assms(1,2,3), of d] by (simp_all add: s1_def)
  obtain s2 where s2: "fx_get_bytes fx s1 key = (Inr (show_i64 v), s2)" "good s2" "view s2 = view (wd_store w)"
    using s1 assms(2) by (rule_tac get_run [of s1 key]) simp_all
  obtain s3 where s3: "fx_insert fx s2 key (show_i64 (v + d)) = (Inr (view s2 key = None), s3)" "good s3"
    "view s3 = (view s2)(key \<mapsto> show_i64 (v + d))"
    using insert_run [OF s2(2) assms(4)] by blast
  have "parse_i64 (str_trim (utf8_lossy (show_i64 v))) = Some v"
    by (simp add: show_i64_lossy) (simp add: show_i64_def parse_i64_show_i64 [unfolded show_i64_def])
  then have "string_incr fx key d w = (Integer (v + d), notify key (set_store s3 w))"
    using inc s2 s3 by (simp add: string_incr_def incr_write_def)
  then show ?thesis using s2(3) s3 by (intro exI [of _ s3]) simp
qed

section \<open>KEYS and SCAN\<close>

lemma exec_keys_range_spec:
  assumes "good (wd_store w)" and "prefix = extract_prefix pattern" and "\<not> (prefix \<noteq> [] \<and> pattern = prefix)"
    and "(a, b) = (if prefix = [] then ([], replicate 255 (CHR 0xFF)) else (prefix, prefix @ ''~''))"
    and "length (entries_between (view (wd_store w)) a b) \<le> 100000"
  shows "\<exists>s'. exec_keys fx pattern w = (bulks (filter (\<lambda>k. match_pattern k pattern)
       (map fst (entries_between (view (wd_store w)) a b))), set_store s' w) \<and> good s' \<and> view s' = view (wd_store w)"
proof (rule range_run [OF assms(1), of a b 100000])
  fix s1
  assume r: "fx_range_query fx (wd_store w) a b 100000 = (Inr (take 100000 (entries_between (view (wd_store w)) a b)), s1)"
    and s1: "good s1" "view s1 = view (wd_store w)"
  have "exec_keys fx pattern w = (Array (Some (map (\<lambda>(key, _). bulk key)
      (filter (\<lambda>(key, _). match_pattern key pattern) (entries_between (view (wd_store w)) a b)))), set_store s1 w)"
    using assms(2-5) r unfolding exec_keys_def Let_def by (cases "prefix = []") auto
  moreover have "map (\<lambda>(key, _). bulk key) (filter (\<lambda>(key, _). match_pattern key pattern) es) =
      map bulk (filter (\<lambda>k. match_pattern k pattern) (map fst es))" for es :: "(bytes \<times> bytes) list"
    by (induction es) auto
  ultimately show ?thesis using s1 by (intro exI [of _ s1]) (simp add: bulks_def)
qed

end

text \<open>
  On keys of ASCII characters below the tilde, KEYS lists exactly the matching keys, in
  order: the scanned range holds all of them.
\<close>

lemma le_replicate_max: "length k \<le> n \<Longrightarrow> k \<le> replicate n (CHR 0xFF)"
proof (induction k arbitrary: n)
  case (Cons c k)
  then obtain m where n: "n = Suc m" "length k \<le> m" by (cases n) auto
  have "bval c < 256" and top: "bval (CHR 0xFF) = 255" by simp_all
  then have "bval c \<le> bval (CHR 0xFF)" by linarith
  then have "c \<le> CHR 0xFF" by (simp only: less_eq_char_def)
  then have "c < CHR 0xFF \<or> c = CHR 0xFF" by (rule le_imp_less_or_eq)
  with Cons.IH [OF n(2)] show ?case by (auto simp: n(1))
qed simp

lemma prefix_in_range:
  assumes "\<And>c. c \<in> set f \<Longrightarrow> bval c < 126"
  shows "p \<le> p @ f" and "p @ f \<le> p @ ''~''"
proof -
  show "p \<le> p @ f" using append_le_prefix [of p "[]" f] by simp
  have "f \<le> ''~''"
  proof (cases f)
    case (Cons c f')
    then have "c < CHR ''~''" using assms by (simp add: less_char_def del: less_char_simp)
    with Cons show ?thesis by simp
  qed simp
  then show "p @ f \<le> p @ ''~''" by (simp only: append_le_prefix)
qed

definition low_ascii :: "bytes \<Rightarrow> bool" where
  "low_ascii k \<longleftrightarrow> length k < 255 \<and> (\<forall>c \<in> set k. bval c < 126)"

lemma low_ascii_lossy: "low_ascii k \<Longrightarrow> utf8_lossy k = k"
  by (rule is_ascii_lossy) (auto simp: low_ascii_def is_ascii_def list_all_iff)

lemma scanned_matches:
  assumes "low_ascii k" and "matches pattern k" and "prefix = extract_prefix pattern"
    and "(a, b) = (if prefix = [] then ([], replicate 255 (CHR 0xFF)) else (prefix, prefix @ ''~''))"
  shows "in_range a b k"
proof (cases "prefix = []")
  case True
  with assms(1,4) show ?thesis by (auto simp: in_range_def low_ascii_def intro: le_replicate_max)
next
  case False
  from matches_extract_prefix [OF assms(2)] assms(3) obtain f where f: "k = prefix @ f" by (auto simp: starts_with_iff)
  then have "\<And>c. c \<in> set f \<Longrightarrow> bval c < 126" using assms(1) by (auto simp: low_ascii_def)
  from prefix_in_range [OF this, where p = prefix] False assms(4) f show ?thesis by (simp add: in_range_def)
qed

lemma extract_prefix_literal: "extract_prefix pattern = pattern \<Longrightarrow> CHR ''*'' \<notin> set pattern \<and> CHR ''?'' \<notin> set pattern"
  by (induction pattern) (auto split: if_splits)

lemma sorted_single: "sorted xs \<Longrightarrow> distinct xs \<Longrightarrow> filter (\<lambda>k. k = x) xs = (if x \<in> set xs then [x] else [])"
  by (induction xs) (auto simp: filter_empty_conv)

context feox_store
begin

lemma exec_keys_spec:
  assumes "good (wd_store w)" and "\<forall>k \<in> dom (view (wd_store w)). low_ascii k"
    and "card (dom (view (wd_store w))) \<le> 100000"
  shows "\<exists>s'. exec_keys fx pattern w =
       (bulks (filter (matches pattern) (sorted_list_of_set (dom (view (wd_store w))))), set_store s' w) \<and>
     good s' \<and> view s' = view (wd_store w)"
proof -
  let ?m = "view (wd_store w)" and ?p = "extract_prefix pattern"
  have fin: "finite (dom ?m)" using assms(1) by simp
  show ?thesis
  proof (cases "?p \<noteq> [] \<and> pattern = ?p")
    case True
    obtain s1 where s1: "fx_get_bytes fx (wd_store w) ?p = (found (?m ?p), s1)" "good s1" "view s1 = ?m"
      using get_run [OF assms(1)] by blast
    have "matches pattern = (\<lambda>k. k = pattern)"
      using extract_prefix_literal [of pattern] True matches_literal [of pattern] by auto
    then have "filter (matches pattern) (sorted_list_of_set (dom ?m)) = (if ?p \<in> dom ?m then [?p] else [])"
      using True fin by (simp add: sorted_single)
    then show ?thesis
      using True s1 by (intro exI [of _ s1]) (auto simp: exec_keys_def Let_def bulks_def found_def domIff split: option.splits)
  next
    case False
    define a b where "a = (if ?p = [] then [] else ?p)" and "b = (if ?p = [] then replicate 255 (CHR 0xFF) else ?p @ ''~'')"
    then have ab: "(a, b) = (if ?p = [] then ([], replicate 255 (CHR 0xFF)) else (?p, ?p @ ''~''))" by simp
    have keys: "map fst (entries_between ?m a b) = filter (in_range a b) (sorted_list_of_set (dom ?m))"
      by (simp add: entries_between_def entries_def filter_map comp_def)
    have "length (entries_between ?m a b) \<le> 100000"
      using assms(3) length_filter_le [of "in_range a b" "sorted_list_of_set (dom ?m)"] keys
      by (metis length_map length_sorted_list_of_set order_trans)
    from exec_keys_range_spec [OF assms(1) refl False ab this] obtain s1 where
      s1: "exec_keys fx pattern w = (bulks (filter (\<lambda>k. match_pattern k pattern) (map fst (entries_between ?m a b))), set_store s1 w)"
      "good s1" "view s1 = ?m" by blast
    have "filter (\<lambda>k. match_pattern k pattern) (filter (in_range a b) (sorted_list_of_set (dom ?m))) =
        filter (matches pattern) (sorted_list_of_set (dom ?m))"
      using assms(2) fin scanned_matches [OF _ _ refl ab]
      by (auto simp: match_pattern_def glob_match_eq_matches low_ascii_lossy intro!: filter_cong)
    with s1 show ?thesis by (intro exI [of _ s1]) (simp add: keys)
  qed
qed

end

lemma scan_collect_all:
  "length acc \<le> n \<Longrightarrow> scan_collect n None ks acc =
     (acc @ take (n - length acc) ks, if n - length acc < length ks then Some (ks ! (n - length acc)) else None)"
proof (induction ks arbitrary: acc)
  case (Cons k ks)
  show ?case
  proof (cases "length acc = n")
    case False
    then obtain d where d: "n = Suc (length acc) + d" using Cons.prems less_imp_Suc_add by (metis add_Suc le_neq_implies_less)
    have "scan_collect n None ks (acc @ [k]) =
        ((acc @ [k]) @ take d ks, if d < length ks then Some (ks ! d) else None)"
      using Cons.IH [of "acc @ [k]"] by (simp add: d)
    then show ?thesis by (simp add: d)
  qed simp
qed simp

text \<open>A client that follows the cursor until it is \<open>0\<close> again, for at most \<open>fuel\<close> calls.\<close>

fun scan_all :: "'s feox \<Rightarrow> nat \<Rightarrow> bytes \<Rightarrow> u64 \<Rightarrow> 's world \<Rightarrow> bytes list option" where
  "scan_all fx 0 cursor cnt w = None"
| "scan_all fx (Suc fuel) cursor cnt w = (case exec_scan fx cursor cnt None w of
     (Array (Some [BulkString (Some next_cursor), Array (Some page)]), w1) \<Rightarrow>
       (let keys = map (\<lambda>v. case v of BulkString (Some k) \<Rightarrow> k | _ \<Rightarrow> []) page in
        if next_cursor = ''0'' then Some keys
        else map_option (\<lambda>rest. keys @ rest) (scan_all fx fuel next_cursor cnt w1))
   | _ \<Rightarrow> None)"

lemma drop_sorted: "sorted_wrt (<) ks \<Longrightarrow> n < length ks \<Longrightarrow> filter (\<lambda>k. ks ! n \<le> k) ks = drop n (ks :: bytes list)"
proof (induction ks arbitrary: n)
  case (Cons k ks)
  show ?case
  proof (cases n)
    case 0
    have "\<forall>x \<in> set ks. k \<le> x" using Cons.prems(1) by auto
    with 0 show ?thesis by simp
  next
    case (Suc m)
    then have "\<not> (ks ! m \<le> k)" using Cons.prems by (auto simp: not_le)
    with Suc Cons show ?thesis by simp
  qed
qed simp

context feox_store
begin

lemma exec_scan_page:
  fixes cursor :: bytes
  defines "start \<equiv> (if cursor = [] \<or> cursor = ''0'' then [] else cursor)"
  assumes "good (wd_store w)" and "unat cnt + 1 < 2 ^ 64"
  defines "keys \<equiv> filter (in_range start (replicate 255 (CHR 0xFF))) (sorted_list_of_set (dom (view (wd_store w))))"
  shows "\<exists>s'. exec_scan fx cursor cnt None w = (Array (Some
      [bulk (if unat cnt < length keys then keys ! unat cnt else ''0''), bulks (take (unat cnt) keys)]), set_store s' w) \<and>
     good s' \<and> view s' = view (wd_store w)"
proof -
  let ?m = "view (wd_store w)" and ?top = "replicate 255 (CHR 0xFF)" and ?n = "unat cnt"
  have n1: "unat (cnt + 1) = Suc ?n" using assms(3) by (simp add: unat_word_ariths)
  have keys: "map fst (entries_between ?m start ?top) = keys"
    by (simp add: entries_between_def entries_def filter_map comp_def keys_def)
  obtain s1 where s1: "fx_range_query fx (wd_store w) start ?top (Suc ?n) =
      (Inr (take (Suc ?n) (entries_between ?m start ?top)), s1)" "good s1" "view s1 = ?m"
    using range_run [OF assms(2)] by blast
  have page: "map fst (take (Suc ?n) (entries_between ?m start ?top)) = take (Suc ?n) keys"
    by (simp add: keys flip: take_map)
  have "scan_collect ?n None (take (Suc ?n) keys) [] =
      (take ?n keys, if ?n < length keys then Some (keys ! ?n) else None)"
    by (simp add: scan_collect_all min_def)
  then have "exec_scan fx cursor cnt None w = (Array (Some
      [bulk (if ?n < length keys then keys ! ?n else ''0''), bulks (take ?n keys)]), set_store s1 w)"
    unfolding exec_scan_def Let_def scan_range_def option.case start_def [symmetric] prod.case
    by (simp add: n1 s1(1) page bulks_def)
  with s1 show ?thesis by blast
qed

lemma scan_all_from:
  assumes "good (wd_store w)" and "unat cnt + 1 < 2 ^ 64" and "0 < unat cnt"
    and "\<forall>k \<in> dom (view (wd_store w)). length k \<le> 255" and "''0'' \<notin> dom (view (wd_store w))"
    and "start = (if cursor = [] \<or> cursor = ''0'' then [] else cursor)"
    and "ks = filter (\<lambda>k. start \<le> k) (sorted_list_of_set (dom (view (wd_store w))))" and "length ks < fuel"
  shows "scan_all fx fuel cursor cnt w = Some ks"
  using assms
proof (induction fuel arbitrary: cursor start ks w)
  case (Suc fuel)
  let ?D = "sorted_list_of_set (dom (view (wd_store w)))" and ?n = "unat cnt"
  have fin: "finite (dom (view (wd_store w)))" using Suc.prems(1) by simp
  have ks: "filter (in_range start (replicate 255 (CHR 0xFF))) ?D = ks"
    using Suc.prems(4,7) fin by (auto simp: in_range_def le_replicate_max intro!: filter_cong)
  from exec_scan_page [OF Suc.prems(1,2), of cursor] obtain s1 where
    page: "exec_scan fx cursor cnt None w = (Array (Some
      [bulk (if ?n < length ks then ks ! ?n else ''0''), bulks (take ?n ks)]), set_store s1 w)"
    and s1: "good s1" "view s1 = view (wd_store w)"
    unfolding Suc.prems(6) [symmetric] ks by blast
  have strip: "map (\<lambda>v. case v of BulkString (Some k) \<Rightarrow> k | _ \<Rightarrow> []) (map bulk xs) = xs" for xs
    by (induction xs) auto
  show ?case
  proof (cases "?n < length ks")
    case False
    then show ?thesis using page strip by (simp add: bulks_def)
  next
    case True
    let ?c = "ks ! ?n"
    have sorted: "sorted_wrt (<) ks" by (simp add: Suc.prems(7) sorted_wrt_filter)
    have mem: "?c \<in> dom (view (wd_store w))" using nth_mem [OF True] fin by (auto simp: Suc.prems(7))
    have "ks ! 0 < ?c" using sorted True Suc.prems(3) by (simp add: sorted_wrt_nth_less)
    then have "?c \<noteq> []" by auto
    moreover have "?c \<noteq> ''0''" using mem Suc.prems(5) by auto
    moreover have "filter (\<lambda>k. ?c \<le> k) ?D = drop ?n ks"
    proof -
      have "start \<le> ?c" using nth_mem [OF True] by (simp add: Suc.prems(7))
      then have "filter (\<lambda>k. ?c \<le> k) ?D = filter (\<lambda>k. ?c \<le> k) ks"
        by (auto simp: Suc.prems(7) intro!: filter_cong)
      with drop_sorted [OF sorted True] show ?thesis by simp
    qed
    ultimately have "scan_all fx fuel ?c cnt (set_store s1 w) = Some (drop ?n ks)"
      using Suc.prems s1 True by (intro Suc.IH) auto
    then show ?thesis using page strip True \<open>?c \<noteq> ''0''\<close> by (simp add: bulks_def)
  qed
qed simp

section \<open>Commands that leave watchers in the dark\<close>

lemma exec_cas_spec:
  assumes "good (wd_store w)" and "accepts key new"
  shows "\<exists>s'. exec_cas fx key expected new w =
      (case view (wd_store w) key of
         None \<Rightarrow> (db_error fx KeyNotFound, set_store s' w)
       | Some v \<Rightarrow> (Integer (if v = expected then 1 else 0), set_store s' w)) \<and> good s' \<and>
     view s' = (if view (wd_store w) key = Some expected then (view (wd_store w))(key \<mapsto> new) else view (wd_store w))"
proof -
  define s1 where "s1 = snd (fx_compare_and_swap fx (wd_store w) key expected new)"
  have "fx_compare_and_swap fx (wd_store w) key expected new =
      (found (map_option (\<lambda>v. v = expected) (view (wd_store w) key)), s1)"
    using assms by (intro prod_eqI) (simp_all add: s1_def)
  moreover have "good s1"
    "view s1 = (if view (wd_store w) key = Some expected then (view (wd_store w))(key \<mapsto> new) else view (wd_store w))"
    using assms by (simp_all add: s1_def)
  ultimately show ?thesis
    by (intro exI [of _ s1]) (cases "view (wd_store w) key"; simp add: exec_cas_def)
qed

end

lemma cas_never_notifies:
  "wd_watch (snd (exec_cas fx key expected new w)) = wd_watch w"
  "wd_watch (snd (exec_json_patch fx key patch w)) = wd_watch w"
  by (simp_all add: exec_cas_def exec_json_patch_def split: prod.splits sum.splits)

end
