(* ===== verification/Expiry_Spec.thy ===== *)
theory Expiry_Spec
  imports Executor_Spec
begin

text \<open>
  The commands on expiry times, over the contract \<open>feox_ttl\<close>: the store keeps whole seconds.
\<close>

text \<open>
  What TTL and PTTL reply of a key that is not there (\<open>None\<close>), that does not expire (\<open>Some None\<close>), and
  for which \<open>n\<close> seconds were set: the seconds that remain, and a thousand times that.
\<close>

definition ttl_answers :: "'s feox \<Rightarrow> bytes \<Rightarrow> u64 option option \<Rightarrow> 's world \<Rightarrow> bool" where
  "ttl_answers fx key t w \<longleftrightarrow> (case t of
     None \<Rightarrow> fst (exec_ttl fx key w) = Integer (- 2) \<and> fst (exec_pttl fx key w) = Integer (- 2)
   | Some None \<Rightarrow> fst (exec_ttl fx key w) = Integer (- 1) \<and> fst (exec_pttl fx key w) = Integer (- 1)
   | Some (Some n) \<Rightarrow> (\<exists>r \<le> n. fst (exec_ttl fx key w) = Integer r) \<and>
       (\<exists>r \<le> n. fst (exec_pttl fx key w) = Integer (r * 1000)))"

text \<open>A number of whole seconds within a number of milliseconds, without overflow.\<close>

lemma seconds_in_millis:
  fixes r m :: u64
  assumes "r \<le> m div 1000"
  shows "r * 1000 \<le> m" and "unat (r * 1000) = unat r * 1000"
proof -
  have "unat r \<le> unat m div 1000" using assms by (simp add: word_le_nat_alt unat_div)
  then have le: "unat r * 1000 \<le> unat m" by linarith
  have "unat m < 2 ^ 64" using unsigned_less [of m, where ?'a = nat] by simp
  with le have "unat r * 1000 < 2 ^ 64" by linarith
  then show u: "unat (r * 1000) = unat r * 1000" by (simp add: unat_word_ariths)
  with le show "r * 1000 \<le> m" by (simp add: word_le_nat_alt)
qed

lemma whole_seconds:
  fixes m :: u64
  shows "1000 \<le> m \<Longrightarrow> 0 < m div 1000" and "m < 1000 \<Longrightarrow> m div 1000 = 0"
  by (simp_all add: word_less_nat_alt word_le_nat_alt word_unat_eq_iff unat_div)

context feox_ttl
begin

definition expiry :: "'s world \<Rightarrow> bytes \<Rightarrow> u64 option option" where
  "expiry w key = map_option (\<lambda>_. ttl_of (wd_store w) key) (view (wd_store w) key)"

lemma get_ttl_run:
  assumes "good (wd_store w)"
  obtains s1 where "expiry w key = None" "fx_get_ttl fx (wd_store w) key = (Inl KeyNotFound, s1)"
  | left t s1 where "expiry w key = Some t" "remains left t" "fx_get_ttl fx (wd_store w) key = (Inr left, s1)"
  using get_ttl_missing [OF assms, of key] get_ttl_remains [OF assms, of key]
  by (cases "fx_get_ttl fx (wd_store w) key"; cases "view (wd_store w) key") (auto simp: expiry_def)

lemma exec_ttl_answers:
  assumes "good (wd_store w)"
  shows "ttl_answers fx key (expiry w key) w"
  by (rule get_ttl_run [OF assms, of key])
    (auto simp: exec_ttl_def exec_pttl_def ttl_answers_def remains_def split: option.splits)

lemma update_ttl_run:
  assumes "good s" and "0 < n"
  obtains s1 where "fx_update_ttl fx s key n = (found (map_option (\<lambda>_. ()) (view s key)), s1)" "good s1" "view s1 = view s"
    "ttl_of s1 = (if view s key = None then ttl_of s else (ttl_of s)(key \<mapsto> n))"
  using assms by (intro that [of "snd (fx_update_ttl fx s key n)"] prod_eqI) simp_all

lemma persist_run:
  assumes "good s"
  obtains s1 where "fx_persist fx s key = (found (map_option (\<lambda>_. ()) (view s key)), s1)" "good s1" "view s1 = view s"
    "ttl_of s1 = (if view s key = None then ttl_of s else (ttl_of s)(key := None))"
  using assms by (intro that [of "snd (fx_persist fx s key)"] prod_eqI) simp_all

text \<open>What EXPIRE, PEXPIRE and PERSIST reply and do, and what TTL and PTTL reply afterwards.\<close>

lemma exec_expire_spec:
  assumes "good (wd_store w)" and "0 < n"
  shows "\<exists>s1. exec_expire fx key n w = (Integer (if view (wd_store w) key = None then 0 else 1), set_store s1 w) \<and> good s1 \<and>
    view s1 = view (wd_store w) \<and>
    ttl_answers fx key (if view (wd_store w) key = None then None else Some (Some n)) (set_store s1 w)"
proof (rule update_ttl_run [OF assms, of key])
  fix s1
  assume s1: "fx_update_ttl fx (wd_store w) key n = (found (map_option (\<lambda>_. ()) (view (wd_store w) key)), s1)" "good s1"
    "view s1 = view (wd_store w)"
    "ttl_of s1 = (if view (wd_store w) key = None then ttl_of (wd_store w) else (ttl_of (wd_store w))(key \<mapsto> n))"
  then have "expiry (set_store s1 w) key = (if view (wd_store w) key = None then None else Some (Some n))"
    by (auto simp: expiry_def)
  with s1 exec_ttl_answers [of "set_store s1 w" key] show ?thesis
    by (intro exI [of _ s1]) (auto simp: exec_expire_def done_reply_def found_def)
qed

lemma exec_pexpire_expire: "exec_pexpire fx key n w = exec_expire fx key (n div 1000) w"
  by (simp add: exec_pexpire_def exec_expire_def)

lemma exec_persist_spec:
  assumes "good (wd_store w)"
  shows "\<exists>s1. exec_persist fx key w = (Integer (if view (wd_store w) key = None then 0 else 1), set_store s1 w) \<and> good s1 \<and>
    view s1 = view (wd_store w) \<and>
    ttl_answers fx key (if view (wd_store w) key = None then None else Some None) (set_store s1 w)"
proof (rule persist_run [OF assms, of key])
  fix s1
  assume s1: "fx_persist fx (wd_store w) key = (found (map_option (\<lambda>_. ()) (view (wd_store w) key)), s1)" "good s1"
    "view s1 = view (wd_store w)"
    "ttl_of s1 = (if view (wd_store w) key = None then ttl_of (wd_store w) else (ttl_of (wd_store w))(key := None))"
  then have "expiry (set_store s1 w) key = (if view (wd_store w) key = None then None else Some None)"
    by (auto simp: expiry_def)
  with s1 exec_ttl_answers [of "set_store s1 w" key] show ?thesis
    by (intro exI [of _ s1]) (auto simp: exec_persist_def done_reply_def found_def)
qed

text \<open>SET: the expiry it is given is the one that counts, and without one the key does not expire.\<close>

lemma exec_set_expiry:
  assumes "good (wd_store w)" and "accepts key v" and "seconds_given ex px \<noteq> Some 0"
  shows "\<exists>s1. exec_set fx key v ex px w = (SimpleString ''OK'', notify key (set_store s1 w)) \<and> good s1 \<and>
      view s1 = (view (wd_store w))(key \<mapsto> v) \<and> ttl_answers fx key (Some (seconds_given ex px)) (notify key (set_store s1 w))"
proof -
  obtain s1 where s1: "exec_set fx key v ex px w = (SimpleString ''OK'', notify key (set_store s1 w))" "good s1"
    "view s1 = (view (wd_store w))(key \<mapsto> v)" "ttl_of s1 key = seconds_given ex px"
  proof (cases "seconds_given ex px")
    case None
    with assms(1,2) show thesis
      by (intro that [of "snd (fx_insert fx (wd_store w) key v)"])
        (simp_all add: exec_set_seconds prod_eq_iff split: prod.split sum.split)
  next
    case (Some t)
    with assms(3) have "0 < t" by (simp add: word_gt_0)
    with assms(1,2) Some show thesis
      by (intro that [of "snd (fx_insert_bytes_with_ttl_and_timestamp fx (wd_store w) key v t None)"])
        (simp_all add: exec_set_seconds prod_eq_iff split: prod.split sum.split)
  qed
  then have "expiry (notify key (set_store s1 w)) key = Some (seconds_given ex px)" by (simp add: expiry_def)
  with s1 exec_ttl_answers [of "notify key (set_store s1 w)" key] show ?thesis by (intro exI [of _ s1]) simp
qed

end

end
