(* ===== verification/Props_Store.thy ===== *)
theory Props_Store
  imports Expiry_Spec
begin

text \<open>
  The properties of the data commands, for every store that keeps the contract
  \<open>feox_store\<close>; the witnesses take the store \<open>mem_store\<close>, which does.
\<close>

lemmas mem_is_store = mem.feox_store_axioms

lemma mem_good_empty [simp]: "mem_good empty_mem"
  by (simp add: mem_good_def empty_mem_def)

lemma mem_view_empty [simp]: "mem_view empty_mem = Map.empty"
  by (simp add: mem_view_def empty_mem_def)

lemma mem_list_writable [simp]: "list_writable (\<lambda>_ _. True) key"
  by (simp add: list_writable_def)

lemma mem_hash_writable [simp]: "hash_writable (\<lambda>_ _. True)"
  by (simp add: hash_writable_def)

lemma list_at_empty: "list_at Map.empty key 1000000000 []"
  by (simp add: list_at_def in_i64_def)

text \<open>A store with the list \<open>[a, b]\<close> under \<open>k\<close>, for the witnesses.\<close>

lemma list_ab: "\<exists>s. mem_good s \<and> list_at (mem_view s) ''k'' 1000000000 [''a'', ''b'']"
proof -
  from mem.rpush_spec [of empty_mem "''k''" 1000000000 "[]" "[''a'', ''b'']"]
  show ?thesis by (auto simp: list_at_empty in_i64_def)
qed

section \<open>Lists\<close>

text \<open>C16: LPUSH of a non-empty sequence of values returns (its retry loops end), replies the new length,
  puts the values in front of the list in reverse order and changes no entry that does not belong to the list.\<close>

theorem lpush_prepends:
  assumes "feox_store fx view good accepts" and "good s" and "list_writable accepts key"
    and "list_at (view s) key h xs" and "in_i64 (h - int (length vs))" and "vs \<noteq> []"
  shows "\<exists>s'. lpush fx key vs s = Some (Inr (word_of_nat (length vs + length xs)), s') \<and> good s' \<and>
     list_at (view s') key (h - int (length vs)) (rev vs @ xs) \<and> same_outside key (view s) (view s')"
  using assms(2-) by (rule feox_store.lpush_spec [OF assms(1)])

theorem lpush_prepends_witness:
  "\<exists>s'. lpush mem_store ''k'' [''a'', ''b''] empty_mem = Some (Inr 2, s') \<and>
     list_at (mem_view s') ''k'' 999999998 [''b'', ''a'']"
  using lpush_prepends [OF mem_is_store mem_good_empty mem_list_writable, of "''k''" 1000000000 "[]" "[''a'', ''b'']"]
  by (auto simp: list_at_empty in_i64_def)

text \<open>C17: RPUSH appends the values in order, replies the new length and changes nothing else.\<close>

theorem rpush_appends:
  assumes "feox_store fx view good accepts" and "good s" and "list_writable accepts key"
    and "list_at (view s) key h xs" and "in_i64 (h + int (length xs) + int (length vs))" and "vs \<noteq> []"
  shows "\<exists>s'. rpush fx key vs s = Some (Inr (word_of_nat (length xs + length vs)), s') \<and> good s' \<and>
     list_at (view s') key h (xs @ vs) \<and> same_outside key (view s) (view s')"
  using assms(2-) by (rule feox_store.rpush_spec [OF assms(1)])

theorem rpush_appends_witness:
  "\<exists>s'. rpush mem_store ''k'' [''a'', ''b''] empty_mem = Some (Inr 2, s') \<and>
     list_at (mem_view s') ''k'' 1000000000 [''a'', ''b'']"
  using rpush_appends [OF mem_is_store mem_good_empty mem_list_writable, of "''k''" 1000000000 "[]" "[''a'', ''b'']"]
  by (auto simp: list_at_empty in_i64_def)

text \<open>C18: LPOP and RPOP return, remove and reply as many values as asked for (one without a count) from
  the front or, in reverse, from the back, fewer if the list is shorter, and change nothing else.\<close>

theorem pops_take_ends:
  assumes "feox_store fx view good accepts" and "good s" and "list_writable accepts key"
    and "list_at (view s) key h xs"
  shows "(\<exists>s'. lpop fx key n s = Some (Inr (take (pop_count n) xs), s') \<and> good s' \<and>
       list_at (view s') key (h + int (min (pop_count n) (length xs))) (drop (pop_count n) xs) \<and>
       same_outside key (view s) (view s')) \<and>
     (\<exists>s'. rpop fx key n s = Some (Inr (take (pop_count n) (rev xs)), s') \<and> good s' \<and>
       list_at (view s') key h (take (length xs - pop_count n) xs) \<and> same_outside key (view s) (view s'))"
  using feox_store.lpop_spec [OF assms] feox_store.rpop_spec [OF assms] by blast

theorem pops_take_ends_witness:
  "\<exists>s s'. mem_good s \<and> lpop mem_store ''k'' None s = Some (Inr [''a''], s') \<and>
     list_at (mem_view s') ''k'' 1000000001 [''b'']"
proof -
  obtain s where s: "mem_good s" "list_at (mem_view s) ''k'' 1000000000 [''a'', ''b'']" using list_ab by blast
  from pops_take_ends [OF mem_is_store s(1) mem_list_writable s(2), of None] s(1)
  show ?thesis by (auto simp: pop_count_def)
qed

text \<open>C9: LRANGE, LINDEX and LLEN read the list with the index rules of Redis: negative indices count from
  the end, out-of-range bounds are clamped, an index out of range is no value.\<close>

theorem list_reads:
  assumes "feox_store fx view good accepts" and "good s" and "list_at (view s) key h xs"
    and "in_i64 (int (length xs))"
  shows "(\<exists>s'. lrange fx key start stop s = (Inr (redis_range (sint start) (sint stop) xs), s') \<and> good s' \<and> view s' = view s) \<and>
     (\<exists>s'. lindex fx key start s = (Inr (redis_index (sint start) xs), s') \<and> good s' \<and> view s' = view s) \<and>
     (\<exists>s'. llen fx key s = (Inr (word_of_nat (length xs)), s') \<and> good s' \<and> view s' = view s)"
  using feox_store.lrange_spec [OF assms] feox_store.lindex_spec [OF assms] feox_store.llen_spec [OF assms(1-3)] by blast

theorem list_reads_witness:
  "\<exists>s s'. mem_good s \<and> lindex mem_store ''k'' (- 1) s = (Inr (Some ''b''), s')"
proof -
  obtain s where s: "mem_good s" "list_at (mem_view s) ''k'' 1000000000 [''a'', ''b'']" using list_ab by blast
  have "in_i64 (int (length [''a'', ''b'']))" by (simp add: in_i64_def)
  from list_reads [OF mem_is_store s this, of "- 1" 0] s(1)
  show ?thesis by (auto simp: redis_index_def from_end_def)
qed

text \<open>C25: When the metadata of a list can be neither read nor created, LPUSH never returns: that branch
  repeats the loop without counting a retry. A lost race does count, and ten of them end the call with an error.\<close>

theorem lpush_liveness:
  assumes "s \<in> S"
  shows "(push_stuck fx key S \<longrightarrow> lpush fx key (v # vs) s = None) \<and>
     (always_raced fx key S \<longrightarrow> (\<exists>s' \<in> S. lpush fx key (v # vs) s = Some (Inl contention, s')))"
proof -
  have "lpush fx key (v # vs) s = None" if "push_stuck fx key S"
    using lpush_loop_stuck [OF that assms] by (simp add: lpush_def push_then_count_def)
  moreover have "\<exists>s' \<in> S. lpush fx key (v # vs) s = Some (Inl contention, s')" if "always_raced fx key S"
    using lpush_loop_raced [OF that assms, of 0 v] by (auto simp: lpush_def push_then_count_def MAX_RETRIES_def)
  ultimately show ?thesis by blast
qed

definition full_store :: "mem feox" where
  "full_store = mem_store\<lparr>fx_insert := (\<lambda>m k v. (Inl (OtherError ''Out of memory''), m))\<rparr>"

theorem lpush_liveness_witness:
  "lpush full_store ''k'' [''a''] empty_mem = None"
proof -
  have "push_stuck full_store ''k'' {empty_mem}"
    by (simp add: push_stuck_def open_metadata_def full_store_def mem_store_def)
  with lpush_liveness [of empty_mem "{empty_mem}" full_store "''k''" "''a''" "[]"] show ?thesis by simp
qed

section \<open>Hashes\<close>

lemma hash_map_empty [simp]: "hash_map (\<lambda>x. None) key = Map.empty"
  by (auto simp: hash_map_def)

lemma hashes_ok_empty: "hashes_ok (new_tracker now) Map.empty"
  by (simp add: hashes_ok_def counts_ok_def counted_def counter_def pending_for_def new_tracker_def hash_map_def)

lemma plain_h: "plain_name ''h''"
  by (simp add: plain_name_def)

text \<open>A store with the hash \<open>{f: 7}\<close> under \<open>h\<close>, for the witnesses.\<close>

lemma hash_f7: "\<exists>tr s. mem_good s \<and> hashes_ok tr (mem_view s) \<and> hash_map (mem_view s) ''h'' = [''f'' \<mapsto> ''7''] \<and>
   finite (dom (mem_view s)) \<and> card (dom (mem_view s)) + 1 < 2 ^ 63"
proof -
  let ?s = "snd (fx_insert mem_store empty_mem (hash_field_key ''h'' ''f'') ''7'')"
  let ?tr = "add_update (hash_meta_key ''h'') 1 (new_tracker 0)"
  have good: "mem_good ?s" and view: "mem_view ?s = [hash_field_key ''h'' ''f'' \<mapsto> ''7'']"
    by (rule mem.insert_good, simp, simp) (subst mem.insert_view, simp_all)
  have empty: "hash_map Map.empty ''h'' = Map.empty" by simp
  have h: "hash_map (mem_view ?s) ''h'' = [''f'' \<mapsto> ''7'']"
    unfolding view by (subst hash_map_upd) (simp add: empty)
  have "counts_ok ?tr (mem_view ?s) (hash_size (mem_view ?s))"
    by (rule mem.hashes_ok_change(1) [OF hashes_ok_empty plain_h]) (auto simp: view h empty hash_map_upd)
  then show ?thesis using good h view by (intro exI [of _ ?tr] exI [of _ ?s]) (simp add: hashes_ok_def)
qed

text \<open>C8: HSET sets the given fields, replies how many are new, leaves every other hash alone, and keeps the
  books: stored count plus pending update stays the number of fields of every hash.\<close>

theorem hset_updates_hash:
  assumes "feox_store fx view good accepts" and "good s" and "hash_writable accepts" and "plain_name key"
    and "hashes_ok tr (view s)" and "card (dom (view s)) + length fvs < 2 ^ 63"
  shows "\<exists>tr' s'. hset fx now key fvs tr s =
       (Inr (word_of_nat (card (fst ` set fvs - dom (hash_map (view s) key)))), tr', s') \<and> good s' \<and>
     hashes_ok tr' (view s') \<and> hash_map (view s') key = hash_map (view s) key ++ map_of (rev fvs) \<and>
     (\<forall>other. plain_name other \<longrightarrow> other \<noteq> key \<longrightarrow> hash_map (view s') other = hash_map (view s) other)"
  using assms(2-) by (rule feox_store.hset_spec [OF assms(1)])

theorem hset_updates_hash_witness:
  "\<exists>tr' s'. hset mem_store 5 ''h'' [(''f'', ''1''), (''g'', ''2''), (''f'', ''3'')] (new_tracker 0) empty_mem = (Inr 2, tr', s') \<and>
     hash_map (mem_view s') ''h'' ''f'' = Some ''3''"
proof -
  have new: "fst ` set [(''f'', ''1''), (''g'', ''2''), (''f'', ''3'')] - dom (hash_map (mem_view empty_mem) ''h'') = {''f'', ''g''}"
    by (auto simp: hash_map_def)
  have "hashes_ok (new_tracker 0) (mem_view empty_mem)" using hashes_ok_empty by simp
  from hset_updates_hash [OF mem_is_store mem_good_empty mem_hash_writable plain_h this,
      of "[(''f'', ''1''), (''g'', ''2''), (''f'', ''3'')]" 5, unfolded new]
  show ?thesis by auto
qed

text \<open>C19: HDEL removes the named fields, replies how many there were, and keeps the books.\<close>

theorem hdel_removes_fields:
  assumes "feox_store fx view good accepts" and "good s" and "hash_writable accepts" and "plain_name key"
    and "hashes_ok tr (view s)" and "card (dom (view s)) < 2 ^ 63"
  shows "\<exists>tr' s'. hdel fx now key names tr s =
       (Inr (word_of_nat (card (set names \<inter> dom (hash_map (view s) key)))), tr', s') \<and> good s' \<and>
     hashes_ok tr' (view s') \<and> hash_map (view s') key = (hash_map (view s) key) |` (- set names) \<and>
     (\<forall>other. plain_name other \<longrightarrow> other \<noteq> key \<longrightarrow> hash_map (view s') other = hash_map (view s) other)"
  using assms(2-) by (rule feox_store.hdel_spec [OF assms(1)])

theorem hdel_removes_fields_witness:
  "\<exists>tr s tr' s'. hdel mem_store 5 ''h'' [''f'', ''x''] tr s = (Inr 1, tr', s') \<and> hash_map (mem_view s') ''h'' ''f'' = None"
proof -
  obtain tr s where s: "mem_good s" "hashes_ok tr (mem_view s)" "hash_map (mem_view s) ''h'' = [''f'' \<mapsto> ''7'']"
    "card (dom (mem_view s)) < 2 ^ 63" using hash_f7 by force
  from hdel_removes_fields [OF mem_is_store s(1) mem_hash_writable plain_h s(2,4), of 5 "[''f'', ''x'']"]
  have "\<exists>tr' s'. hdel mem_store 5 ''h'' [''f'', ''x''] tr s = (Inr 1, tr', s') \<and> hash_map (mem_view s') ''h'' ''f'' = None"
    by (auto simp: s(3))
  then show ?thesis by blast
qed

text \<open>C20: HINCRBY adds to the decimal text of a field, saturating at the bounds of 64-bit integers, takes an
  absent field as 0, refuses a value that is no number, and keeps the books.\<close>

theorem hincrby_adds:
  assumes "feox_store fx view good accepts" and "good s" and "hash_writable accepts" and "plain_name key"
    and "hashes_ok tr (view s)" and "card (dom (view s)) + 1 < 2 ^ 63"
    and "res = (case hash_map (view s) key f of None \<Rightarrow> Inr d | Some b \<Rightarrow> hash_value_add b d)"
  shows "hash_value_add (show_i64 v) d = Inr (i64_saturating_add v d) \<and>
     (\<exists>tr' s'. hincrby fx now key f d tr s = (res, tr', s') \<and> good s' \<and> hashes_ok tr' (view s') \<and>
       hash_map (view s') key = (case res of Inl _ \<Rightarrow> hash_map (view s) key
         | Inr n \<Rightarrow> (hash_map (view s) key)(f \<mapsto> show_i64 n)))"
  using feox_store.hincrby_spec [OF assms(1-6), where f = f and d = d and now = now] hash_value_add_decimal assms(7) by auto

theorem hincrby_adds_witness:
  "\<exists>tr s tr' s'. hincrby mem_store 5 ''h'' ''f'' 3 tr s = (Inr 10, tr', s') \<and> hash_map (mem_view s') ''h'' ''f'' = Some ''10''"
proof -
  obtain tr s where s: "mem_good s" "hashes_ok tr (mem_view s)" "hash_map (mem_view s) ''h'' = [''f'' \<mapsto> ''7'']"
    "card (dom (mem_view s)) + 1 < 2 ^ 63" using hash_f7 by blast
  have show7: "show_i64 7 = ''7''" and show10: "show_i64 10 = ''10''"
    by (simp_all add: show_i64_def show_int_def show_nat.simps digit_char_def char_of_def bit_0)
  have "hash_value_add ''7'' 3 = Inr (i64_saturating_add 7 3)"
    using hash_value_add_decimal [of 7 3] show7 by simp
  then have add: "hash_value_add ''7'' 3 = Inr 10" by (simp add: i64_saturating_add_def Let_def)
  from hincrby_adds [OF mem_is_store s(1) mem_hash_writable plain_h s(2,4), where f = "''f''" and d = 3 and v = 7 and now = 5 and res = "Inr 10"]
  have "\<exists>tr' s'. hincrby mem_store 5 ''h'' ''f'' 3 tr s = (Inr 10, tr', s') \<and> hash_map (mem_view s') ''h'' ''f'' = Some ''10''"
    by (auto simp: s(3) add show10)
  then show ?thesis by blast
qed

text \<open>C21: HLEN flushes the pending updates and replies the number of fields; no hash changes, in whatever
  order the pending updates are flushed.\<close>

theorem hlen_counts_fields:
  assumes "feox_store fx view good accepts" and "good s" and "hash_writable accepts" and "plain_name key"
    and "hashes_ok tr (view s)"
  shows "(\<exists>tr' s'. hlen fx now key tr s = (Inr (word_of_nat (hash_size (view s) key)), tr', s') \<and> good s' \<and>
     hashes_ok tr' (view s') \<and> (\<forall>j. plain_name j \<longrightarrow> hash_map (view s') j = hash_map (view s) j)) \<and>
     (\<forall>us. mset us = mset (pending_updates tr) \<longrightarrow>
        view (flush_updates fx us s) = view (flush_updates fx (pending_updates tr) s))"
proof -
  have cnt: "counts_ok tr (view s) (hash_size (view s))" using assms(5) by (simp add: hashes_ok_def)
  have "view (flush_updates fx us s) = view (flush_updates fx (pending_updates tr) s)"
    if "mset us = mset (pending_updates tr)" for us
  proof (rule feox_store.flush_order [OF assms(1,2) _ _ _ that])
    show "distinct (map fst (pending_updates tr))" using cnt by (simp add: counts_ok_def)
    show "incr_ok (view s) u" if "u \<in> set (pending_updates tr)" for u using counts_ok_incr_ok [OF cnt that] .
    show "accepts k v" if "(k, d) \<in> set (pending_updates tr)" for k d v
      using assms(3) cnt that by (force simp: counts_ok_def)
  qed
  with feox_store.hlen_spec [OF assms] show ?thesis by blast
qed

theorem hlen_counts_fields_witness:
  "\<exists>tr s tr' s'. hlen mem_store 5 ''h'' tr s = (Inr 1, tr', s') \<and> hash_map (mem_view s') ''h'' ''f'' = Some ''7''"
proof -
  obtain tr s where s: "mem_good s" "hashes_ok tr (mem_view s)" "hash_map (mem_view s) ''h'' = [''f'' \<mapsto> ''7'']"
    using hash_f7 by blast
  from hlen_counts_fields [OF mem_is_store s(1) mem_hash_writable plain_h s(2), of 5]
  have "\<exists>tr' s'. hlen mem_store 5 ''h'' tr s = (Inr 1, tr', s') \<and> hash_map (mem_view s') ''h'' ''f'' = Some ''7''"
    using plain_h by (auto simp: s(3))
  then show ?thesis by blast
qed

text \<open>C35: HGETALL lists, in order and each once, the fields up to the one-byte field \<open>0xFF\<close> with their
  values (at most 10000); HKEYS and HVALS are its two columns.\<close>

theorem hgetall_lists_fields:
  assumes "feox_store fx view good accepts" and "good s" and "length (listed_fields (view s) key) \<le> 10000"
  shows "\<exists>s'. hgetall fx key s = (Inr (listed_fields (view s) key), s') \<and>
     hkeys fx key s = (Inr (map fst (listed_fields (view s) key)), s') \<and>
     hvals fx key s = (Inr (map snd (listed_fields (view s) key)), s') \<and> view s' = view s"
  using feox_store.hgetall_spec [OF assms] hkeys_is_hgetall [of fx key s] hvals_is_hgetall [of fx key s] by auto

theorem hgetall_lists_fields_witness:
  "\<exists>s s'. hgetall mem_store ''h'' s = (Inr [(''f'', ''7'')], s')"
proof -
  obtain s where s: "mem_good s" "hash_map (mem_view s) ''h'' = [''f'' \<mapsto> ''7'']" using hash_f7 by blast
  have "{x. x = ''f'' \<and> x \<le> [CHR 0xFF]} = {''f''}" by auto
  then have "listed_fields (mem_view s) ''h'' = [(''f'', ''7'')]" by (simp add: listed_fields_def s(2))
  with hgetall_lists_fields [OF mem_is_store s(1), of "''h''"] show ?thesis by auto
qed

text \<open>Hashes whose names hold a colon are not separate: the field \<open>x:f:y\<close> of the hash \<open>a\<close> is the
  field \<open>y\<close> of the hash \<open>a:f:x\<close>. Hashes with plain names are.\<close>

lemma hash_names_collide:
  "hget fx ''a'' (''x:f:'' @ y) s = hget fx ''a:f:x'' y s \<and>
   (plain_name k1 \<longrightarrow> plain_name k2 \<longrightarrow> hash_field_key k1 f1 = hash_field_key k2 f2 \<longrightarrow> k1 = k2 \<and> f1 = f2)"
  using hash_field_key_clash [of y] hash_field_key_plain by (auto simp: hget_def)

lemma hash_names_collide_witness: "hash_field_key ''h'' ''f'' \<noteq> hash_field_key ''g'' ''f''"
  using hash_names_collide [where ?k1.0 = "''h''" and ?k2.0 = "''g''" and ?f1.0 = "''f''" and ?f2.0 = "''f''"] by (auto simp: plain_name_def)

section \<open>Keys\<close>

text \<open>A shared state over the empty store, and one that holds the key \<open>k\<close>.\<close>

definition empty_world :: "mem world" where
  "empty_world = \<lparr>wd_store = empty_mem, wd_watch = new_watch, wd_tracker = new_tracker 0, wd_clients = new_client_registry\<rparr>"

lemma empty_world_simps [simp]:
  "wd_store empty_world = empty_mem" "wd_watch empty_world = new_watch"
  by (simp_all add: empty_world_def)

lemma world_with: "\<exists>w :: mem world. mem_good (wd_store w) \<and> mem_view (wd_store w) = [k \<mapsto> v] \<and> wd_watch w = new_watch"
proof -
  obtain s where "mem_good s" "mem_view s = [k \<mapsto> v]"
    using mem.insert_run [of empty_mem k v] by auto
  then show ?thesis by (intro exI [of _ "set_store s empty_world"]) simp
qed

text \<open>SET stores the value whatever expiry is given (0 seconds apart), replies \<open>OK\<close>, notifies the watchers of exactly this
  key and changes no other key; a GET right after it replies the value. The fast path of the connection does
  the same as a SET without expiry.\<close>

lemma set_then_get:
  assumes "feox_store fx view good accepts" and "good (wd_store w)" and "accepts key v" and "seconds_given ex px \<noteq> Some 0"
  shows "\<exists>s1 s2. exec_set fx key v ex px w = (SimpleString ''OK'', notify key (set_store s1 w)) \<and> good s1 \<and>
     view s1 = (view (wd_store w))(key \<mapsto> v) \<and>
     exec_get fx key (set_store s1 w) = (BulkString (Some v), set_store s2 w) \<and> view s2 = view s1 \<and>
     exec_set fx key v None None w = (SimpleString ''OK'', snd (fast_set_bytes fx key v w)) \<and>
     fst (fast_set_bytes fx key v w) = Inr ()"
proof -
  obtain s1 where s1: "exec_set fx key v ex px w = (SimpleString ''OK'', notify key (set_store s1 w))" "good s1"
    "view s1 = (view (wd_store w))(key \<mapsto> v)"
    using feox_store.exec_set_spec [OF assms] by blast
  from feox_store.exec_get_spec [OF assms(1), of "set_store s1 w" key] s1(2) obtain s2 where
    "exec_get fx key (set_store s1 w) = (BulkString (view s1 key), set_store s2 (set_store s1 w))" "view s2 = view s1" by auto
  with s1 feox_store.fast_set_is_exec_set [OF assms(1-3)] show ?thesis
    by (intro exI [of _ s1] exI [of _ s2]) simp
qed

lemma set_then_get_witness:
  "\<exists>s1 s2. exec_set mem_store ''k'' ''v'' (Some 10) None empty_world = (SimpleString ''OK'', notify ''k'' (set_store s1 empty_world)) \<and>
     exec_get mem_store ''k'' (set_store s1 empty_world) = (BulkString (Some ''v''), set_store s2 empty_world)"
  using set_then_get [OF mem_is_store, where w = empty_world and key = "''k''" and v = "''v''" and ex = "Some 10" and px = None] by auto



text \<open>DEL removes the given keys, replies how many of them there were, a repeated key counted once, and
  notifies the watchers of exactly those.\<close>

lemma del_removes:
  assumes "feox_store fx view good accepts" and "good (wd_store w)"
  shows "\<exists>ks s'. exec_del fx keys w = (Integer (word_of_nat (card (set keys \<inter> dom (view (wd_store w))))),
       w\<lparr>wd_store := s', wd_watch := fold notify_key_modified ks (wd_watch w)\<rparr>) \<and> good s' \<and>
     view s' = view (wd_store w) |` (- set keys) \<and> set ks = set keys \<inter> dom (view (wd_store w))"
  using assms(2) by (rule feox_store.exec_del_spec [OF assms(1)])

lemma del_removes_witness:
  "\<exists>w w'. exec_del mem_store [''k'', ''x'', ''k''] w = (Integer 1, w') \<and> mem_view (wd_store w') = Map.empty"
proof -
  obtain w :: "mem world" where w: "mem_good (wd_store w)" "mem_view (wd_store w) = [''k'' \<mapsto> ''v'']" using world_with by blast
  have one: "set [''k'', ''x'', ''k''] \<inter> dom (mem_view (wd_store w)) = {''k''}" using w(2) by auto
  have card_one: "word_of_nat (card {''k''}) = (1 :: i64)" by simp
  have none: "mem_view (wd_store w) |` (- set [''k'', ''x'', ''k'']) = Map.empty" using w(2) by (auto simp: restrict_map_def)
  from del_removes [OF mem_is_store w(1), of "[''k'', ''x'', ''k'']", unfolded one none, simplified card_one]
  have "\<exists>w'. exec_del mem_store [''k'', ''x'', ''k''] w = (Integer 1, w') \<and> mem_view (wd_store w') = Map.empty"
    by (elim exE conjE) (rule exI, rule conjI, assumption, simp)
  then show ?thesis by blast
qed

text \<open>MSET stores the pairs in order, the last of equal keys wins, and notifies each key; MGET then replies
  the value of every key it is asked for, in the order asked, absent ones as no value.\<close>

lemma mset_then_mget:
  assumes "feox_store fx view good accepts" and "good (wd_store w)"
    and "\<And>k v. (k, v) \<in> set pairs \<Longrightarrow> accepts k v"
  shows "\<exists>w1 w2. exec_mset fx pairs w = (SimpleString ''OK'', w1) \<and>
     view (wd_store w1) = view (wd_store w) ++ map_of (rev pairs) \<and>
     wd_watch w1 = fold notify_key_modified (map fst pairs) (wd_watch w) \<and>
     exec_mget fx keys w1 =
       (Array (Some (map (\<lambda>k. BulkString ((view (wd_store w) ++ map_of (rev pairs)) k)) keys)), w2)"
proof -
  obtain s1 where s1: "exec_mset fx pairs w = (SimpleString ''OK'',
       w\<lparr>wd_store := s1, wd_watch := fold notify_key_modified (map fst pairs) (wd_watch w)\<rparr>)" "good s1"
    "view s1 = view (wd_store w) ++ map_of (rev pairs)"
    using feox_store.exec_mset_spec [OF assms(1,2)] assms(3) by blast
  from feox_store.exec_mget_spec [OF assms(1), of "w\<lparr>wd_store := s1, wd_watch := fold notify_key_modified (map fst pairs) (wd_watch w)\<rparr>" keys] s1
  show ?thesis by auto
qed

lemma mset_then_mget_witness:
  "\<exists>w1 w2. exec_mset mem_store [(''a'', ''1''), (''a'', ''2'')] empty_world = (SimpleString ''OK'', w1) \<and>
     exec_mget mem_store [''a'', ''b''] w1 = (Array (Some [BulkString (Some ''2''), BulkString None]), w2)"
proof -
  have good: "mem_good (wd_store empty_world)" by simp
  from mset_then_mget [OF mem_is_store good, of "[(''a'', ''1''), (''a'', ''2'')]" "[''a'', ''b'']"]
  show ?thesis by auto
qed

text \<open>C36: INCR and its relatives. A new key is created as eight binary bytes; a decimal text, unless its length
  is 8, is added to with 64-bit wrap-around and stored as text; any value of eight bytes is added to as a binary
  number. Each replies the new value and notifies the key.\<close>

theorem incr_three_cases:
  assumes "feox_store fx view good accepts" and "good (wd_store w)" and "\<And>v. accepts key v"
  shows "(view (wd_store w) key = None \<longrightarrow>
      (\<exists>s'. string_incr fx key d w = (Integer d, notify key (set_store s' w)) \<and>
         view s' = (view (wd_store w))(key \<mapsto> to_le_bytes d))) \<and>
    (view (wd_store w) key = Some (show_i64 v) \<longrightarrow> length (show_i64 v) \<noteq> 8 \<longrightarrow>
      (\<exists>s'. string_incr fx key d w = (Integer (v + d), notify key (set_store s' w)) \<and>
         view s' = (view (wd_store w))(key \<mapsto> show_i64 (v + d)))) \<and>
    (\<forall>b. view (wd_store w) key = Some b \<longrightarrow> length b = 8 \<longrightarrow> in_i64 (sint (from_le_bytes b) + sint d) \<longrightarrow>
      (\<exists>s'. string_incr fx key d w = (Integer (from_le_bytes b + d), notify key (set_store s' w)) \<and>
         view s' = (view (wd_store w))(key \<mapsto> to_le_bytes (from_le_bytes b + d))))"
  using feox_store.incr_absent_spec [OF assms(1,2) _ assms(3), of d] feox_store.incr_decimal_spec [OF assms(1,2) _ _ assms(3), of v d]
    feox_store.incr_counter_spec [OF assms(1,2), of key _ d] by blast

theorem incr_three_cases_witness:
  "\<exists>w w'. mem_view (wd_store w) ''n'' = Some ''9'' \<and> string_incr mem_store ''n'' 1 w = (Integer 10, w') \<and>
     mem_view (wd_store w') ''n'' = Some ''10''"
proof -
  obtain w :: "mem world" where w: "mem_good (wd_store w)" "mem_view (wd_store w) = [''n'' \<mapsto> ''9'']" using world_with by blast
  have "show_i64 9 = ''9''" "show_i64 10 = ''10''"
    by (simp_all add: show_i64_def show_int_def show_nat.simps digit_char_def char_of_def bit_0)
  with incr_three_cases [OF mem_is_store w(1), of "''n''" 1 9] w(2)
  have "\<exists>w'. string_incr mem_store ''n'' 1 w = (Integer 10, w') \<and> mem_view (wd_store w') ''n'' = Some ''10''" by auto
  moreover have "mem_view (wd_store w) ''n'' = Some ''9''" using w(2) by simp
  ultimately show ?thesis by blast
qed

text \<open>C23: KEYS lists exactly the keys that match the pattern, in order, for up to 100000 keys of ASCII characters
  below the tilde and shorter than 255 bytes.\<close>

theorem keys_lists_matches:
  assumes "feox_store fx view good accepts" and "good (wd_store w)"
    and "\<forall>k \<in> dom (view (wd_store w)). low_ascii k" and "card (dom (view (wd_store w))) \<le> 100000"
  shows "\<exists>s'. exec_keys fx pattern w =
       (bulks (filter (matches pattern) (sorted_list_of_set (dom (view (wd_store w))))), set_store s' w) \<and>
     good s' \<and> view s' = view (wd_store w)"
  using assms(2-) by (rule feox_store.exec_keys_spec [OF assms(1)])

theorem keys_lists_matches_witness:
  "\<exists>w w'. exec_keys mem_store ''k'' w = (bulks [''k''], w')"
proof -
  obtain w :: "mem world" where w: "mem_good (wd_store w)" "mem_view (wd_store w) = [''k'' \<mapsto> ''v'']" using world_with by blast
  have "matches ''k'' ''k''" using matches_literal [of "''k''" "''k''"] by simp
  with keys_lists_matches [OF mem_is_store w(1), of "''k''"] w(2) show ?thesis
    by (auto simp: low_ascii_def)
qed

text \<open>C24: Following the cursors of SCAN from \<open>0\<close> until the server replies \<open>0\<close> ends and yields every key once, in
  order, for every page size above 0, when the store does not change and no key is longer than 255 bytes or is \<open>0\<close>.\<close>

theorem scan_yields_all:
  assumes "feox_store fx view good accepts" and "good (wd_store w)" and "unat cnt + 1 < 2 ^ 64" and "0 < unat cnt"
    and "\<forall>k \<in> dom (view (wd_store w)). length k \<le> 255" and "''0'' \<notin> dom (view (wd_store w))"
    and "card (dom (view (wd_store w))) < fuel"
  shows "scan_all fx fuel ''0'' cnt w = Some (sorted_list_of_set (dom (view (wd_store w))))"
  using assms(2-) by (intro feox_store.scan_all_from [OF assms(1)]) auto

theorem scan_yields_all_witness:
  "\<exists>w. scan_all mem_store 2 ''0'' 10 w = Some [''k'']"
proof -
  obtain w :: "mem world" where w: "mem_good (wd_store w)" "mem_view (wd_store w) = [''k'' \<mapsto> ''v'']" using world_with by blast
  from scan_yields_all [OF mem_is_store w(1), of 10 2] w(2) show ?thesis by auto
qed

text \<open>C37: CAS replaces the value exactly if it is the expected one and replies 1 for that, 0 for another value and
  an error without one. It tells no watcher, and neither does JSONPATCH: a transaction that watches a key
  changed by them is not aborted.\<close>

theorem cas_swaps_silently:
  assumes "feox_store fx view good accepts" and "good (wd_store w)" and "accepts key new"
  shows "\<exists>s'. exec_cas fx key expected new w =
      (case view (wd_store w) key of
         None \<Rightarrow> (db_error fx KeyNotFound, set_store s' w)
       | Some v \<Rightarrow> (Integer (if v = expected then 1 else 0), set_store s' w)) \<and>
     view s' = (if view (wd_store w) key = Some expected then (view (wd_store w))(key \<mapsto> new) else view (wd_store w)) \<and>
     wd_watch (snd (exec_cas fx key expected new w)) = wd_watch w \<and>
     wd_watch (snd (exec_json_patch fx key patch w)) = wd_watch w"
  using feox_store.exec_cas_spec [OF assms, of expected] cas_never_notifies by blast

theorem cas_swaps_silently_witness:
  "\<exists>w w'. exec_cas mem_store ''k'' ''v'' ''x'' w = (Integer 1, w') \<and> mem_view (wd_store w') ''k'' = Some ''x'' \<and>
     wd_watch w' = wd_watch w"
proof -
  obtain w :: "mem world" where w: "mem_good (wd_store w)" "mem_view (wd_store w) = [''k'' \<mapsto> ''v'']" using world_with by blast
  from cas_swaps_silently [OF mem_is_store w(1), where key = "''k''" and new = "''x''" and expected = "''v''" and patch = "[]"] w(2)
  have "\<exists>w'. exec_cas mem_store ''k'' ''v'' ''x'' w = (Integer 1, w') \<and> mem_view (wd_store w') ''k'' = Some ''x'' \<and>
     wd_watch w' = wd_watch w" by auto
  then show ?thesis by blast
qed

text \<open>What WATCH and EXEC compare: the versions taken of some keys are unchanged exactly if none of them has
  been notified since, as long as the global counter does not wrap.\<close>

lemma watch_detects_changes:
  assumes "watch_room w (length changed)"
  shows "check_keys_unchanged (fold notify_key_modified changed w) (map (\<lambda>k. (k, get_key_version w k)) keys) \<longleftrightarrow>
     set changed \<inter> set keys = {}"
  using assms by (rule check_after_notifications)

lemma watch_detects_changes_witness:
  "\<not> check_keys_unchanged (fold notify_key_modified [''a'', ''b''] new_watch) [(''b'', get_key_version new_watch ''b'')]"
  using watch_detects_changes [of new_watch "[''a'', ''b'']" "[''b'']"] watch_room_new [of "Suc (Suc 0)"] by simp

end
