(* ===== verification/Pubsub_Message.thy ===== *)
theory Pubsub_Message
  imports Resp
begin

text \<open>
  \<open>src/src/pubsub/message.rs\<close>: what worker threads send each other, and what subscribers are
  sent, with its RESP form. Connections and threads are named by numbers.
\<close>

datatype broadcast_msg =
    BPublish (bm_channel: bytes) (bm_message: bytes) (bm_exclude_thread: "nat option")
  | BPatternPublish (bm_channel: bytes) (bm_message: bytes) (bm_exclude_thread: "nat option")

datatype pubsub_message =
    PMessage bytes bytes
  | PPatternMessage bytes bytes bytes
  | PSubscribed bytes nat
  | PUnsubscribed "bytes option" nat
  | PPSubscribed bytes nat
  | PPUnsubscribed "bytes option" nat

definition to_resp :: "pubsub_message \<Rightarrow> resp_value" where
  "to_resp m = Array (Some (case m of
     PMessage channel payload \<Rightarrow>
       [BulkString (Some ''message''), BulkString (Some channel), BulkString (Some payload)]
   | PPatternMessage pattern channel payload \<Rightarrow>
       [BulkString (Some ''pmessage''), BulkString (Some pattern), BulkString (Some channel), BulkString (Some payload)]
   | PSubscribed channel count \<Rightarrow>
       [BulkString (Some ''subscribe''), BulkString (Some channel), Integer (word_of_nat count)]
   | PUnsubscribed channel count \<Rightarrow>
       [BulkString (Some ''unsubscribe''), BulkString channel, Integer (word_of_nat count)]
   | PPSubscribed pattern count \<Rightarrow>
       [BulkString (Some ''psubscribe''), BulkString (Some pattern), Integer (word_of_nat count)]
   | PPUnsubscribed pattern count \<Rightarrow>
       [BulkString (Some ''punsubscribe''), BulkString pattern, Integer (word_of_nat count)]))"

text \<open>A delivered message can be read back from its RESP form: subscribers can tell the two kinds apart.\<close>

definition of_resp :: "resp_value \<Rightarrow> pubsub_message option" where
  "of_resp v = (case v of
     Array (Some [BulkString (Some kind), BulkString (Some channel), BulkString (Some payload)]) \<Rightarrow>
       if kind = ''message'' then Some (PMessage channel payload) else None
   | Array (Some [BulkString (Some kind), BulkString (Some pattern), BulkString (Some channel), BulkString (Some payload)]) \<Rightarrow>
       if kind = ''pmessage'' then Some (PPatternMessage pattern channel payload) else None
   | _ \<Rightarrow> None)"

lemma of_to_resp:
  "of_resp (to_resp (PMessage channel payload)) = Some (PMessage channel payload)"
  "of_resp (to_resp (PPatternMessage pattern channel payload)) = Some (PPatternMessage pattern channel payload)"
  by (simp_all add: to_resp_def of_resp_def)

end
