(* ===== verification/Connection.thy ===== *)
theory Connection
  imports Executor Resp_Parser Pubsub_Message
begin

text \<open>
  \<open>src/src/network/connection.rs\<close>: one client connection: the parser and the executor it owns,
  authentication, the write buffer, transactions, the client metadata, and the loop over the
  commands of one read. \<open>None\<close> is a read that never returns, because a list command in it
  does not. \<open>cap\<close> is the capacity bound of the RESP parser.
\<close>

section \<open>State\<close>

datatype tx_state = NoTransaction | Queuing

record connection =
  cn_fd :: int
  cn_parser :: resp_parser
  cn_executor :: executor
  cn_authenticated :: bool
  cn_auth_required :: bool
  cn_write_buffer :: bytes
  cn_write_position :: nat
  cn_pipeline_depth :: nat
  cn_closed :: bool
  cn_connection_id :: nat
  cn_subscription_count :: nat
  cn_pending_pubsub_messages :: "pubsub_message list"
  cn_client_name :: "bytes option"
  cn_client_addr :: "bytes option"
  cn_connected_at :: nat
  cn_commands_processed :: nat
  cn_flags :: "bytes list"
  cn_transaction_state :: tx_state
  cn_queued_commands :: "command list"
  cn_watched_keys :: "(bytes \<times> u64) list"

text \<open>
  \<open>connection_id\<close> is the next value of the process-wide counter. The buffer size of the source
  is only the initial capacity of the write buffer.
\<close>

definition new_with_addr :: "int \<Rightarrow> env \<Rightarrow> config \<Rightarrow> bytes option \<Rightarrow> nat \<Rightarrow> connection" where
  "new_with_addr fd env config addr connection_id = \<lparr>
     cn_fd = fd, cn_parser = new_parser, cn_executor = new_executor env config,
     cn_authenticated = (\<not> auth_required config), cn_auth_required = auth_required config,
     cn_write_buffer = [], cn_write_position = 0, cn_pipeline_depth = 0, cn_closed = False,
     cn_connection_id = connection_id, cn_subscription_count = 0, cn_pending_pubsub_messages = [],
     cn_client_name = None, cn_client_addr = addr, cn_connected_at = env_unix env,
     cn_commands_processed = 0, cn_flags = [], cn_transaction_state = NoTransaction,
     cn_queued_commands = [], cn_watched_keys = []\<rparr>"

definition set_client_registry :: "connection \<Rightarrow> connection" where
  "set_client_registry conn =
     conn\<lparr>cn_executor := with_client_info (cn_connection_id conn) (cn_executor conn)\<rparr>"

definition close_connection :: "connection \<Rightarrow> connection" where
  "close_connection conn = (if \<not> cn_closed conn then conn\<lparr>cn_closed := True\<rparr> else conn)"

definition is_authenticated :: "connection \<Rightarrow> bool" where
  "is_authenticated conn \<longleftrightarrow> \<not> cn_auth_required conn \<or> cn_authenticated conn"

definition is_in_pubsub_mode :: "connection \<Rightarrow> bool" where
  "is_in_pubsub_mode conn \<longleftrightarrow> 0 < cn_subscription_count conn"

text \<open>Appending a reply, or raw bytes, to the write buffer.\<close>

definition reply :: "resp_value \<Rightarrow> connection \<Rightarrow> connection" where
  "reply v conn = conn\<lparr>cn_write_buffer := write_resp_value (cn_write_buffer conn) v\<rparr>"

definition emit :: "bytes \<Rightarrow> connection \<Rightarrow> connection" where
  "emit bs conn = conn\<lparr>cn_write_buffer := cn_write_buffer conn @ bs\<rparr>"

section \<open>The fast path\<close>

definition fast_error :: "'s feox \<Rightarrow> feox_error \<Rightarrow> bytes" where
  "fast_error fx e = ''-ERR '' @ fx_show_error fx e @ [CHR 0x0D, CHR 0x0A]"

definition fast_path_get ::
  "'s feox \<Rightarrow> bytes \<Rightarrow> resp_value list \<Rightarrow> connection \<Rightarrow> 's world \<Rightarrow> bool \<times> connection \<times> 's world" where
  "fast_path_get fx name args conn w =
     (if length name = 3 \<and> eq_ignore_ascii_case name ''GET'' \<and> length args = 2
      then (case args ! 1 of
        BulkString (Some key) \<Rightarrow>
          (case fast_get fx key w of
             (Inr value, w1) \<Rightarrow>
               (True, emit (''$'' @ show_nat (length value) @ [CHR 0x0D, CHR 0x0A] @ value @ [CHR 0x0D, CHR 0x0A]) conn, w1)
           | (Inl KeyNotFound, w1) \<Rightarrow> (True, emit (''$-1'' @ [CHR 0x0D, CHR 0x0A]) conn, w1)
           | (Inl e, w1) \<Rightarrow> (True, emit (fast_error fx e) conn, w1))
      | _ \<Rightarrow> (False, conn, w))
      else (False, conn, w))"

definition try_fast_path ::
  "'s feox \<Rightarrow> resp_value \<Rightarrow> connection \<Rightarrow> 's world \<Rightarrow> bool \<times> connection \<times> 's world" where
  "try_fast_path fx v conn w = (case v of
     Array (Some args) \<Rightarrow>
       if length args < 2 then (False, conn, w)
       else (case args ! 0 of
         BulkString (Some name) \<Rightarrow>
           if length name = 3 \<and> eq_ignore_ascii_case name ''SET'' \<and> 3 \<le> length args
           then (case (args ! 1, args ! 2) of
             (BulkString (Some key), BulkString (Some value)) \<Rightarrow>
               if length args = 3
               then (case fast_set_bytes fx key value w of
                       (Inr _, w1) \<Rightarrow> (True, emit (''+OK'' @ [CHR 0x0D, CHR 0x0A]) conn, w1)
                     | (Inl e, w1) \<Rightarrow> (True, emit (fast_error fx e) conn, w1))
               else fast_path_get fx name args conn w
           | _ \<Rightarrow> (False, conn, w))
           else fast_path_get fx name args conn w
       | _ \<Rightarrow> (False, conn, w))
   | _ \<Rightarrow> (False, conn, w))"

section \<open>Transactions\<close>

fun execute_all ::
  "'s feox \<Rightarrow> env \<Rightarrow> executor \<Rightarrow> command list \<Rightarrow> 's world \<Rightarrow> (resp_value list \<times> executor \<times> 's world) option" where
  "execute_all fx env ex [] w = Some ([], ex, w)"
| "execute_all fx env ex (c # cs) w = (case execute fx env ex c w of
     None \<Rightarrow> None
   | Some (r, ex1, w1) \<Rightarrow> (case execute_all fx env ex1 cs w1 of
       None \<Rightarrow> None
     | Some (rs, ex2, w2) \<Rightarrow> Some (r # rs, ex2, w2)))"

definition ok_reply :: resp_value where
  "ok_reply = SimpleString ''OK''"

definition handle_multi :: "connection \<Rightarrow> connection" where
  "handle_multi conn =
     (if cn_transaction_state conn = Queuing then reply (Error ''-ERR MULTI calls can not be nested'') conn
      else reply ok_reply (conn\<lparr>cn_transaction_state := Queuing, cn_queued_commands := []\<rparr>))"

definition handle_exec :: "'s feox \<Rightarrow> env \<Rightarrow> connection \<Rightarrow> 's world \<Rightarrow> (connection \<times> 's world) option" where
  "handle_exec fx env conn w =
     (if cn_transaction_state conn \<noteq> Queuing then Some (reply (Error ''-ERR EXEC without MULTI'') conn, w)
      else if \<not> check_keys_unchanged (wd_watch w) (cn_watched_keys conn)
      then Some (reply (BulkString None)
        (conn\<lparr>cn_transaction_state := NoTransaction, cn_queued_commands := [], cn_watched_keys := []\<rparr>), w)
      else (case execute_all fx env (cn_executor conn) (cn_queued_commands conn) w of
        None \<Rightarrow> None
      | Some (results, ex, w1) \<Rightarrow> Some (reply (Array (Some results))
          (conn\<lparr>cn_executor := ex, cn_queued_commands := [], cn_transaction_state := NoTransaction,
             cn_watched_keys := []\<rparr>), w1)))"

definition handle_discard :: "connection \<Rightarrow> connection" where
  "handle_discard conn =
     (if cn_transaction_state conn \<noteq> Queuing then reply (Error ''-ERR DISCARD without MULTI'') conn
      else reply ok_reply
        (conn\<lparr>cn_transaction_state := NoTransaction, cn_queued_commands := [], cn_watched_keys := []\<rparr>))"

definition handle_watch :: "bytes list \<Rightarrow> connection \<Rightarrow> watch \<Rightarrow> connection" where
  "handle_watch keys conn watch =
     (if cn_transaction_state conn = Queuing then reply (Error ''-ERR WATCH inside MULTI is not allowed'') conn
      else reply ok_reply (conn\<lparr>cn_watched_keys :=
        fold (\<lambda>key watched. AList.update key (get_key_version watch key) watched) keys (cn_watched_keys conn)\<rparr>))"

definition handle_unwatch :: "connection \<Rightarrow> connection" where
  "handle_unwatch conn = reply ok_reply (conn\<lparr>cn_watched_keys := []\<rparr>)"

text \<open>The match over the transaction commands; the inner \<open>None\<close> is its last arm, any other command.\<close>

definition handle_transaction ::
  "'s feox \<Rightarrow> env \<Rightarrow> command \<Rightarrow> connection \<Rightarrow> 's world \<Rightarrow> (connection \<times> 's world) option option" where
  "handle_transaction fx env c conn w = (case c of
     Multi \<Rightarrow> Some (Some (handle_multi conn, w))
   | Exec \<Rightarrow> (case handle_exec fx env conn w of None \<Rightarrow> None | Some r \<Rightarrow> Some (Some r))
   | Discard \<Rightarrow> Some (Some (handle_discard conn, w))
   | Watch keys \<Rightarrow> Some (Some (handle_watch keys conn (wd_watch w), w))
   | Unwatch \<Rightarrow> Some (Some (handle_unwatch conn, w))
   | _ \<Rightarrow> Some None)"

section \<open>One value\<close>

text \<open>How the loop goes on after a value.\<close>

datatype control = Next | NextOp pubsub_op | Quitting | Failing server_error

definition set_client_name :: "command \<Rightarrow> connection \<Rightarrow> connection" where
  "set_client_name c conn = (case c of
     Client subcommand args \<Rightarrow>
       if str_to_uppercase subcommand = ''SETNAME'' \<and> args \<noteq> []
       then conn\<lparr>cn_client_name := Some (utf8_lossy (args ! 0))\<rparr> else conn
   | _ \<Rightarrow> conn)"

definition respond :: "resp_value \<Rightarrow> connection \<Rightarrow> connection" where
  "respond v conn = (reply v conn)\<lparr>cn_pipeline_depth := cn_pipeline_depth conn + 1\<rparr>"

definition handle_auth :: "bytes \<Rightarrow> connection \<Rightarrow> connection" where
  "handle_auth password conn =
     (if \<not> cn_auth_required conn then respond (Error ''-ERR Client sent AUTH, but no password is set'') conn
      else if check_auth (cn_executor conn) (utf8_lossy password)
      then respond ok_reply (conn\<lparr>cn_authenticated := True\<rparr>)
      else respond (Error ''-ERR invalid password'') conn)"

definition run_and_respond ::
  "'s feox \<Rightarrow> env \<Rightarrow> command \<Rightarrow> connection \<Rightarrow> 's world \<Rightarrow> (control \<times> connection \<times> 's world) option" where
  "run_and_respond fx env c conn w = (case execute fx env (cn_executor conn) c w of
     None \<Rightarrow> None
   | Some (v, ex, w1) \<Rightarrow> Some (Next, respond v (conn\<lparr>cn_executor := ex\<rparr>), w1))"

definition is_auth :: "command \<Rightarrow> bool" where
  "is_auth c = (case c of Auth _ \<Rightarrow> True | _ \<Rightarrow> False)"

definition is_ping :: "command \<Rightarrow> bool" where
  "is_ping c = (case c of Ping _ \<Rightarrow> True | _ \<Rightarrow> False)"

definition unknown_pubsub :: "command \<Rightarrow> resp_value" where
  "unknown_pubsub c = (case c of
     PubSub subcommand _ \<Rightarrow> Error (''ERR Unknown PUBSUB subcommand '' @ quoted subcommand)
   | _ \<Rightarrow> Error ''ERR Failed to process pub/sub command'')"

definition respond_pubsub :: "command \<Rightarrow> connection \<Rightarrow> 's world \<Rightarrow> control \<times> connection \<times> 's world" where
  "respond_pubsub c conn w = (case to_pubsub_op c of
     Some pubsub_op \<Rightarrow> (NextOp pubsub_op, conn, w)
   | None \<Rightarrow> (Next, respond (unknown_pubsub c) conn, w))"

definition dispatch ::
  "'s feox \<Rightarrow> env \<Rightarrow> command \<Rightarrow> connection \<Rightarrow> 's world \<Rightarrow> (control \<times> connection \<times> 's world) option" where
  "dispatch fx env c conn w =
     (if \<not> cn_authenticated conn \<and> \<not> is_auth c
      then (if is_ping c then run_and_respond fx env c conn w
            else Some (Next, respond (Error ''-NOAUTH Authentication required.'') conn, w))
      else (case c of
        Auth password \<Rightarrow> Some (Next, handle_auth password conn, w)
      | _ \<Rightarrow>
          if is_pubsub_command c then Some (respond_pubsub c conn w)
          else run_and_respond fx env c conn w))"

definition handle_command ::
  "'s feox \<Rightarrow> env \<Rightarrow> command \<Rightarrow> connection \<Rightarrow> 's world \<Rightarrow> (control \<times> connection \<times> 's world) option" where
  "handle_command fx env c conn w =
     (if c = Quit
      then Some (Quitting, emit (''+OK'' @ [CHR 0x0D, CHR 0x0A]) (conn\<lparr>cn_closed := True\<rparr>), w)
      else if is_in_pubsub_mode conn \<and> \<not> is_allowed_in_pubsub_mode c
      then Some (Next, reply (Error
        ''-ERR only (P)SUBSCRIBE / (P)UNSUBSCRIBE / PING / QUIT allowed in this context'') conn, w)
      else
        (let conn1 = set_client_name c conn in
         case handle_transaction fx env c conn1 w of
           None \<Rightarrow> None
         | Some (Some (conn2, w2)) \<Rightarrow> Some (Next, conn2, w2)
         | Some None \<Rightarrow>
             if cn_transaction_state conn1 = Queuing
             then Some (Next, reply (SimpleString ''QUEUED'')
               (conn1\<lparr>cn_queued_commands := cn_queued_commands conn1 @ [c]\<rparr>), w)
             else dispatch fx env c conn1 w))"

definition handle_value ::
  "'s feox \<Rightarrow> env \<Rightarrow> resp_value \<Rightarrow> connection \<Rightarrow> 's world \<Rightarrow> (control \<times> connection \<times> 's world) option" where
  "handle_value fx env v conn0 w =
     (let conn = conn0\<lparr>cn_commands_processed := cn_commands_processed conn0 + 1\<rparr>;
          (handled, conn1, w1) =
            (if cn_transaction_state conn = NoTransaction then try_fast_path fx v conn w else (False, conn, w))
      in if handled then Some (Next, conn1\<lparr>cn_pipeline_depth := cn_pipeline_depth conn1 + 1\<rparr>, w1)
         else (case parse_command v of
           Inl e \<Rightarrow> Some (Failing (Protocol e), conn, w)
         | Inr c \<Rightarrow> handle_command fx env c conn w))"

section \<open>The loop over one read\<close>

text \<open>
  Nothing that handles a value looks at the parser or at the write buffer, it only appends to
  the latter: the connection without them, and a connection around one.
\<close>

definition bare :: "connection \<Rightarrow> connection" where
  "bare conn = conn\<lparr>cn_parser := new_parser, cn_write_buffer := [], cn_write_position := 0\<rparr>"

definition io :: "resp_parser \<Rightarrow> bytes \<Rightarrow> nat \<Rightarrow> connection \<Rightarrow> connection" where
  "io p b n conn = conn\<lparr>cn_parser := p, cn_write_buffer := b @ cn_write_buffer conn, cn_write_position := n\<rparr>"

lemma io_simps [simp]:
  "cn_parser (io p b n conn) = p" "cn_write_position (io p b n conn) = n"
  "cn_write_buffer (io p b n conn) = b @ cn_write_buffer conn"
  "cn_transaction_state (io p b n conn) = cn_transaction_state conn"
  "cn_queued_commands (io p b n conn) = cn_queued_commands conn"
  "cn_watched_keys (io p b n conn) = cn_watched_keys conn"
  "cn_authenticated (io p b n conn) = cn_authenticated conn"
  "cn_auth_required (io p b n conn) = cn_auth_required conn"
  "cn_executor (io p b n conn) = cn_executor conn" "cn_closed (io p b n conn) = cn_closed conn"
  "cn_commands_processed (io p b n conn) = cn_commands_processed conn"
  "cn_pipeline_depth (io p b n conn) = cn_pipeline_depth conn"
  "is_in_pubsub_mode (io p b n conn) = is_in_pubsub_mode conn"
  by (simp_all add: io_def is_in_pubsub_mode_def)

lemma bare_simps [simp]:
  "cn_write_buffer (bare conn) = []" "cn_closed (bare conn) = cn_closed conn"
  "cn_transaction_state (bare conn) = cn_transaction_state conn"
  "bare (bare conn) = bare conn" "bare (io p b n conn) = bare conn"
  by (simp_all add: bare_def io_def)

lemma io_bare: "conn = io (cn_parser conn) (cn_write_buffer conn) (cn_write_position conn) (bare conn)"
  by (simp add: io_def bare_def)

lemma io_of_bare: "io p b n conn = io p (b @ cn_write_buffer conn) n (bare conn)"
  by (simp add: io_def bare_def)

lemma io_io [simp]: "io p b n (io p' b' n' conn) = io p (b @ b') n conn"
  by (simp add: io_def)

lemma io_updates [simp]:
  "(io p b n conn)\<lparr>cn_executor := e\<rparr> = io p b n (conn\<lparr>cn_executor := e\<rparr>)"
  "(io p b n conn)\<lparr>cn_closed := c\<rparr> = io p b n (conn\<lparr>cn_closed := c\<rparr>)"
  "(io p b n conn)\<lparr>cn_queued_commands := q\<rparr> = io p b n (conn\<lparr>cn_queued_commands := q\<rparr>)"
  "(io p b n conn)\<lparr>cn_watched_keys := k\<rparr> = io p b n (conn\<lparr>cn_watched_keys := k\<rparr>)"
  "(io p b n conn)\<lparr>cn_transaction_state := t\<rparr> = io p b n (conn\<lparr>cn_transaction_state := t\<rparr>)"
  "(io p b n conn)\<lparr>cn_authenticated := a\<rparr> = io p b n (conn\<lparr>cn_authenticated := a\<rparr>)"
  "(io p b n conn)\<lparr>cn_client_name := x\<rparr> = io p b n (conn\<lparr>cn_client_name := x\<rparr>)"
  "(io p b n conn)\<lparr>cn_commands_processed := m\<rparr> = io p b n (conn\<lparr>cn_commands_processed := m\<rparr>)"
  "(io p b n conn)\<lparr>cn_pipeline_depth := m\<rparr> = io p b n (conn\<lparr>cn_pipeline_depth := m\<rparr>)"
  by (simp_all add: io_def)

lemma emit_io [simp]: "emit bs (io p b n conn) = io p b n (emit bs conn)"
  by (simp add: emit_def io_def)

lemma reply_emit: "reply v conn = emit (write_resp_value [] v) conn"
  by (simp add: reply_def emit_def write_resp_value_append [of "cn_write_buffer conn" v])

lemma reply_io [simp]: "reply v (io p b n conn) = io p b n (reply v conn)"
  by (simp add: reply_emit)

lemma respond_io [simp]: "respond v (io p b n conn) = io p b n (respond v conn)"
  by (simp add: respond_def)

lemma fast_path_get_io:
  "fast_path_get fx name args (io p b n conn) w = apsnd (apfst (io p b n)) (fast_path_get fx name args conn w)"
  by (simp add: fast_path_get_def split: resp_value.split option.split sum.split prod.split feox_error.split)

lemma fast_path_io:
  "try_fast_path fx v (io p b n conn) w = apsnd (apfst (io p b n)) (try_fast_path fx v conn w)"
proof (cases v)
  case (Array as)
  then show ?thesis
    by (cases as) (simp_all add: try_fast_path_def fast_path_get_io split: resp_value.split option.split sum.split prod.split)
qed (simp_all add: try_fast_path_def)

lemma set_client_name_io: "set_client_name c (io p b n conn) = io p b n (set_client_name c conn)"
  by (cases c) (simp_all add: set_client_name_def)

lemma handle_transaction_io:
  "handle_transaction fx env c (io p b n conn) w =
     map_option (map_option (apfst (io p b n))) (handle_transaction fx env c conn w)"
  by (cases c) (simp_all add: handle_transaction_def handle_multi_def handle_exec_def handle_discard_def
      handle_watch_def handle_unwatch_def split: option.split prod.split)

lemma run_and_respond_io:
  "run_and_respond fx env c (io p b n conn) w = map_option (apsnd (apfst (io p b n))) (run_and_respond fx env c conn w)"
  by (simp add: run_and_respond_def split: option.split prod.split)

lemma no_auth_case: "\<not> is_auth c \<Longrightarrow> (case c of Auth password \<Rightarrow> f password | _ \<Rightarrow> d) = d"
  by (cases c) (simp_all add: is_auth_def)

lemma dispatch_io:
  "dispatch fx env c (io p b n conn) w = map_option (apsnd (apfst (io p b n))) (dispatch fx env c conn w)"
proof (cases "is_auth c")
  case True
  then obtain pw where "c = Auth pw" by (cases c) (simp_all add: is_auth_def)
  then show ?thesis by (simp add: dispatch_def handle_auth_def is_auth_def)
next
  case False
  show ?thesis
    by (simp add: dispatch_def False no_auth_case [OF False] run_and_respond_io respond_pubsub_def split: option.split)
qed

lemma handle_command_io:
  "handle_command fx env c (io p b n conn) w = map_option (apsnd (apfst (io p b n))) (handle_command fx env c conn w)"
  by (simp add: handle_command_def Let_def set_client_name_io handle_transaction_io
      dispatch_io option.case_distrib split: option.split prod.split)

lemma handle_value_io:
  "handle_value fx env v (io p b n conn) w = map_option (apsnd (apfst (io p b n))) (handle_value fx env v conn w)"
proof -
  let ?c = "conn\<lparr>cn_commands_processed := cn_commands_processed conn + 1\<rparr>"
  obtain f c1 w1 where "try_fast_path fx v ?c w = (f, c1, w1)" by (metis prod_cases3)
  then show ?thesis
    by (simp add: handle_value_def Let_def fast_path_io handle_command_io split: sum.split)
qed

lemma set_client_name_simps [simp]:
  "cn_parser (set_client_name c conn) = cn_parser conn"
  "cn_transaction_state (set_client_name c conn) = cn_transaction_state conn"
  "cn_queued_commands (set_client_name c conn) = cn_queued_commands conn"
  "cn_watched_keys (set_client_name c conn) = cn_watched_keys conn"
  "cn_authenticated (set_client_name c conn) = cn_authenticated conn"
  "cn_auth_required (set_client_name c conn) = cn_auth_required conn"
  "cn_write_buffer (set_client_name c conn) = cn_write_buffer conn"
  "cn_write_position (set_client_name c conn) = cn_write_position conn"
  "cn_executor (set_client_name c conn) = cn_executor conn"
  "cn_subscription_count (set_client_name c conn) = cn_subscription_count conn"
  "cn_closed (set_client_name c conn) = cn_closed conn"
  by (cases c; simp add: set_client_name_def)+

lemma handle_value_keeps_io:
  assumes "handle_value fx env v conn w = Some (ctl, conn1, w1)"
  shows "cn_parser conn1 = cn_parser conn" and "cn_write_position conn1 = cn_write_position conn"
proof -
  have "io (cn_parser conn) [] (cn_write_position conn) conn = conn" by (simp add: io_def)
  with handle_value_io [of fx env v "cn_parser conn" "[]" "cn_write_position conn" conn w] assms
  have "conn1 = io (cn_parser conn) [] (cn_write_position conn) conn1" by simp
  then show "cn_parser conn1 = cn_parser conn" and "cn_write_position conn1 = cn_write_position conn"
    by (metis io_simps(1), metis io_simps(2))
qed

lemma parse_next_shrinks:
  assumes "parse_next cap p = (Inr (Some v), p1)"
  shows "length (pending p1) < length (pending p)"
proof -
  from assms obtain c where c: "parse_value cap (drop (rp_position p) (rp_buffer p)) = Inr (Some (v, c))"
    and p1: "p1 = (if length (rp_buffer p) div 2 < rp_position p + c
              then p\<lparr>rp_buffer := drop (rp_position p + c) (rp_buffer p), rp_position := 0\<rparr>
              else p\<lparr>rp_position := rp_position p + c\<rparr>)"
    by (auto simp: parse_next_def Let_def split: if_splits sum.splits option.splits)
  from parse_consumes(1) [OF c] show ?thesis by (auto simp: p1 pending_def)
qed

text \<open>
  What ends a read: an error that the caller turns into closing the connection, or a panic
  of the thread when the parser reserves more memory than there can be.
\<close>

datatype read_error = ReadError server_error | ReadPanic

function process_loop ::
  "nat \<Rightarrow> 's feox \<Rightarrow> env \<Rightarrow> connection \<Rightarrow> 's world \<Rightarrow> pubsub_op list \<Rightarrow>
     ((read_error + pubsub_op list) \<times> connection \<times> 's world) option" where
  "process_loop cap fx env conn w pubsub_ops = (case parse_next cap (cn_parser conn) of
     (Inl (Invalid t), p) \<Rightarrow> Some (Inl (ReadError (Protocol t)), conn\<lparr>cn_parser := p\<rparr>, w)
   | (Inl CapacityOverflow, p) \<Rightarrow> Some (Inl ReadPanic, conn\<lparr>cn_parser := p\<rparr>, w)
   | (Inr None, p) \<Rightarrow> Some (Inr pubsub_ops, conn\<lparr>cn_parser := p\<rparr>, w)
   | (Inr (Some v), p) \<Rightarrow> (case handle_value fx env v (conn\<lparr>cn_parser := p\<rparr>) w of
       None \<Rightarrow> None
     | Some (Next, conn1, w1) \<Rightarrow> process_loop cap fx env conn1 w1 pubsub_ops
     | Some (NextOp q, conn1, w1) \<Rightarrow> process_loop cap fx env conn1 w1 (pubsub_ops @ [q])
     | Some (Quitting, conn1, w1) \<Rightarrow> Some (Inr pubsub_ops, conn1, w1)
     | Some (Failing e, conn1, w1) \<Rightarrow> Some (Inl (ReadError e), conn1, w1)))"
  by pat_completeness auto
termination
  by (relation "measure (\<lambda>(cap, fx, env, conn, w, q). length (pending (cn_parser conn)))")
    (auto dest!: handle_value_keeps_io(1) intro: parse_next_shrinks [OF sym])

declare process_loop.simps [simp del]

definition process_read ::
  "nat \<Rightarrow> 's feox \<Rightarrow> env \<Rightarrow> bytes \<Rightarrow> connection \<Rightarrow> 's world \<Rightarrow>
     ((read_error + pubsub_op list) \<times> connection \<times> 's world) option" where
  "process_read cap fx env data conn w =
     (let conn1 = conn\<lparr>cn_parser := feed (cn_parser conn) data\<rparr>;
          conn2 = (if length (cn_write_buffer conn1) \<le> cn_write_position conn1
                   then conn1\<lparr>cn_write_buffer := [], cn_write_position := 0\<rparr> else conn1)
      in process_loop cap fx env conn2 w [])"

section \<open>Writing and pub/sub messages\<close>

definition pending_writes :: "connection \<Rightarrow> bytes option" where
  "pending_writes conn =
     (if cn_write_position conn < length (cn_write_buffer conn)
      then Some (drop (cn_write_position conn) (cn_write_buffer conn)) else None)"

definition consume_writes :: "nat \<Rightarrow> connection \<Rightarrow> connection" where
  "consume_writes n conn = conn\<lparr>cn_write_position := cn_write_position conn + n\<rparr>"

definition queue_pubsub_message :: "pubsub_message \<Rightarrow> connection \<Rightarrow> connection" where
  "queue_pubsub_message m conn = conn\<lparr>cn_pending_pubsub_messages := cn_pending_pubsub_messages conn @ [m]\<rparr>"

definition set_subscription_count :: "nat \<Rightarrow> connection \<Rightarrow> connection" where
  "set_subscription_count count conn =
     (let conn1 = conn\<lparr>cn_subscription_count := count\<rparr> in
      if 0 < count \<and> ''pubsub'' \<notin> set (cn_flags conn1) then conn1\<lparr>cn_flags := cn_flags conn1 @ [''pubsub'']\<rparr>
      else if count = 0 then conn1\<lparr>cn_flags := filter (\<lambda>f. f \<noteq> ''pubsub'') (cn_flags conn1)\<rparr>
      else conn1)"

fun write_messages :: "pubsub_message list \<Rightarrow> connection \<Rightarrow> connection" where
  "write_messages [] conn = conn"
| "write_messages (m # ms) conn = write_messages ms (reply (to_resp m) conn)"

definition process_pubsub_messages :: "connection \<Rightarrow> connection" where
  "process_pubsub_messages conn =
     write_messages (cn_pending_pubsub_messages conn) (conn\<lparr>cn_pending_pubsub_messages := []\<rparr>)"

end
