(* ===== verification/Connection_Stream.thy ===== *)
theory Connection_Stream
  imports Connection
begin

text \<open>
  A read of a connection against a reference: \<open>serve\<close> handles the commands of a byte string
  one after the other, without a parser state and without a write buffer. \<open>process_read\<close>
  implements it, so what a client gets does not depend on how its bytes are cut into reads
  nor on how many of the replies are written in between.
\<close>

section \<open>The reference\<close>

definition after :: "bytes \<Rightarrow> pubsub_op list \<Rightarrow>
    (bytes \<times> (read_error + pubsub_op list) \<times> bytes option \<times> connection \<times> 's world) option \<Rightarrow>
    (bytes \<times> (read_error + pubsub_op list) \<times> bytes option \<times> connection \<times> 's world) option" where
  "after out ops = map_option (\<lambda>(out1, r, rest, conn, w). (out @ out1, map_sum id ((@) ops) r, rest, conn, w))"

text \<open>
  The replies, the result, the bytes still to be completed (\<open>None\<close> when the connection ends)
  and the new states.
\<close>

function serve ::
  "nat \<Rightarrow> 's feox \<Rightarrow> env \<Rightarrow> bytes \<Rightarrow> connection \<Rightarrow> 's world \<Rightarrow>
     (bytes \<times> (read_error + pubsub_op list) \<times> bytes option \<times> connection \<times> 's world) option" where
  "serve cap fx env bs conn w = (case parse_value cap bs of
     Inl (Invalid t) \<Rightarrow> Some ([], Inl (ReadError (Protocol t)), None, conn, w)
   | Inl CapacityOverflow \<Rightarrow> Some ([], Inl ReadPanic, None, conn, w)
   | Inr None \<Rightarrow> Some ([], Inr [], Some bs, conn, w)
   | Inr (Some (v, c)) \<Rightarrow> (case handle_value fx env v conn w of
       None \<Rightarrow> None
     | Some (Next, conn1, w1) \<Rightarrow> after (cn_write_buffer conn1) [] (serve cap fx env (drop c bs) (bare conn1) w1)
     | Some (NextOp q, conn1, w1) \<Rightarrow> after (cn_write_buffer conn1) [q] (serve cap fx env (drop c bs) (bare conn1) w1)
     | Some (Quitting, conn1, w1) \<Rightarrow> Some (cn_write_buffer conn1, Inr [], None, bare conn1, w1)
     | Some (Failing e, conn1, w1) \<Rightarrow> Some (cn_write_buffer conn1, Inl (ReadError e), None, bare conn1, w1)))"
  by pat_completeness auto
termination
  by (relation "measure (\<lambda>(cap, fx, env, bs, conn, w). length bs)") (auto dest!: parse_value_progress)

declare serve.simps [simp del]

section \<open>A read implements the reference\<close>

definition loop_agrees :: "connection \<Rightarrow> pubsub_op list \<Rightarrow>
    bytes \<times> (read_error + pubsub_op list) \<times> bytes option \<times> connection \<times> 's world \<Rightarrow>
    (read_error + pubsub_op list) \<times> connection \<times> 's world \<Rightarrow> bool" where
  "loop_agrees conn ops = (\<lambda>(out, r, rest, c, w) (r', conn', w'). w' = w \<and> r' = map_sum id ((@) ops) r \<and>
     cn_write_buffer conn' = cn_write_buffer conn @ out \<and> cn_write_position conn' = cn_write_position conn \<and>
     bare conn' = c \<and> (\<forall>bs. rest = Some bs \<longrightarrow> parser_ok (cn_parser conn') \<and> pending (cn_parser conn') = bs) \<and>
     (rest = None \<longrightarrow> isl r \<or> cn_closed c))"

lemma loop_agrees_after:
  assumes "rel_option (loop_agrees conn1 (ops @ q)) s l"
    and "cn_write_buffer conn1 = cn_write_buffer conn @ out" and "cn_write_position conn1 = cn_write_position conn"
  shows "rel_option (loop_agrees conn ops) (after out q s) l"
  using assms by (cases s; cases l)
    (auto simp: loop_agrees_def after_def isl_map_sum sum.map_comp comp_def map_sum.id cong: sum.map_cong)

lemma handle_value_around:
  "handle_value fx env v (conn\<lparr>cn_parser := p\<rparr>) w =
     map_option (apsnd (apfst (io p (cn_write_buffer conn) (cn_write_position conn)))) (handle_value fx env v (bare conn) w)"
proof -
  have "conn\<lparr>cn_parser := p\<rparr> = io p (cn_write_buffer conn) (cn_write_position conn) (bare conn)"
    by (simp add: io_def bare_def)
  then show ?thesis by (simp only: handle_value_io)
qed

lemma handle_command_quits:
  assumes "handle_value fx env v conn w = Some (Quitting, conn1, w1)"
  shows "cn_closed conn1"
proof -
  have run: "run_and_respond fx env c conn0 w0 \<noteq> Some (Quitting, conn1, w1)" for c conn0 and w0
    by (simp add: run_and_respond_def split: option.split prod.split)
  have "dispatch fx env c conn0 w0 \<noteq> Some (Quitting, conn1, w1)" for c conn0 and w0
    using run by (cases "is_auth c", cases c)
      (auto simp: dispatch_def is_auth_def no_auth_case respond_pubsub_def split: option.splits)
  then have "handle_command fx env c conn0 w0 = Some (Quitting, conn1, w1) \<Longrightarrow> cn_closed conn1" for c conn0 and w0
    by (auto simp: handle_command_def Let_def emit_def split: if_splits option.splits)
  with assms show ?thesis
    by (auto simp: handle_value_def Let_def split: if_splits sum.splits prod.splits)
qed

lemma process_loop_serve:
  assumes "parser_ok (cn_parser conn)"
  shows "rel_option (loop_agrees conn ops)
    (serve cap fx env (pending (cn_parser conn)) (bare conn) w) (process_loop cap fx env conn w ops)"
  using assms
proof (induction "length (pending (cn_parser conn))" arbitrary: conn w ops rule: less_induct)
  case less
  note at = less.prems [unfolded parser_ok_def]
  let ?bs = "pending (cn_parser conn)"
  show ?case
  proof (cases "\<exists>v c. parse_value cap ?bs = Inr (Some (v, c))")
    case False
    then consider t where "parse_value cap ?bs = Inl (Invalid t)" | "parse_value cap ?bs = Inl CapacityOverflow"
      | "parse_value cap ?bs = Inr None" by (metis old.sum.exhaust parse_error.exhaust option.exhaust prod.exhaust)
    then show ?thesis
      using less.prems parse_next_pending(1,2) [OF at]
      by cases (simp_all add: serve.simps [of cap fx env ?bs] process_loop.simps [of cap fx env conn] loop_agrees_def bare_def)
  next
    case True
    then obtain v c where v: "parse_value cap ?bs = Inr (Some (v, c))" by blast
    from parse_next_pending(3) [OF at v] obtain p where p: "parse_next cap (cn_parser conn) = (Inr (Some v), p)"
      "pending p = drop c ?bs" "parser_ok p" by (auto simp: parser_ok_def)
    let ?io = "io p (cn_write_buffer conn) (cn_write_position conn)"
    have IH: "rel_option (loop_agrees (?io c1) ops1) (serve cap fx env (drop c ?bs) (bare c1) w1)
        (process_loop cap fx env (?io c1) w1 ops1)" for c1 ops1 w1
      using less.hyps [of "?io c1" ops1 w1] parse_value_progress [OF v] p(2,3) by simp
    show ?thesis
    proof (cases "handle_value fx env v (bare conn) w")
      case None
      then show ?thesis
        by (simp add: serve.simps [of cap fx env ?bs] process_loop.simps [of cap fx env conn] v p(1) handle_value_around)
    next
      case (Some r)
      then obtain ctl c1 w1 where h: "handle_value fx env v (bare conn) w = Some (ctl, c1, w1)" by (cases r) auto
      show ?thesis
      proof (cases ctl)
        case Next
        then show ?thesis
          using loop_agrees_after [where q = "[]" and conn = conn and out = "cn_write_buffer c1", OF IH [of c1 "ops @ []" w1]]
          by (simp add: serve.simps [of cap fx env ?bs] process_loop.simps [of cap fx env conn] v p(1) handle_value_around h)
      next
        case (NextOp q)
        then show ?thesis
          using loop_agrees_after [where q = "[q]" and conn = conn and out = "cn_write_buffer c1", OF IH [of c1 "ops @ [q]" w1]]
          by (simp add: serve.simps [of cap fx env ?bs] process_loop.simps [of cap fx env conn] v p(1) handle_value_around h)
      next
        case Quitting
        then show ?thesis
          using handle_command_quits [of fx env v "bare conn" w c1 w1] h
          by (simp add: serve.simps [of cap fx env ?bs] process_loop.simps [of cap fx env conn] v p(1) handle_value_around loop_agrees_def)
      next
        case (Failing e)
        then show ?thesis
          by (simp add: serve.simps [of cap fx env ?bs] process_loop.simps [of cap fx env conn] v p(1) handle_value_around h loop_agrees_def)
      qed
    qed
  qed
qed

text \<open>The reference on a byte string that arrives in two pieces.\<close>

lemma after_simps [simp]:
  "after out ops None = None"
  "after out ops (Some (out1, r, rest, conn, w)) = Some (out @ out1, map_sum id ((@) ops) r, rest, conn, w)"
  by (simp_all add: after_def)

lemma after_after: "after out ops (after out1 ops1 s) = after (out @ out1) (ops @ ops1) s"
  by (cases s) (auto simp: after_def sum.map_comp comp_def id_def cong: sum.map_cong)

lemma after_nothing: "after [] [] s = s"
proof (cases s)
  case (Some x)
  obtain out1 r rest conn w where "x = (out1, r, rest, conn, w)" by (metis prod_cases5)
  then show ?thesis using Some by (cases r) simp_all
qed simp

definition go_on ::
  "nat \<Rightarrow> 's feox \<Rightarrow> env \<Rightarrow> bytes \<Rightarrow>
    (bytes \<times> (read_error + pubsub_op list) \<times> bytes option \<times> connection \<times> 's world) option \<Rightarrow>
    (bytes \<times> (read_error + pubsub_op list) \<times> bytes option \<times> connection \<times> 's world) option" where
  "go_on cap fx env d s = (case s of
     Some (out, Inr ops, Some rest, conn, w) \<Rightarrow> after out ops (serve cap fx env (rest @ d) conn w)
   | _ \<Rightarrow> s)"

lemma go_on_after: "go_on cap fx env d (after out ops s) = after out ops (go_on cap fx env d s)"
proof (cases s)
  case (Some x)
  obtain out1 r rest conn w where "x = (out1, r, rest, conn, w)" by (metis prod_cases5)
  then show ?thesis using Some by (cases r; cases rest) (simp_all add: go_on_def after_after)
qed (simp add: go_on_def)

lemma serve_append: "serve cap fx env (bs @ d) conn w = go_on cap fx env d (serve cap fx env bs conn w)"
proof (induction "length bs" arbitrary: bs conn w rule: less_induct)
  case less
  show ?case
  proof (cases "\<exists>v c. parse_value cap bs = Inr (Some (v, c))")
    case False
    then consider t where "parse_value cap bs = Inl (Invalid t)" | "parse_value cap bs = Inl CapacityOverflow"
      | "parse_value cap bs = Inr None" by (metis old.sum.exhaust parse_error.exhaust option.exhaust prod.exhaust)
    then show ?thesis
      by cases (simp_all add: serve.simps [of cap fx env bs] serve.simps [of cap fx env "bs @ d"] parse_append(1)
          go_on_def after_nothing)
  next
    case True
    then obtain v c where v: "parse_value cap bs = Inr (Some (v, c))" by blast
    then have c: "c \<le> length bs" and vd: "parse_value cap (bs @ d) = Inr (Some (v, c))"
      using parse_consumes(1) [of cap bs v c] parse_append(1) [of cap bs d] by simp_all
    have IH: "serve cap fx env (drop c bs @ d) conn1 w1 = go_on cap fx env d (serve cap fx env (drop c bs) conn1 w1)"
      for conn1 w1 using less.hyps [of "drop c bs"] parse_value_progress [OF v] by simp
    show ?thesis
      using c by (simp add: serve.simps [of cap fx env bs] serve.simps [of cap fx env "bs @ d"] v vd IH go_on_after
          split: option.split prod.split control.split) (simp add: go_on_def)
  qed
qed

section \<open>Reads\<close>

definition unwritten :: "connection \<Rightarrow> bytes" where
  "unwritten conn = drop (cn_write_position conn) (cn_write_buffer conn)"

lemma pending_writes_unwritten: "pending_writes conn = (if unwritten conn = [] then None else Some (unwritten conn))"
  by (simp add: pending_writes_def unwritten_def)

lemma unwritten_append:
  "cn_write_position conn \<le> length b \<Longrightarrow> cn_write_buffer conn = b @ out \<Longrightarrow> unwritten conn = drop (cn_write_position conn) b @ out"
  by (simp add: unwritten_def)

text \<open>A read serves what the parser holds and the new bytes, and appends the replies to what is unwritten.\<close>

definition read_agrees :: "connection \<Rightarrow>
    bytes \<times> (read_error + pubsub_op list) \<times> bytes option \<times> connection \<times> 's world \<Rightarrow>
    (read_error + pubsub_op list) \<times> connection \<times> 's world \<Rightarrow> bool" where
  "read_agrees conn = (\<lambda>(out, r, rest, c, w) (r', conn', w'). w' = w \<and> r' = r \<and>
     unwritten conn' = unwritten conn @ out \<and> cn_write_position conn' \<le> length (cn_write_buffer conn') \<and> bare conn' = c \<and>
     (\<forall>bs. rest = Some bs \<longrightarrow> parser_ok (cn_parser conn') \<and> pending (cn_parser conn') = bs) \<and>
     (rest = None \<longrightarrow> isl r \<or> cn_closed c))"

lemma loop_read_agrees:
  assumes "cn_write_position conn \<le> length (cn_write_buffer conn)" and "unwritten conn = unwritten conn0"
    and "loop_agrees conn [] s l"
  shows "read_agrees conn0 s l"
proof -
  have "map_sum id ((@) []) r = r" for r :: "read_error + pubsub_op list" by (cases r) simp_all
  with assms show ?thesis by (auto simp: loop_agrees_def read_agrees_def unwritten_append)
qed

lemma process_read_serve:
  assumes "parser_ok (cn_parser conn)"
  shows "rel_option (read_agrees conn)
    (serve cap fx env (pending (cn_parser conn) @ d) (bare conn) w) (process_read cap fx env d conn w)"
proof -
  define conn1 where "conn1 = conn\<lparr>cn_parser := feed (cn_parser conn) d\<rparr>"
  define conn2 where "conn2 = (if length (cn_write_buffer conn1) \<le> cn_write_position conn1
    then conn1\<lparr>cn_write_buffer := [], cn_write_position := 0\<rparr> else conn1)"
  have p: "cn_parser conn2 = feed (cn_parser conn) d" and b: "bare conn2 = bare conn"
    and u: "unwritten conn2 = unwritten conn" "cn_write_position conn2 \<le> length (cn_write_buffer conn2)"
    by (simp_all add: conn2_def conn1_def bare_def unwritten_def)
  have ok: "parser_ok (cn_parser conn2)" "pending (cn_parser conn2) = pending (cn_parser conn) @ d"
    using assms p by (simp_all add: parser_ok_def pending_feed) (simp add: feed_def)
  have "process_read cap fx env d conn w = process_loop cap fx env conn2 w []"
    by (simp only: process_read_def conn1_def conn2_def Let_def)
  then show ?thesis
    using process_loop_serve [OF ok(1), of "[]" cap fx env w] loop_read_agrees [OF u(2,1)]
    by (auto simp only: ok(2) b elim!: option.rel_mono_strong)
qed

lemma read_in_pieces:
  assumes "parser_ok (cn_parser conn)" and "process_read cap fx env d1 conn w = Some (Inr ops1, conn1, w1)"
    and "\<not> cn_closed conn1" and "n \<le> length (unwritten conn1)"
  shows "rel_option (\<lambda>(r2, conn2, w2) (r, conn', w'). w' = w2 \<and> r = map_sum id ((@) ops1) r2 \<and> bare conn' = bare conn2 \<and>
      unwritten conn' = take n (unwritten conn1) @ unwritten conn2)
    (process_read cap fx env d2 (consume_writes n conn1) w1) (process_read cap fx env (d1 @ d2) conn w)"
proof -
  from process_read_serve [OF assms(1), of cap fx env d1 w] assms(2) obtain x where
    x: "serve cap fx env (pending (cn_parser conn) @ d1) (bare conn) w = Some x" "read_agrees conn x (Inr ops1, conn1, w1)"
    by (auto simp: option_rel_Some2)
  obtain out r rest c w' where "x = (out, r, rest, c, w')" by (metis prod_cases5)
  with x assms(3) obtain bs where first:
    "serve cap fx env (pending (cn_parser conn) @ d1) (bare conn) w = Some (out, Inr ops1, Some bs, bare conn1, w1)"
    "unwritten conn1 = unwritten conn @ out" "parser_ok (cn_parser conn1)" "pending (cn_parser conn1) = bs"
    by (cases rest) (auto simp: read_agrees_def)
  let ?conn1 = "consume_writes n conn1"
  have "unwritten ?conn1 = drop n (unwritten conn1)" by (simp add: consume_writes_def unwritten_def add.commute)
  then have pieces: "take n (unwritten conn1) @ unwritten ?conn1 @ out1 = unwritten conn @ out @ out1" for out1
    using first(2) by (metis append_assoc append_take_drop_id)
  have same: "bare ?conn1 = bare conn1" "cn_parser ?conn1 = cn_parser conn1"
    by (simp_all add: consume_writes_def bare_def)
  let ?s = "serve cap fx env (bs @ d2) (bare conn1) w1"
  have "serve cap fx env (pending (cn_parser conn) @ d1 @ d2) (bare conn) w = after out ops1 ?s"
    using serve_append [of cap fx env "pending (cn_parser conn) @ d1" d2 "bare conn" w] by (simp add: first(1) go_on_def)
  with process_read_serve [OF assms(1), of cap fx env "d1 @ d2" w]
  have whole: "rel_option (read_agrees conn) (after out ops1 ?s) (process_read cap fx env (d1 @ d2) conn w)" by simp
  have piece: "rel_option (read_agrees ?conn1) ?s (process_read cap fx env d2 ?conn1 w1)"
    using process_read_serve [of ?conn1 cap fx env d2 w1] first(3,4) same by simp
  show ?thesis
  proof (cases ?s)
    case None
    with whole piece show ?thesis by simp
  next
    case (Some x)
    obtain out1 r rest c w' where x: "x = (out1, r, rest, c, w')" by (metis prod_cases5)
    from whole Some x obtain conn' where whole: "process_read cap fx env (d1 @ d2) conn w = Some (map_sum id ((@) ops1) r, conn', w')"
      "unwritten conn' = unwritten conn @ out @ out1" "bare conn' = c"
      by (auto simp: option_rel_Some1 read_agrees_def)
    from piece Some x obtain conn2 where "process_read cap fx env d2 ?conn1 w1 = Some (r, conn2, w')"
      "unwritten conn2 = unwritten ?conn1 @ out1" "bare conn2 = c"
      by (auto simp: option_rel_Some1 read_agrees_def)
    with whole show ?thesis by (simp add: pieces)
  qed
qed

end
