(* ===== verification/Connection_Spec.thy ===== *)
theory Connection_Spec
  imports Connection Executor_Spec
begin

text \<open>
  What a connection promises: transactions (queueing, WATCH and EXEC), the authentication
  gate and where it is open, the fast path against the general one, and that replies do not
  depend on how the bytes of a client are cut into reads.
\<close>

section \<open>The fast path\<close>

lemma emit_Nil [simp]: "emit [] conn = conn"
  by (simp add: emit_def)

lemma fast_path_get_uniform:
  "\<exists>b bs w1. \<forall>conn. fast_path_get fx name args conn w = (b, emit bs conn, w1) \<and> (\<not> b \<longrightarrow> bs = [] \<and> w1 = w)"
proof (cases "length name = 3 \<and> eq_ignore_ascii_case name ''GET'' \<and> length args = 2 \<and> (\<exists>key. args ! 1 = BulkString (Some key))")
  case False
  then have "fast_path_get fx name args conn w = (False, emit [] conn, w)" for conn
    by (auto simp: fast_path_get_def split: resp_value.split option.split)
  then show ?thesis by blast
next
  case True
  then obtain key where "args ! 1 = BulkString (Some key)" by blast
  moreover obtain r w1 where "fast_get fx key w = (r, w1)" by force
  ultimately have "fast_path_get fx name args conn w = (True, emit (case r of
      Inr value \<Rightarrow> ''$'' @ show_nat (length value) @ [CHR 0x0D, CHR 0x0A] @ value @ [CHR 0x0D, CHR 0x0A]
    | Inl KeyNotFound \<Rightarrow> ''$-1'' @ [CHR 0x0D, CHR 0x0A] | Inl e \<Rightarrow> fast_error fx e) conn, w1)" for conn
    using True by (simp add: fast_path_get_def split: sum.split feox_error.split)
  then show ?thesis by blast
qed

lemma fast_path_uniform:
  "\<exists>b bs w1. \<forall>conn. try_fast_path fx v conn w = (b, emit bs conn, w1) \<and> (\<not> b \<longrightarrow> bs = [] \<and> w1 = w)"
proof -
  have none: ?thesis if "\<And>conn. try_fast_path fx v conn w = (False, conn, w)" using that by force
  show ?thesis
  proof (cases "\<exists>args name. v = Array (Some args) \<and> 2 \<le> length args \<and> args ! 0 = BulkString (Some name)")
    case False
    then show ?thesis by (intro none) (auto simp: try_fast_path_def split: resp_value.split option.split)
  next
    case True
    then obtain args name where v: "v = Array (Some args)" "2 \<le> length args" "args ! 0 = BulkString (Some name)" by blast
    show ?thesis
    proof (cases "length name = 3 \<and> eq_ignore_ascii_case name ''SET'' \<and> 3 \<le> length args")
      case False
      then have "try_fast_path fx v conn w = fast_path_get fx name args conn w" for conn
        using v by (auto simp: try_fast_path_def)
      then show ?thesis using fast_path_get_uniform [of fx name args w] by simp
    next
      case set: True
      show ?thesis
      proof (cases "\<exists>key val. args ! 1 = BulkString (Some key) \<and> args ! 2 = BulkString (Some val)")
        case False
        then show ?thesis using v set
          by (intro none) (auto simp: try_fast_path_def split: resp_value.split option.split)
      next
        case True
        then obtain key val where "args ! 1 = BulkString (Some key)" "args ! 2 = BulkString (Some val)" by blast
        moreover obtain r w1 where "fast_set_bytes fx key val w = (r, w1)" by force
        ultimately have "try_fast_path fx v conn w =
            (if length args = 3
             then (True, emit (case r of Inr _ \<Rightarrow> ''+OK'' @ [CHR 0x0D, CHR 0x0A] | Inl e \<Rightarrow> fast_error fx e) conn, w1)
             else fast_path_get fx name args conn w)" for conn
          using v set by (simp add: try_fast_path_def split: sum.split)
        then show ?thesis
          using fast_path_get_uniform [of fx name args w] by (cases "length args = 3") (simp, blast, simp)
      qed
    qed
  qed
qed

definition fast_handled :: "'s feox \<Rightarrow> resp_value \<Rightarrow> 's world \<Rightarrow> bool" where
  "fast_handled fx v w \<longleftrightarrow> (\<exists>conn. fst (try_fast_path fx v conn w))"

lemma fast_handled_iff: "fst (try_fast_path fx v conn w) = fast_handled fx v w"
  using fast_path_uniform [of fx v w] unfolding fast_handled_def by force

lemma handle_value_slow:
  assumes "cn_transaction_state conn = Queuing \<or> \<not> fast_handled fx v w" and "parse_command v = Inr c"
  shows "handle_value fx env v conn w =
    handle_command fx env c (conn\<lparr>cn_commands_processed := cn_commands_processed conn + 1\<rparr>) w"
proof (cases "cn_transaction_state conn = Queuing")
  case True
  with assms show ?thesis by (simp add: handle_value_def Let_def)
next
  case False
  let ?c = "conn\<lparr>cn_commands_processed := cn_commands_processed conn + 1\<rparr>"
  have "\<not> fst (try_fast_path fx v ?c w)" using assms(1) False by (simp add: fast_handled_iff del: One_nat_def)
  then obtain c1 w1 where "try_fast_path fx v ?c w = (False, c1, w1)" by (cases "try_fast_path fx v ?c w") auto
  with assms(2) False show ?thesis by (simp add: handle_value_def Let_def)
qed

text \<open>What the fast path does is what the executor does for the same command.\<close>

lemma fast_set_value:
  assumes "feox_store fx view good accepts" and "good (wd_store w)" and "accepts key val"
    and "eq_ignore_ascii_case name ''SET''"
  shows "try_fast_path fx (Array (Some [BulkString (Some name), BulkString (Some key), BulkString (Some val)])) conn w =
    (True, reply (fst (exec_set fx key val None None w)) conn, snd (exec_set fx key val None None w))"
proof -
  have "length name = length ''SET''"
    using assms(4) by (metis eq_ignore_ascii_case_upper length_map to_ascii_uppercase_def)
  moreover obtain w1 where w1: "fast_set_bytes fx key val w = (Inr (), w1)"
    "exec_set fx key val None None w = (SimpleString ''OK'', w1)"
    using feox_store.fast_set_is_exec_set [OF assms(1-3)] by (metis prod.collapse)
  ultimately show ?thesis
    using assms(4) by (simp add: try_fast_path_def emit_def reply_def numeral_2_eq_2)
qed

lemma fast_get_value:
  assumes "feox_store fx view good accepts" and "good (wd_store w)" and "eq_ignore_ascii_case name ''GET''"
    and "\<not> eq_ignore_ascii_case name ''SET''"
  shows "try_fast_path fx (Array (Some [BulkString (Some name), BulkString (Some key)])) conn w =
    (True, reply (fst (exec_get fx key w)) conn, snd (exec_get fx key w))"
proof -
  have "length name = length ''GET''"
    using assms(3) by (metis eq_ignore_ascii_case_upper length_map to_ascii_uppercase_def)
  moreover obtain s1 where s1: "fx_get_bytes fx (wd_store w) key = (found (view (wd_store w) key), s1)"
    using feox_store.get_run [OF assms(1,2), of key] by blast
  ultimately show ?thesis
    using assms(3,4) by (cases "view (wd_store w) key")
      (simp_all add: try_fast_path_def fast_path_get_def fast_get_def exec_get_def found_def emit_def reply_def)
qed

lemma parse_set_value:
  assumes "eq_ignore_ascii_case name ''SET''"
  shows "parse_command (Array (Some [BulkString (Some name), BulkString (Some key), BulkString (Some val)])) =
    Inr (Set key val None None)"
proof -
  have "to_ascii_uppercase name = ''SET''"
    using assms by (simp add: eq_ignore_ascii_case_upper) (simp add: to_ascii_uppercase_def byte_simps)
  then show ?thesis by (simp add: parse_command_def parse_arms_def parse_set_args_def extract_bytes_def)
qed

lemma parse_get_value:
  assumes "eq_ignore_ascii_case name ''GET''"
  shows "parse_command (Array (Some [BulkString (Some name), BulkString (Some key)])) = Inr (Get key)"
proof -
  have "to_ascii_uppercase name = ''GET''"
    using assms by (simp add: eq_ignore_ascii_case_upper) (simp add: to_ascii_uppercase_def byte_simps)
  then show ?thesis by (simp add: parse_command_def parse_arms_def parse_get_args_def extract_bytes_def)
qed

lemma get_not_set: "eq_ignore_ascii_case name ''GET'' \<Longrightarrow> \<not> eq_ignore_ascii_case name ''SET''"
  by (auto simp: eq_ignore_ascii_case_upper to_ascii_uppercase_def byte_simps)

text \<open>The general path of an authenticated connection outside transactions and pub/sub mode.\<close>

lemma slow_path:
  assumes "cn_authenticated conn" and "cn_transaction_state conn = NoTransaction" and "\<not> is_in_pubsub_mode conn"
    and "c = Set key val ex px \<or> c = Get key"
  shows "handle_command fx env c conn w = run_and_respond fx env c conn w"
  using assms by (auto simp: handle_command_def Let_def set_client_name_def handle_transaction_def dispatch_def
      is_pubsub_command_def)

section \<open>Transactions\<close>

lemma reply_simps [simp]:
  "cn_transaction_state (reply v conn) = cn_transaction_state conn" "cn_queued_commands (reply v conn) = cn_queued_commands conn"
  "cn_watched_keys (reply v conn) = cn_watched_keys conn" "cn_authenticated (reply v conn) = cn_authenticated conn"
  "cn_executor (reply v conn) = cn_executor conn" "cn_subscription_count (reply v conn) = cn_subscription_count conn"
  "cn_auth_required (reply v conn) = cn_auth_required conn" "cn_closed (reply v conn) = cn_closed conn"
  "cn_write_position (reply v conn) = cn_write_position conn"
  by (simp_all add: reply_def)

lemma respond_simps [simp]:
  "cn_transaction_state (respond v conn) = cn_transaction_state conn" "cn_queued_commands (respond v conn) = cn_queued_commands conn"
  "cn_watched_keys (respond v conn) = cn_watched_keys conn" "cn_authenticated (respond v conn) = cn_authenticated conn"
  "cn_executor (respond v conn) = cn_executor conn" "cn_subscription_count (respond v conn) = cn_subscription_count conn"
  "cn_auth_required (respond v conn) = cn_auth_required conn" "cn_closed (respond v conn) = cn_closed conn"
  "cn_write_position (respond v conn) = cn_write_position conn"
  by (simp_all add: respond_def)

text \<open>The commands that MULTI queues: all but those that control the transaction, and QUIT.\<close>

definition queueable :: "command \<Rightarrow> bool" where
  "queueable c = (case c of Multi \<Rightarrow> False | Exec \<Rightarrow> False | Discard \<Rightarrow> False | Watch _ \<Rightarrow> False | Unwatch \<Rightarrow> False
     | Quit \<Rightarrow> False | _ \<Rightarrow> True)"

lemma queueable_transaction: "queueable c \<Longrightarrow> handle_transaction fx env c conn w = Some None"
  by (cases c) (simp_all add: queueable_def handle_transaction_def)

lemma queueable_not_quit: "queueable c \<Longrightarrow> c \<noteq> Quit"
  by (auto simp: queueable_def)

lemma handle_queueable:
  assumes "queueable c" and "cn_transaction_state conn = Queuing" and "\<not> is_in_pubsub_mode conn"
  shows "handle_command fx env c conn w = Some (Next, reply (SimpleString ''QUEUED'')
      ((set_client_name c conn)\<lparr>cn_queued_commands := cn_queued_commands conn @ [c]\<rparr>), w)"
  using assms(2,3) by (simp add: handle_command_def Let_def queueable_transaction [OF assms(1)] queueable_not_quit [OF assms(1)])

lemma handle_transaction_command:
  assumes "\<not> is_in_pubsub_mode conn"
  shows "handle_command fx env Multi conn w = Some (Next, handle_multi conn, w)"
    and "handle_command fx env (Watch keys) conn w = Some (Next, handle_watch keys conn (wd_watch w), w)"
    and "handle_command fx env Exec conn w = map_option (\<lambda>(conn1, w1). (Next, conn1, w1)) (handle_exec fx env conn w)"
  using assms by (simp_all add: handle_command_def Let_def set_client_name_def handle_transaction_def
      split: option.split prod.split)

definition watched :: "watch \<Rightarrow> bytes list \<Rightarrow> (bytes \<times> u64) list \<Rightarrow> (bytes \<times> u64) list" where
  "watched watch keys al = fold (\<lambda>key al. AList.update key (get_key_version watch key) al) keys al"

lemma map_of_watched:
  "map_of (watched watch keys al) k = (if k \<in> set keys then Some (get_key_version watch k) else map_of al k)"
  unfolding watched_def by (induction keys arbitrary: al) (auto simp: update_conv')

lemma distinct_watched: "distinct (map fst al) \<Longrightarrow> distinct (map fst (watched watch keys al))"
  unfolding watched_def by (induction keys arbitrary: al) (auto simp: distinct_update)

lemma set_watched: "set (watched watch keys []) = (\<lambda>k. (k, get_key_version watch k)) ` set keys"
proof -
  have "(k, v) \<in> set (watched watch keys []) \<longleftrightarrow> k \<in> set keys \<and> v = get_key_version watch k" for k v
    using map_of_eq_Some_iff [OF distinct_watched [of "[]" watch keys], of k v] by (auto simp: map_of_watched split: if_splits)
  then show ?thesis by auto
qed

lemma check_watched:
  assumes "watch_room watch (length changed)"
  shows "check_keys_unchanged (fold notify_key_modified changed watch) (watched watch keys []) \<longleftrightarrow> set changed \<inter> set keys = {}"
  using check_after_notifications [OF assms, of keys] by (auto simp: check_keys_unchanged_all set_watched)

text \<open>
  The commands of one client, each with the shared state it finds: other clients may have
  changed it in between.
\<close>

fun run_steps :: "'s feox \<Rightarrow> env \<Rightarrow> (command \<times> 's world) list \<Rightarrow> connection \<Rightarrow> connection option" where
  "run_steps fx env [] conn = Some conn"
| "run_steps fx env ((c, w) # rest) conn = (case handle_command fx env c conn w of
     Some (Next, conn1, _) \<Rightarrow> run_steps fx env rest conn1 | _ \<Rightarrow> None)"

lemma is_in_pubsub_mode_simps [simp]:
  "is_in_pubsub_mode (reply v conn) = is_in_pubsub_mode conn"
  "is_in_pubsub_mode (conn\<lparr>cn_queued_commands := q\<rparr>) = is_in_pubsub_mode conn"
  "is_in_pubsub_mode (conn\<lparr>cn_watched_keys := k\<rparr>) = is_in_pubsub_mode conn"
  "is_in_pubsub_mode (conn\<lparr>cn_transaction_state := t\<rparr>) = is_in_pubsub_mode conn"
  "is_in_pubsub_mode (set_client_name c conn) = is_in_pubsub_mode conn"
  by (simp_all add: is_in_pubsub_mode_def reply_def)

lemma run_steps_queue:
  assumes "\<forall>(c, w) \<in> set steps. queueable c" and "cn_transaction_state conn = Queuing" and "\<not> is_in_pubsub_mode conn"
  shows "\<exists>conn1. run_steps fx env steps conn = Some conn1 \<and> cn_queued_commands conn1 = cn_queued_commands conn @ map fst steps \<and>
    cn_transaction_state conn1 = Queuing \<and> cn_watched_keys conn1 = cn_watched_keys conn \<and>
    cn_executor conn1 = cn_executor conn \<and> \<not> is_in_pubsub_mode conn1"
  using assms
proof (induction steps arbitrary: conn)
  case (Cons s steps)
  obtain c w where s: "s = (c, w)" by force
  let ?c1 = "reply (SimpleString ''QUEUED'') ((set_client_name c conn)\<lparr>cn_queued_commands := cn_queued_commands conn @ [c]\<rparr>)"
  have "handle_command fx env c conn w = Some (Next, ?c1, w)" using handle_queueable Cons.prems s by auto
  moreover have "\<exists>conn1. run_steps fx env steps ?c1 = Some conn1 \<and> cn_queued_commands conn1 = cn_queued_commands ?c1 @ map fst steps \<and>
    cn_transaction_state conn1 = Queuing \<and> cn_watched_keys conn1 = cn_watched_keys ?c1 \<and>
    cn_executor conn1 = cn_executor ?c1 \<and> \<not> is_in_pubsub_mode conn1"
    using Cons.prems by (intro Cons.IH) auto
  ultimately show ?case by (auto simp: s)
qed simp

lemma watch_multi_exec:
  assumes "cn_transaction_state conn = NoTransaction" and "cn_watched_keys conn = []" and "\<not> is_in_pubsub_mode conn"
    and "\<forall>(c, w) \<in> set steps. queueable c" and "wd_watch w2 = fold notify_key_modified changed (wd_watch w0)"
    and "watch_room (wd_watch w0) (length changed)"
  shows "\<exists>conn3. run_steps fx env ([(Watch keys, w0), (Multi, w1)] @ steps) conn = Some conn3 \<and>
    handle_command fx env Exec conn3 w2 =
      (if set changed \<inter> set keys \<noteq> {}
       then Some (Next, reply (BulkString None)
         (conn3\<lparr>cn_transaction_state := NoTransaction, cn_queued_commands := [], cn_watched_keys := []\<rparr>), w2)
       else (case execute_all fx env (cn_executor conn) (map fst steps) w2 of
         None \<Rightarrow> None
       | Some (results, ex, w3) \<Rightarrow> Some (Next, reply (Array (Some results)) (conn3\<lparr>cn_executor := ex,
           cn_queued_commands := [], cn_transaction_state := NoTransaction, cn_watched_keys := []\<rparr>), w3)))"
proof -
  define conn1 where "conn1 = reply ok_reply (conn\<lparr>cn_watched_keys := watched (wd_watch w0) keys []\<rparr>)"
  define conn2 where "conn2 = reply ok_reply (conn1\<lparr>cn_transaction_state := Queuing, cn_queued_commands := []\<rparr>)"
  have mode: "\<not> is_in_pubsub_mode conn1" "\<not> is_in_pubsub_mode conn2" using assms(3) by (simp_all add: conn1_def conn2_def)
  have w: "handle_command fx env (Watch keys) conn w0 = Some (Next, conn1, w0)"
    using assms(1-3) by (simp add: handle_transaction_command handle_watch_def conn1_def watched_def)
  have m: "handle_command fx env Multi conn1 w1 = Some (Next, conn2, w1)"
    using mode assms(1) by (simp add: handle_transaction_command handle_multi_def conn2_def) (simp add: conn1_def)
  have "cn_transaction_state conn2 = Queuing" "cn_queued_commands conn2 = []" "cn_watched_keys conn2 = watched (wd_watch w0) keys []"
    "cn_executor conn2 = cn_executor conn" by (simp_all add: conn2_def conn1_def)
  with run_steps_queue [OF assms(4) _ mode(2), of fx env] obtain conn3 where conn3:
    "run_steps fx env steps conn2 = Some conn3" "cn_queued_commands conn3 = map fst steps" "cn_transaction_state conn3 = Queuing"
    "cn_watched_keys conn3 = watched (wd_watch w0) keys []" "cn_executor conn3 = cn_executor conn" "\<not> is_in_pubsub_mode conn3"
    by auto
  have "run_steps fx env ([(Watch keys, w0), (Multi, w1)] @ steps) conn = Some conn3" using w m conn3(1) by simp
  moreover have "handle_command fx env Exec conn3 w2 = map_option (\<lambda>(conn1, w1). (Next, conn1, w1)) (handle_exec fx env conn3 w2)"
    by (rule handle_transaction_command(3) [OF conn3(6)])
  ultimately show ?thesis
    using check_watched [OF assms(6), of keys] conn3
    by (intro exI [of _ conn3]) (auto simp: handle_exec_def assms(5) split: option.split)
qed

text \<open>A transaction without WATCH runs the queued commands.\<close>

lemma multi_exec:
  assumes "cn_transaction_state conn = NoTransaction" and "cn_watched_keys conn = []" and "\<not> is_in_pubsub_mode conn"
    and "\<forall>(c, w) \<in> set steps. queueable c"
  shows "\<exists>conn3. run_steps fx env ((Multi, w1) # steps) conn = Some conn3 \<and>
    handle_command fx env Exec conn3 w2 =
      (case execute_all fx env (cn_executor conn) (map fst steps) w2 of
         None \<Rightarrow> None
       | Some (results, ex, w3) \<Rightarrow> Some (Next, reply (Array (Some results)) (conn3\<lparr>cn_executor := ex,
           cn_queued_commands := [], cn_transaction_state := NoTransaction, cn_watched_keys := []\<rparr>), w3))"
proof -
  define conn2 where "conn2 = reply ok_reply (conn\<lparr>cn_transaction_state := Queuing, cn_queued_commands := []\<rparr>)"
  have mode: "\<not> is_in_pubsub_mode conn2" using assms(3) by (simp add: conn2_def)
  have m: "handle_command fx env Multi conn w1 = Some (Next, conn2, w1)"
    using assms(1,3) by (simp add: handle_transaction_command handle_multi_def conn2_def)
  have "cn_transaction_state conn2 = Queuing" "cn_queued_commands conn2 = []" "cn_watched_keys conn2 = []"
    "cn_executor conn2 = cn_executor conn" using assms(2) by (simp_all add: conn2_def)
  with run_steps_queue [OF assms(4) _ mode, of fx env] obtain conn3 where conn3:
    "run_steps fx env steps conn2 = Some conn3" "cn_queued_commands conn3 = map fst steps" "cn_transaction_state conn3 = Queuing"
    "cn_watched_keys conn3 = []" "cn_executor conn3 = cn_executor conn" "\<not> is_in_pubsub_mode conn3"
    by auto
  have "handle_command fx env Exec conn3 w2 = map_option (\<lambda>(conn1, w1). (Next, conn1, w1)) (handle_exec fx env conn3 w2)"
    by (rule handle_transaction_command(3) [OF conn3(6)])
  then show ?thesis
    using m conn3 by (intro exI [of _ conn3])
      (auto simp: handle_exec_def check_keys_unchanged_all split: option.split)
qed

text \<open>Watching a key again forgets that it has changed since it was first watched.\<close>

lemma watch_again_forgets:
  assumes "wd_watch w2 = fold notify_key_modified changed (wd_watch w0)" and "watch_room (wd_watch w0) (length changed)"
  shows "check_keys_unchanged (wd_watch w2) (watched (wd_watch w2) keys (watched (wd_watch w0) keys []))"
proof -
  have "v = get_key_version (wd_watch w2) k" if "(k, v) \<in> set (watched (wd_watch w2) keys (watched (wd_watch w0) keys []))" for k v
    using that map_of_eq_Some_iff [OF distinct_watched [OF distinct_watched [of "[]"]], of "wd_watch w2" keys "wd_watch w0" keys k v]
    by (auto simp: map_of_watched split: if_splits)
  then show ?thesis by (auto simp: check_keys_unchanged_all)
qed

section \<open>The authentication gate\<close>

text \<open>
  A value that the fast path takes is handled in the same way on every connection outside a
  transaction, authenticated or not, subscribed or not.
\<close>

lemma fast_value_uniform:
  assumes "fast_handled fx v w"
  shows "\<exists>bs w1. \<forall>conn. cn_transaction_state conn = NoTransaction \<longrightarrow> handle_value fx env v conn w =
    Some (Next, (emit bs conn)\<lparr>cn_commands_processed := cn_commands_processed conn + 1,
      cn_pipeline_depth := cn_pipeline_depth conn + 1\<rparr>, w1)"
proof -
  from fast_path_uniform [of fx v w] obtain b bs w1 where u: "\<And>conn. try_fast_path fx v conn w = (b, emit bs conn, w1)" by blast
  with assms have "b" by (simp add: fast_handled_def)
  with u show ?thesis by (intro exI [of _ bs] exI [of _ w1]) (auto simp: handle_value_def Let_def emit_def)
qed

lemma execute_ping: "execute fx env ex (Ping msg) w = Some (r, ex1, w1) \<Longrightarrow> w1 = w"
  by (simp add: execute_def)

definition no_auth :: resp_value where
  "no_auth = Error ''-NOAUTH Authentication required.''"

lemma dispatch_unauthenticated:
  assumes "\<not> cn_authenticated conn" and "cn_auth_required conn"
    and "dispatch fx env c conn w = Some (ctl, conn1, w1)"
  shows "w1 = w \<and> ctl = Next \<and>
    (cn_authenticated conn1 \<longleftrightarrow> (\<exists>pw. c = Auth pw \<and> check_auth (cn_executor conn) (utf8_lossy pw))) \<and>
    (\<not> is_auth c \<and> \<not> is_ping c \<longrightarrow> conn1 = respond no_auth conn)"
proof (cases "is_auth c")
  case True
  then obtain pw where "c = Auth pw" by (cases c) (simp_all add: is_auth_def)
  with assms show ?thesis
    by (auto simp: dispatch_def is_auth_def handle_auth_def split: if_splits)
next
  case False
  then have n: "c \<noteq> Auth pw" for pw by (auto simp: is_auth_def)
  show ?thesis
  proof (cases "is_ping c")
    case True
    then obtain msg where "c = Ping msg" by (cases c) (simp_all add: is_ping_def)
    with assms False n execute_ping show ?thesis
      by (auto simp: dispatch_def run_and_respond_def is_ping_def split: option.splits)
  next
    case ping: False
    with assms False n show ?thesis by (auto simp: dispatch_def no_auth_def)
  qed
qed

lemma transaction_unauthenticated:
  assumes "cn_transaction_state conn = NoTransaction" and "handle_transaction fx env c conn w = Some (Some (conn1, w1))"
  shows "w1 = w \<and> cn_authenticated conn1 = cn_authenticated conn \<and> \<not> is_auth c \<and> \<not> queueable c"
  using assms by (cases c) (auto simp: handle_transaction_def handle_exec_def handle_multi_def handle_discard_def
      handle_watch_def handle_unwatch_def is_auth_def queueable_def)

lemma command_unauthenticated:
  assumes "\<not> cn_authenticated conn" and "cn_auth_required conn" and "cn_transaction_state conn = NoTransaction"
    and "\<not> is_in_pubsub_mode conn" and "handle_command fx env c conn w = Some (ctl, conn1, w1)"
  shows "w1 = w \<and> (\<forall>q. ctl \<noteq> NextOp q) \<and>
    (cn_authenticated conn1 \<longleftrightarrow> (\<exists>pw. c = Auth pw \<and> check_auth (cn_executor conn) (utf8_lossy pw))) \<and>
    (queueable c \<and> \<not> is_auth c \<and> \<not> is_ping c \<longrightarrow> conn1 = respond no_auth (set_client_name c conn))"
proof (cases "c = Quit")
  case True
  with assms show ?thesis by (auto simp: handle_command_def emit_def queueable_def)
next
  case quit: False
  let ?conn = "set_client_name c conn"
  show ?thesis
  proof (cases "handle_transaction fx env c ?conn w")
    case None
    with assms quit show ?thesis by (simp add: handle_command_def Let_def)
  next
    case (Some t)
    show ?thesis
    proof (cases t)
      case None
      with Some assms quit have "dispatch fx env c ?conn w = Some (ctl, conn1, w1)"
        by (simp add: handle_command_def Let_def)
      with dispatch_unauthenticated [of ?conn fx env c w ctl conn1 w1] assms(1,2) show ?thesis by simp
    next
      case (Some cw)
      with \<open>handle_transaction fx env c ?conn w = Some t\<close> assms quit
      have "handle_transaction fx env c ?conn w = Some (Some (conn1, w1))" and "ctl = Next"
        by (auto simp: handle_command_def Let_def split: prod.splits)
      with transaction_unauthenticated [of ?conn fx env c w conn1 w1] assms(1,3) show ?thesis
        by (auto simp: is_auth_def)
    qed
  qed
qed

lemma auth_gate_value:
  assumes "\<not> cn_authenticated conn" and "cn_auth_required conn" and "cn_transaction_state conn = NoTransaction"
    and "\<not> is_in_pubsub_mode conn" and "\<not> fast_handled fx v w" and "handle_value fx env v conn w = Some (ctl, conn1, w1)"
  shows "w1 = w \<and> (\<forall>q. ctl \<noteq> NextOp q) \<and>
    (cn_authenticated conn1 \<longleftrightarrow> (\<exists>pw. parse_command v = Inr (Auth pw) \<and> check_auth (cn_executor conn) (utf8_lossy pw)))"
proof (cases "parse_command v")
  case (Inl e)
  let ?c = "conn\<lparr>cn_commands_processed := cn_commands_processed conn + 1\<rparr>"
  have "\<not> fst (try_fast_path fx v ?c w)" using assms(5) by (simp add: fast_handled_iff del: One_nat_def)
  then obtain c1 w2 where "try_fast_path fx v ?c w = (False, c1, w2)" by (cases "try_fast_path fx v ?c w") auto
  with Inl assms(1,3,6) show ?thesis by (auto simp: handle_value_def Let_def)
next
  case (Inr c)
  with handle_value_slow [of conn fx v w c env] assms(5,6)
  have "handle_command fx env c (conn\<lparr>cn_commands_processed := cn_commands_processed conn + 1\<rparr>) w = Some (ctl, conn1, w1)"
    by simp
  from command_unauthenticated [OF _ _ _ _ this] assms(1-4) Inr show ?thesis by (simp add: is_in_pubsub_mode_def)
qed

section \<open>Pub/sub mode\<close>

lemma pubsub_mode_refuses:
  assumes "is_in_pubsub_mode conn" and "\<not> is_allowed_in_pubsub_mode c" and "parse_command v = Inr c"
    and "\<not> fast_handled fx v w \<or> cn_transaction_state conn = Queuing"
  shows "handle_value fx env v conn w = Some (Next, reply (Error
      ''-ERR only (P)SUBSCRIBE / (P)UNSUBSCRIBE / PING / QUIT allowed in this context'')
      (conn\<lparr>cn_commands_processed := cn_commands_processed conn + 1\<rparr>), w)"
proof -
  have "c \<noteq> Quit" using assms(2) by (auto simp: is_allowed_in_pubsub_mode_def)
  with handle_value_slow [of conn fx v w c env] assms show ?thesis
    by (auto simp: handle_command_def is_in_pubsub_mode_def)
qed

text \<open>The flag \<open>pubsub\<close> of a connection is set exactly when it is subscribed.\<close>

lemma pubsub_flag:
  "''pubsub'' \<in> set (cn_flags (set_subscription_count n conn)) \<longleftrightarrow> is_in_pubsub_mode (set_subscription_count n conn)"
  by (simp add: set_subscription_count_def Let_def is_in_pubsub_mode_def)

end
