(* ===== verification/Command_Types.thy ===== *)
theory Command_Types
  imports Connection_Spec
begin

text \<open>
  What the types of the source promise of a parsed command, where the model has byte lists: a
  \<open>String\<close> is valid UTF-8. And what the arms of the parser promise to the executor: the lists of
  keys, values, fields and channels that it is given are not empty.
\<close>

section \<open>Decoding\<close>

text \<open>What the decoder takes for a character does not depend on what follows it.\<close>

lemma continuation_read:
  "is_cont (safe_get bs i) \<Longrightarrow> i < length bs" "second_ok b (bval (safe_get bs i)) \<Longrightarrow> i < length bs"
  by (auto simp: safe_get_def is_cont_def second_ok_def split: if_splits)

lemma step_characters:
  assumes "snd (utf8_step bs)"
  obtains "utf8_char_width (bval (safe_get bs 0)) = 1" "fst (utf8_step bs) = 1"
  | "utf8_char_width (bval (safe_get bs 0)) = 2" "is_cont (safe_get bs 1)" "fst (utf8_step bs) = 2"
  | "utf8_char_width (bval (safe_get bs 0)) = 3" "second_ok (bval (safe_get bs 0)) (bval (safe_get bs 1))"
      "is_cont (safe_get bs 2)" "fst (utf8_step bs) = 3"
  | "utf8_char_width (bval (safe_get bs 0)) = 4" "second_ok (bval (safe_get bs 0)) (bval (safe_get bs 1))"
      "is_cont (safe_get bs 2)" "is_cont (safe_get bs 3)" "fst (utf8_step bs) = 4"
  using assms unfolding utf8_step_def Let_def by (simp split: if_splits)

lemma step_within:
  assumes "bs \<noteq> []" and "snd (utf8_step bs)"
  shows "fst (utf8_step bs) \<le> length bs"
  by (rule step_characters [OF assms(2)])
    (use assms(1) continuation_read(1) [of bs] in \<open>auto simp: Suc_le_eq numeral_eq_Suc dest!: continuation_read(1)\<close>)

lemma step_local:
  assumes "bs \<noteq> []" and "snd (utf8_step bs)"
  shows "utf8_step (take (fst (utf8_step bs)) bs @ rest) = utf8_step bs"
proof -
  let ?n = "fst (utf8_step bs)"
  have n: "?n \<le> length bs" by (rule step_within [OF assms])
  have same: "safe_get (take ?n bs @ rest) i = safe_get bs i" if "i < ?n" for i
    using that n by (simp add: safe_get_def nth_append)
  have b: "safe_get (take ?n bs @ rest) 0 = safe_get bs 0" by (rule same [OF fst_utf8_step_pos])
  have "utf8_step bs = (?n, True)" using assms(2) by (metis prod.collapse)
  then show ?thesis
    by (rule_tac step_characters [OF assms(2)])
      (use same [of 1] same [of 2] same [of 3] b in \<open>simp_all add: utf8_step_def [of "take _ _ @ _"] Let_def\<close>)
qed

lemma valid_replacement: "utf8_valid (replacement_char @ rest) = utf8_valid rest"
  by (subst utf8_valid.simps)
    (simp add: replacement_char_def utf8_step_def safe_get_def utf8_char_width_def second_ok_def is_cont_def Let_def)

lemma utf8_valid_lossy [simp]: "utf8_valid (utf8_lossy bs)"
proof (induction bs rule: utf8_lossy.induct)
  case (1 bs)
  show ?case
  proof (cases "bs = []")
    case False
    let ?n = "fst (utf8_step bs)"
    have "utf8_valid (take ?n bs @ rest) = utf8_valid rest" if "snd (utf8_step bs)" for rest
      using step_local [OF False that, of rest] step_within [OF False that] that False fst_utf8_step_pos [of bs]
      by (subst utf8_valid.simps) auto
    with False 1 valid_replacement show ?thesis by (subst utf8_lossy.simps) simp
  qed simp
qed

section \<open>Commands\<close>

definition command_typed :: "command \<Rightarrow> bool" where
  "command_typed c = (case c of
     Info sec \<Rightarrow> (\<forall>s \<in> set_option sec. utf8_valid s)
   | Config action args \<Rightarrow> utf8_valid action
   | Command subcommand args \<Rightarrow> (\<forall>s \<in> set_option subcommand. utf8_valid s)
   | Keys pattern \<Rightarrow> utf8_valid pattern
   | Scan cursor n pattern \<Rightarrow> (\<forall>s \<in> set_option pattern. utf8_valid s)
   | PubSub subcommand args \<Rightarrow> utf8_valid subcommand
   | Client subcommand args \<Rightarrow> utf8_valid subcommand
   | Del keys \<Rightarrow> keys \<noteq> []
   | Exists keys \<Rightarrow> keys \<noteq> []
   | MGet keys \<Rightarrow> keys \<noteq> []
   | MSet pairs \<Rightarrow> pairs \<noteq> []
   | LPush key vs \<Rightarrow> vs \<noteq> []
   | RPush key vs \<Rightarrow> vs \<noteq> []
   | Subscribe channels \<Rightarrow> channels \<noteq> []
   | PSubscribe patterns \<Rightarrow> patterns \<noteq> []
   | Watch keys \<Rightarrow> keys \<noteq> []
   | HSet key pairs \<Rightarrow> pairs \<noteq> []
   | HMGet key names \<Rightarrow> names \<noteq> []
   | HDel key names \<Rightarrow> names \<noteq> []
   | _ \<Rightarrow> True)"

lemma scan_options_typed:
  "parse_scan_options args n pat = Inr (n1, pat1) \<Longrightarrow> \<forall>s \<in> set_option pat. utf8_valid s \<Longrightarrow> \<forall>s \<in> set_option pat1. utf8_valid s"
proof (induction args n pat arbitrary: n1 pat1 rule: parse_scan_options.induct)
  case (2 a rest count pat)
  then obtain option v rest' where o: "extract_bytes a = Inr option" "rest = v # rest'"
    by (cases rest) (auto simp: try_bind_Inr)
  with "2.prems"(1) consider
    p where "to_ascii_uppercase option = ''MATCH''" "parse_scan_options rest' count (Some (utf8_lossy p)) = Inr (n1, pat1)"
    | m where "to_ascii_uppercase option \<noteq> ''MATCH''" "to_ascii_uppercase option = ''COUNT''"
        "parse_scan_options rest' m pat = Inr (n1, pat1)"
    by (auto simp: try_bind_Inr split: if_splits)
  then show ?case
  proof cases
    case 1
    with "2.IH"(1) [OF o(2) 1(1) 1(2)] show ?thesis by simp
  next
    case 2
    with "2.IH"(2) [OF o(2) 2] "2.prems"(2) show ?thesis by simp
  qed
qed simp

lemma pairs_exist:
  "extract_pairs args = Inr [] \<Longrightarrow> even (length args) \<Longrightarrow> args = []"
  "extract_pairs args = Inr pairs \<Longrightarrow> 2 \<le> length args \<Longrightarrow> pairs \<noteq> []"
  by (cases args rule: extract_pairs.cases; auto simp: try_bind_Inr)+

lemma try_map_nonempty: "try_map f xs = Inr ys \<Longrightarrow> xs \<noteq> [] \<Longrightarrow> ys \<noteq> []"
  using try_map_length by fastforce

lemma parse_arms_typed: "list_all (\<lambda>(name, arm). \<forall>args c. arm args = Inr c \<longrightarrow> command_typed c) parse_arms"
  unfolding parse_arms_def list.pred_inject prod.case
  by (intro conjI TrueI allI impI) (auto simp: parse_arm_defs command_typed_def try_bind_Inr
      dest: scan_options_typed pairs_exist try_map_nonempty split: if_splits)

lemma parse_command_typed: "parse_command v = Inr c \<Longrightarrow> command_typed c"
  using parse_arms_typed
  by (auto simp: parse_command_def list_all_iff split: resp_value.splits option.splits list.splits dest!: map_of_SomeD)

section \<open>Values and connections\<close>

text \<open>A value whose error texts are strings; the parser checks the bytes of an error.\<close>

fun value_typed :: "resp_value \<Rightarrow> bool" where
  "value_typed (Error e) = utf8_valid e"
| "value_typed (Array (Some vs)) = list_all value_typed vs"
| "value_typed _ = True"

lemma parse_typed:
  "parse_value cap buf = Inr (Some (v, c)) \<Longrightarrow> value_typed v"
  "parse_array cap buf = Inr (Some (v, c)) \<Longrightarrow> value_typed v"
  "parse_elements cap n buf pos es = Inr (Some (v, c)) \<Longrightarrow> list_all value_typed es \<Longrightarrow> value_typed v"
proof (induction cap buf and cap buf and cap n buf pos es arbitrary: v c and v c and v c
    rule: parse_value_parse_array_parse_elements.induct)
  case (1 cap buf)
  from "1.prems" show ?case
    by (subst (asm) parse_value.simps)
      (auto dest: "1.IH" simp: parse_simple_string_def parse_error_def parse_integer_def parse_bulk_string_def Let_def
        split: if_splits option.splits)
next
  case (2 cap buf)
  from "2.prems" show ?case
    by (subst (asm) parse_array.simps) (auto dest: "2.IH" simp: Let_def split: if_splits option.splits)
next
  case (3 cap n buf pos es)
  show ?case
  proof (cases "n = 0")
    case True
    with "3.prems" show ?thesis by (subst (asm) parse_elements.simps) auto
  next
    case False
    with "3.prems"(1) obtain v1 c1 where e: "parse_value cap (drop pos buf) = Inr (Some (v1, c1))"
      "parse_elements cap (n - 1) buf (pos + c1) (es @ [v1]) = Inr (Some (v, c))"
      by (subst (asm) parse_elements.simps) (auto split: option.splits sum.splits)
    then show ?thesis using "3.IH" False "3.prems"(2) by auto
  qed
qed

text \<open>A connection whose name is a string and whose queued commands are as the parser gives them.\<close>

definition conn_typed :: "connection \<Rightarrow> bool" where
  "conn_typed conn \<longleftrightarrow> (\<forall>name \<in> set_option (cn_client_name conn). utf8_valid name) \<and>
     list_all command_typed (cn_queued_commands conn)"

lemma conn_typed_new: "conn_typed (new_with_addr fd env config addr i)"
  by (simp add: conn_typed_def new_with_addr_def)

lemma conn_typed_simps [simp]:
  "conn_typed (reply v conn) = conn_typed conn" "conn_typed (respond v conn) = conn_typed conn"
  "conn_typed (emit bs conn) = conn_typed conn" "conn_typed (conn\<lparr>cn_parser := p\<rparr>) = conn_typed conn"
  "conn_typed (conn\<lparr>cn_commands_processed := n\<rparr>) = conn_typed conn"
  "conn_typed (conn\<lparr>cn_pipeline_depth := n\<rparr>) = conn_typed conn"
  "conn_typed (conn\<lparr>cn_executor := e\<rparr>) = conn_typed conn" "conn_typed (conn\<lparr>cn_closed := b\<rparr>) = conn_typed conn"
  "conn_typed (conn\<lparr>cn_watched_keys := ks\<rparr>) = conn_typed conn"
  "conn_typed (conn\<lparr>cn_authenticated := b\<rparr>) = conn_typed conn"
  "conn_typed (conn\<lparr>cn_transaction_state := t\<rparr>) = conn_typed conn"
  "conn_typed (conn\<lparr>cn_write_buffer := bs\<rparr>) = conn_typed conn"
  "conn_typed (conn\<lparr>cn_write_position := n\<rparr>) = conn_typed conn"
  by (simp_all add: conn_typed_def reply_def respond_def emit_def)

lemma conn_typed_queue [simp]:
  "conn_typed conn \<Longrightarrow> conn_typed (conn\<lparr>cn_queued_commands := []\<rparr>)"
  "conn_typed conn \<Longrightarrow> conn_typed (set_client_name c conn)"
  "conn_typed conn \<Longrightarrow> command_typed c' \<Longrightarrow>
     conn_typed ((set_client_name c conn)\<lparr>cn_queued_commands := cn_queued_commands conn @ [c']\<rparr>)"
  by (auto simp: conn_typed_def set_client_name_def split: command.splits)

lemma handle_transaction_typed:
  assumes "handle_transaction fx env c conn w = Some (Some (conn1, w1))" and "conn_typed conn"
  shows "conn_typed conn1"
  using assms by (cases c) (auto simp: handle_transaction_def handle_multi_def handle_exec_def handle_discard_def
      handle_watch_def handle_unwatch_def split: if_splits option.splits)

lemma dispatch_typed:
  assumes "dispatch fx env c conn w = Some (ctl, conn1, w1)" and "conn_typed conn"
  shows "conn_typed conn1"
proof -
  have run: "run_and_respond fx env c conn w = Some (ctl, conn1, w1) \<Longrightarrow> conn_typed conn1" for c
    using assms(2) by (auto simp: run_and_respond_def split: option.splits)
  have auth: "conn_typed (handle_auth pw conn)" for pw using assms(2) by (simp add: handle_auth_def)
  show ?thesis
    using assms run auth by (cases c) (auto simp: dispatch_def respond_pubsub_def is_auth_def split: if_splits option.splits)
qed

lemma handle_value_typed:
  assumes "handle_value fx env v conn w = Some (ctl, conn1, w1)" and "conn_typed conn"
  shows "conn_typed conn1"
proof -
  let ?c = "conn\<lparr>cn_commands_processed := cn_commands_processed conn + 1\<rparr>"
  obtain b bs w2 where f: "try_fast_path fx v ?c w = (b, emit bs ?c, w2)" using fast_path_uniform [of fx v w] by blast
  have "conn_typed ?c" using assms(2) by simp
  then have "handle_command fx env c ?c w = Some (ctl, conn1, w1) \<Longrightarrow> command_typed c \<Longrightarrow> conn_typed conn1" for c
    using conn_typed_queue(3) [of ?c c c] by (auto simp: handle_command_def Let_def dest: handle_transaction_typed dispatch_typed
        split: if_splits option.splits)
  then show ?thesis
    using assms f by (auto simp: handle_value_def Let_def dest: parse_command_typed split: if_splits sum.splits)
qed

lemma process_read_typed:
  assumes "process_read cap fx env d conn w = Some (r, conn1, w1)" and "conn_typed conn"
  shows "conn_typed conn1"
proof -
  have "process_loop cap fx env conn w ops = Some (r, conn1, w1) \<Longrightarrow> conn_typed conn \<Longrightarrow> conn_typed conn1" for conn ops and w
  proof (induction cap fx env conn w ops rule: process_loop.induct)
    case (1 cap fx env conn w ops)
    obtain pr p where p: "parse_next cap (cn_parser conn) = (pr, p)" by force
    show ?case
    proof (cases "\<exists>v. pr = Inr (Some v)")
      case False
      with "1.prems" p show ?thesis
        by (auto simp: process_loop.simps [of cap fx env conn] split: sum.splits option.splits parse_error.splits)
    next
      case True
      then obtain v where v: "pr = Inr (Some v)" by blast
      with "1.prems" p obtain ctl c2 w2 where h: "handle_value fx env v (conn\<lparr>cn_parser := p\<rparr>) w = Some (ctl, c2, w2)"
        by (auto simp: process_loop.simps [of cap fx env conn] split: option.splits)
      have "conn_typed c2" using handle_value_typed [OF h] "1.prems"(2) by simp
      then show ?thesis
        using "1.prems" "1.IH" [OF p [symmetric] v refl] p v h
        by (cases ctl) (auto simp: process_loop.simps [of cap fx env conn])
    qed
  qed
  with assms show ?thesis by (fastforce simp: process_read_def Let_def split: if_splits)
qed

end
