(* ===== verification/Props_Conn.thy ===== *)
theory Props_Conn
  imports Props_Store Connection_Stream Command_Types
begin

text \<open>
  The properties of a connection: reads, the fast path, transactions, authentication and
  pub/sub mode, with a new connection of a server with a password in the witnesses.
\<close>

definition some_env :: env where
  "some_env = \<lparr>env_now = 0, env_unix = 0, env_version = ''0'', env_pid = 1\<rparr>"

definition guarded_config :: config where
  "guarded_config = (default_config 1)\<lparr>cfg_requirepass := Some ''secret''\<rparr>"

definition guarded :: connection where
  "guarded = new_with_addr 0 some_env guarded_config None 1"

definition unguarded :: connection where
  "unguarded = new_with_addr 0 some_env (default_config 1) None 1"

lemma guarded_simps [simp]:
  "\<not> cn_authenticated guarded" "cn_auth_required guarded" "cn_transaction_state guarded = NoTransaction"
  "\<not> is_in_pubsub_mode guarded" "cn_watched_keys guarded = []" "\<not> cn_closed guarded" "parser_ok (cn_parser guarded)"
  "cn_write_buffer guarded = []" "cn_write_position guarded = 0"
  by (simp_all add: guarded_def guarded_config_def new_with_addr_def auth_required_def is_in_pubsub_mode_def
      parser_ok_def new_parser_def)

lemma unguarded_simps [simp]:
  "cn_authenticated unguarded" "cn_transaction_state unguarded = NoTransaction"
  "\<not> is_in_pubsub_mode unguarded" "cn_watched_keys unguarded = []" "\<not> cn_closed unguarded" "parser_ok (cn_parser unguarded)"
  "cn_write_buffer unguarded = []" "cn_write_position unguarded = 0"
  by (simp_all add: unguarded_def new_with_addr_def auth_required_def is_in_pubsub_mode_def default_config_def
      parser_ok_def new_parser_def)

abbreviation set_value :: "bytes \<Rightarrow> bytes \<Rightarrow> resp_value" where
  "set_value key val \<equiv> Array (Some [BulkString (Some ''SET''), BulkString (Some key), BulkString (Some val)])"

abbreviation get_value :: "bytes \<Rightarrow> resp_value" where
  "get_value key \<equiv> Array (Some [BulkString (Some ''GET''), BulkString (Some key)])"

abbreviation del_value :: "bytes \<Rightarrow> resp_value" where
  "del_value key \<equiv> Array (Some [BulkString (Some ''DEL''), BulkString (Some key)])"

lemma del_slow: "try_fast_path fx (del_value key) conn w = (False, conn, w)"
  by (simp add: try_fast_path_def fast_path_get_def eq_ignore_ascii_case_upper to_ascii_uppercase_def byte_simps)

lemma del_not_fast: "\<not> fast_handled fx (del_value key) w"
  by (simp add: fast_handled_def del_slow)

lemma del_parsed: "parse_command (del_value key) = Inr (Del [key])"
proof -
  have "to_ascii_uppercase ''DEL'' = ''DEL''" by (simp add: to_ascii_uppercase_def byte_simps)
  then show ?thesis by (simp add: parse_command_def parse_arms_def parse_del_args_def extract_bytes_def)
qed

section \<open>Reads\<close>

text \<open>C4: What a connection does does not depend on how the bytes of its client are cut into reads, nor on how
  much of its replies is written in between: after a first read that neither fails nor closes the connection
  and the writing of any part of the replies, a second read gives the result, the shared state, the connection
  (parser representation and buffers apart) and the bytes to the client of one read of all the bytes. This is
  \<open>Connection::process_read\<close>: the pub/sub operations it returns are carried out by the server after each read,
  and are outside this statement.\<close>

theorem reads_in_pieces:
  assumes "parser_ok (cn_parser conn)" and "process_read cap fx env d1 conn w = Some (Inr ops1, conn1, w1)"
    and "\<not> cn_closed conn1" and "n \<le> length (unwritten conn1)"
  shows "rel_option (\<lambda>(r2, conn2, w2) (r, conn', w'). w' = w2 \<and> r = map_sum id ((@) ops1) r2 \<and> bare conn' = bare conn2 \<and>
      unwritten conn' = take n (unwritten conn1) @ unwritten conn2)
    (process_read cap fx env d2 (consume_writes n conn1) w1) (process_read cap fx env (d1 @ d2) conn w)"
  using assms by (rule read_in_pieces)

theorem reads_in_pieces_witness:
  "\<exists>conn1. process_read 16 mem_store some_env ''*1'' unguarded empty_world = Some (Inr [], conn1, empty_world) \<and>
     rel_option (\<lambda>(r2, conn2, w2) (r, conn', w'). w' = w2 \<and> r = map_sum id ((@) []) r2 \<and> bare conn' = bare conn2 \<and>
       unwritten conn' = unwritten conn2)
     (process_read 16 mem_store some_env (write_resp_value [] (Integer 1)) conn1 empty_world)
     (process_read 16 mem_store some_env (''*1'' @ write_resp_value [] (Integer 1)) unguarded empty_world)"
proof -
  have "\<not> crlf_at ''*1'' i" for i by (auto simp: crlf_at_def nth_Cons split: nat.splits)
  then have "find_crlf ''*1'' = None" by (simp add: find_crlf_None)
  then have p: "parse_value 16 ''*1'' = Inr None" by (simp add: parse_value.simps parse_array.simps)
  define conn1 where "conn1 = unguarded\<lparr>cn_parser := feed (cn_parser unguarded) ''*1''\<rparr>"
  have f: "pending (cn_parser conn1) = ''*1''" "parser_ok (cn_parser conn1)"
    by (simp_all add: conn1_def unguarded_def new_with_addr_def feed_def pending_def new_parser_def parser_ok_def)
  have e: "unguarded\<lparr>cn_parser := q, cn_write_buffer := [], cn_write_position := 0\<rparr> = unguarded\<lparr>cn_parser := q\<rparr>" for q
    by (simp add: unguarded_def new_with_addr_def)
  have "parse_next 16 (cn_parser conn1) = (Inr None, cn_parser conn1)"
    using parse_next_pending(2) [of "cn_parser conn1" 16] f p by (simp add: parser_ok_def)
  then have r: "process_read 16 mem_store some_env ''*1'' unguarded empty_world = Some (Inr [], conn1, empty_world)"
    by (simp add: process_read_def Let_def e process_loop.simps flip: conn1_def) (simp add: conn1_def)
  have c: "consume_writes 0 conn1 = conn1" "\<not> cn_closed conn1" by (simp_all add: consume_writes_def conn1_def)
  from reads_in_pieces [OF unguarded_simps(6) r c(2), of 0 "write_resp_value [] (Integer 1)"] r show ?thesis
    by (simp add: c(1))
qed

section \<open>The fast path\<close>

text \<open>C15: On an authenticated connection outside transactions and pub/sub mode the fast path of SET and GET
  gives the client and the shared state what the general path gives; only the executor's counter of
  processed commands differs.\<close>

theorem fast_path_is_slow:
  assumes "feox_store fx view good accepts" and "good (wd_store w)" and "accepts key val"
    and "eq_ignore_ascii_case sname ''SET''" and "eq_ignore_ascii_case gname ''GET''"
    and "cn_authenticated conn" and "cn_transaction_state conn = NoTransaction" and "\<not> is_in_pubsub_mode conn"
  shows "handle_value fx env (Array (Some [BulkString (Some sname), BulkString (Some key), BulkString (Some val)])) conn w =
      map_option (\<lambda>(ctl, conn1, w1). (ctl, conn1\<lparr>cn_executor := cn_executor conn\<rparr>, w1))
        (handle_command fx env (Set key val None None) (conn\<lparr>cn_commands_processed := cn_commands_processed conn + 1\<rparr>) w) \<and>
    handle_value fx env (Array (Some [BulkString (Some gname), BulkString (Some key)])) conn w =
      map_option (\<lambda>(ctl, conn1, w1). (ctl, conn1\<lparr>cn_executor := cn_executor conn\<rparr>, w1))
        (handle_command fx env (Get key) (conn\<lparr>cn_commands_processed := cn_commands_processed conn + 1\<rparr>) w)"
proof -
  let ?conn = "conn\<lparr>cn_commands_processed := cn_commands_processed conn + 1\<rparr>"
  have conn: "cn_authenticated ?conn" "cn_transaction_state ?conn = NoTransaction" "\<not> is_in_pubsub_mode ?conn"
    using assms(6-8) by (simp_all add: is_in_pubsub_mode_def)
  have "handle_command fx env (Set key val None None) ?conn w = run_and_respond fx env (Set key val None None) ?conn w"
    "handle_command fx env (Get key) ?conn w = run_and_respond fx env (Get key) ?conn w"
    by (rule slow_path [OF conn], blast)+
  then show ?thesis
    using fast_set_value [OF assms(1-4), of ?conn] fast_get_value [OF assms(1,2,5) get_not_set [OF assms(5)], of key ?conn] conn(2)
    by (simp add: handle_value_def Let_def run_and_respond_def execute_def respond_def reply_def split_beta)
qed

theorem fast_path_is_slow_witness:
  "handle_value mem_store some_env (set_value ''k'' ''v'') unguarded empty_world =
     map_option (\<lambda>(ctl, conn1, w1). (ctl, conn1\<lparr>cn_executor := cn_executor unguarded\<rparr>, w1))
       (handle_command mem_store some_env (Set ''k'' ''v'' None None)
         (unguarded\<lparr>cn_commands_processed := cn_commands_processed unguarded + 1\<rparr>) empty_world)"
proof -
  have "eq_ignore_ascii_case ''SET'' ''SET''" "eq_ignore_ascii_case ''GET'' ''GET''" by (simp_all add: eq_ignore_ascii_case_upper)
  from fast_path_is_slow [where w = empty_world and key = "''k''" and val = "''v''" and env = some_env,
    OF mem_is_store _ _ this unguarded_simps(1-3)] show ?thesis by simp
qed

section \<open>Transactions\<close>

text \<open>C5: WATCH, MULTI, any commands and EXEC: if one of the watched keys was notified as modified between WATCH
  and EXEC, EXEC answers null, runs nothing and leaves the shared state alone; if none was, EXEC runs the
  queued commands in order and answers their replies. Watching the same keys again in between forgets the
  modifications.\<close>

theorem exec_runs_iff_unmodified:
  assumes "cn_transaction_state conn = NoTransaction" and "cn_watched_keys conn = []" and "\<not> is_in_pubsub_mode conn"
    and "\<forall>(c, w) \<in> set steps. queueable c" and "wd_watch w2 = fold notify_key_modified changed (wd_watch w0)"
    and "watch_room (wd_watch w0) (length changed)"
  shows "(\<exists>conn3. run_steps fx env ([(Watch keys, w0), (Multi, w1)] @ steps) conn = Some conn3 \<and>
      handle_command fx env Exec conn3 w2 =
        (if set changed \<inter> set keys \<noteq> {}
         then Some (Next, reply (BulkString None)
           (conn3\<lparr>cn_transaction_state := NoTransaction, cn_queued_commands := [], cn_watched_keys := []\<rparr>), w2)
         else (case execute_all fx env (cn_executor conn) (map fst steps) w2 of
           None \<Rightarrow> None
         | Some (results, ex, w3) \<Rightarrow> Some (Next, reply (Array (Some results)) (conn3\<lparr>cn_executor := ex,
             cn_queued_commands := [], cn_transaction_state := NoTransaction, cn_watched_keys := []\<rparr>), w3)))) \<and>
    check_keys_unchanged (wd_watch w2) (watched (wd_watch w2) keys (watched (wd_watch w0) keys []))"
  using watch_multi_exec [OF assms] watch_again_forgets [OF assms(5,6)] by blast

theorem exec_runs_iff_unmodified_witness:
  "\<exists>conn3. run_steps mem_store some_env [(Watch [''k''], empty_world), (Multi, empty_world), (Del [''k''], empty_world)] unguarded = Some conn3 \<and>
     handle_command mem_store some_env Exec conn3 (notify ''k'' empty_world) =
       Some (Next, reply (BulkString None)
         (conn3\<lparr>cn_transaction_state := NoTransaction, cn_queued_commands := [], cn_watched_keys := []\<rparr>), notify ''k'' empty_world)"
proof -
  have q: "\<forall>(c, w) \<in> set [(Del [''k''], empty_world)]. queueable c" by (simp add: queueable_def)
  have n: "wd_watch (notify ''k'' empty_world) = fold notify_key_modified [''k''] (wd_watch empty_world)" by simp
  have r: "watch_room (wd_watch empty_world) (length [''k''])" using watch_room_new [of "Suc 0"] by simp
  from exec_runs_iff_unmodified [OF unguarded_simps(2,4,3) q n r, of mem_store some_env "[''k'']" empty_world]
  show ?thesis by simp
qed

section \<open>Authentication\<close>

text \<open>C6: On a connection that has not authenticated to a server with a password, outside a transaction, a value that
  the fast path does not take changes nothing in the shared state and asks for no pub/sub operation, and it
  authenticates the connection exactly if it is AUTH with the configured password.\<close>

theorem auth_gate:
  assumes "\<not> cn_authenticated conn" and "cn_auth_required conn" and "cn_transaction_state conn = NoTransaction"
    and "\<not> is_in_pubsub_mode conn" and "\<not> fast_handled fx v w" and "handle_value fx env v conn w = Some (ctl, conn1, w1)"
  shows "w1 = w \<and> (\<forall>q. ctl \<noteq> NextOp q) \<and>
    (cn_authenticated conn1 \<longleftrightarrow>
      (\<exists>pw. parse_command v = Inr (Auth pw) \<and> cfg_requirepass (ex_config (cn_executor conn)) = Some (utf8_lossy pw)))"
  using auth_gate_value [OF assms] by (simp add: check_auth_def check_password_iff)

theorem auth_gate_witness:
  "\<exists>ctl conn1. handle_value mem_store some_env (del_value ''k'') guarded empty_world =
     Some (ctl, conn1, empty_world) \<and> \<not> cn_authenticated conn1"
proof -
  obtain conn1 where h: "handle_value mem_store some_env (del_value ''k'') guarded empty_world = Some (Next, conn1, empty_world)"
    by (simp add: del_slow del_parsed handle_value_def Let_def handle_command_def is_in_pubsub_mode_def guarded_def new_with_addr_def
        guarded_config_def auth_required_def set_client_name_def handle_transaction_def dispatch_def is_auth_def is_ping_def)
  from auth_gate [OF guarded_simps(1-4) del_not_fast h] del_parsed h show ?thesis by simp
qed

text \<open>C7: The gate is open in two places. On such a connection SET and GET take the fast path, which does not
  ask whether the client has authenticated: they read and write the store. And MULTI, any commands and EXEC
  run those commands, because commands are queued before the check and EXEC does not repeat it.\<close>

theorem auth_bypass:
  assumes "feox_store fx view good accepts" and "good (wd_store w)" and "accepts key val"
    and "\<not> cn_authenticated conn" and "cn_auth_required conn" and "cn_transaction_state conn = NoTransaction"
    and "cn_watched_keys conn = []" and "\<not> is_in_pubsub_mode conn" and "\<forall>(c, w) \<in> set steps. queueable c"
  shows "(\<exists>conn1. handle_value fx env (set_value key val) conn w = Some (Next, conn1, snd (exec_set fx key val None None w)) \<and>
      \<not> cn_authenticated conn1) \<and>
    (\<exists>conn1. handle_value fx env (get_value key) conn w = Some (Next, conn1, snd (exec_get fx key w)) \<and>
      cn_write_buffer conn1 = write_resp_value (cn_write_buffer conn) (fst (exec_get fx key w))) \<and>
    (\<exists>conn3. run_steps fx env ((Multi, w0) # steps) conn = Some conn3 \<and>
      handle_command fx env Exec conn3 w =
        (case execute_all fx env (cn_executor conn) (map fst steps) w of
           None \<Rightarrow> None
         | Some (results, ex, w3) \<Rightarrow> Some (Next, reply (Array (Some results)) (conn3\<lparr>cn_executor := ex,
             cn_queued_commands := [], cn_transaction_state := NoTransaction, cn_watched_keys := []\<rparr>), w3)))"
proof -
  have names: "eq_ignore_ascii_case ''SET'' ''SET''" "eq_ignore_ascii_case ''GET'' ''GET''" by (simp_all add: eq_ignore_ascii_case_upper)
  let ?conn = "conn\<lparr>cn_commands_processed := cn_commands_processed conn + 1\<rparr>"
  show ?thesis
    using multi_exec [OF assms(6-9), of fx env w0 w] fast_set_value [OF assms(1-3) names(1), of ?conn]
      fast_get_value [OF assms(1,2) names(2) get_not_set [OF names(2)], of key ?conn] assms(4,6)
    by (simp add: handle_value_def Let_def reply_def)
qed

theorem auth_bypass_witness:
  "\<exists>conn1 w1. handle_value mem_store some_env (set_value ''k'' ''v'') guarded empty_world = Some (Next, conn1, w1) \<and>
     \<not> cn_authenticated conn1 \<and> mem_view (wd_store w1) ''k'' = Some ''v''"
proof -
  from auth_bypass [where w = empty_world and key = "''k''" and val = "''v''" and steps = "[]" and env = some_env,
    OF mem_is_store _ _ guarded_simps(1,2,3,5,4)]
  obtain conn1 where c: "handle_value mem_store some_env (set_value ''k'' ''v'') guarded empty_world =
      Some (Next, conn1, snd (exec_set mem_store ''k'' ''v'' None None empty_world))" "\<not> cn_authenticated conn1" by auto
  from mem.exec_set_spec [where w = empty_world and key = "''k''" and v = "''v''" and ex = None and px = None] c show ?thesis by auto
qed

section \<open>Pub/sub mode\<close>

text \<open>C27: In pub/sub mode a command other than (P)SUBSCRIBE, (P)UNSUBSCRIBE, PING and QUIT gets the documented error
  and has no other effect, unless it is a SET or GET that takes the fast path: those are handled as on any
  other connection.\<close>

theorem pubsub_mode_restricts:
  assumes "is_in_pubsub_mode conn" and "cn_transaction_state conn = NoTransaction" and "parse_command v = Inr c"
    and "\<not> is_allowed_in_pubsub_mode c"
  shows "(\<not> fast_handled fx v w \<longrightarrow> handle_value fx env v conn w = Some (Next, reply (Error
        ''-ERR only (P)SUBSCRIBE / (P)UNSUBSCRIBE / PING / QUIT allowed in this context'')
        (conn\<lparr>cn_commands_processed := cn_commands_processed conn + 1\<rparr>), w)) \<and>
    (fast_handled fx v w \<longrightarrow> (\<exists>bs w1. \<forall>conn. cn_transaction_state conn = NoTransaction \<longrightarrow>
      handle_value fx env v conn w = Some (Next, (emit bs conn)\<lparr>cn_commands_processed := cn_commands_processed conn + 1,
        cn_pipeline_depth := cn_pipeline_depth conn + 1\<rparr>, w1)))"
  using pubsub_mode_refuses [OF assms(1,4,3)] fast_value_uniform [of fx v w env] by blast

theorem pubsub_mode_restricts_witness:
  "handle_value mem_store some_env (del_value ''k'')
     (set_subscription_count 1 unguarded) empty_world = Some (Next, reply (Error
        ''-ERR only (P)SUBSCRIBE / (P)UNSUBSCRIBE / PING / QUIT allowed in this context'')
        ((set_subscription_count 1 unguarded)\<lparr>cn_commands_processed := cn_commands_processed (set_subscription_count 1 unguarded) + 1\<rparr>),
      empty_world)"
proof -
  have "is_in_pubsub_mode (set_subscription_count 1 unguarded)"
    "cn_transaction_state (set_subscription_count 1 unguarded) = NoTransaction"
    by (simp_all add: set_subscription_count_def Let_def is_in_pubsub_mode_def)
  from pubsub_mode_restricts [OF this del_parsed [of "''k''"], where fx = mem_store and w = empty_world and env = some_env]
  show ?thesis by (simp add: is_allowed_in_pubsub_mode_def del_not_fast)
qed

section \<open>Strings\<close>

text \<open>C28: What the source keeps as a \<open>String\<close> is valid UTF-8, whatever bytes a client sends: the text of an error
  value from the wire, the subcommands, sections and patterns of a command, and the name and the queued commands of
  a connection; the lists of keys, values, fields and channels of a command are not empty.\<close>

theorem strings_valid:
  "utf8_valid (utf8_lossy bs) \<and> (parse_value cap bs = Inr (Some (v, n)) \<longrightarrow> value_typed v) \<and>
    (parse_command v = Inr c \<longrightarrow> command_typed c) \<and> conn_typed (new_with_addr fd env config addr i) \<and>
    (process_read cap fx env d conn w = Some (r, conn1, w1) \<and> conn_typed conn \<longrightarrow> conn_typed conn1)"
  using parse_typed(1) parse_command_typed process_read_typed conn_typed_new by auto

theorem strings_valid_witness:
  "\<exists>p. parse_command (Array (Some [BulkString (Some ''KEYS''), BulkString (Some [CHR 0xFF])])) = Inr (Keys p) \<and> command_typed (Keys p)"
proof -
  have "to_ascii_uppercase ''KEYS'' = ''KEYS''" by (simp add: to_ascii_uppercase_def byte_simps)
  then obtain p where p: "parse_command (Array (Some [BulkString (Some ''KEYS''), BulkString (Some [CHR 0xFF])])) = Inr (Keys p)"
    by (simp add: parse_command_def parse_arms_def parse_arm_defs extract_bytes_def)
  with strings_valid show ?thesis by blast
qed

end
