(* ===== verification/Pubsub_Registry.thy ===== *)
theory Pubsub_Registry
  imports Pubsub_Message Glob "HOL-Library.AList"
begin

text \<open>
  \<open>src/src/pubsub/registry.rs\<close>: the process-wide registry: which threads are interested in a
  channel or pattern, how many subscribers each has, and the bounded queues between the
  threads. The concurrent maps are association lists and the thread sets are lists; what
  the code does does not depend on their order. Each operation is one step; the two steps
  of a removal, between which the source holds no lock, are separate definitions.
\<close>

section \<open>Tables\<close>

definition at_key :: "('k \<times> 'v list) list \<Rightarrow> 'k \<Rightarrow> 'v list" where
  "at_key al k = (case map_of al k of Some vs \<Rightarrow> vs | None \<Rightarrow> [])"

definition count_of :: "('k \<times> nat) list \<Rightarrow> 'k \<Rightarrow> nat" where
  "count_of al k = (case map_of al k of Some n \<Rightarrow> n | None \<Rightarrow> 0)"

text \<open>\<open>entry(k).or_default()\<close> followed by \<open>insert(v)\<close>; the result of the insertion.\<close>

definition add_interest :: "bytes \<Rightarrow> nat \<Rightarrow> (bytes \<times> nat list) list \<Rightarrow> (bytes \<times> nat list) list \<times> bool" where
  "add_interest k v al =
     (if v \<in> set (at_key al k) then (AList.update k (at_key al k) al, False)
      else (AList.update k (at_key al k @ [v]) al, True))"

text \<open>
  The removal under the lock of the entry (the new table, whether \<open>v\<close> was there, whether the
  entry is now empty), and the removal of an empty entry after the lock is dropped.
\<close>

definition remove_interest_entry ::
  "bytes \<Rightarrow> nat \<Rightarrow> (bytes \<times> nat list) list \<Rightarrow> (bytes \<times> nat list) list \<times> bool \<times> bool" where
  "remove_interest_entry k v al = (case map_of al k of
     None \<Rightarrow> (al, False, False)
   | Some vs \<Rightarrow> (AList.update k (removeAll v vs) al, v \<in> set vs, removeAll v vs = []))"

definition remove_interest :: "bytes \<Rightarrow> nat \<Rightarrow> (bytes \<times> nat list) list \<Rightarrow> (bytes \<times> nat list) list \<times> bool" where
  "remove_interest k v al = (case remove_interest_entry k v al of
     (al1, removed, now_empty) \<Rightarrow> (if now_empty then AList.delete k al1 else al1, removed))"

definition increment_count :: "bytes \<Rightarrow> (bytes \<times> nat) list \<Rightarrow> (bytes \<times> nat) list" where
  "increment_count k al = AList.update k (count_of al k + 1) al"

definition decrement_count :: "bytes \<Rightarrow> (bytes \<times> nat) list \<Rightarrow> (bytes \<times> nat) list" where
  "decrement_count k al = (case map_of al k of
     None \<Rightarrow> al
   | Some n \<Rightarrow>
       (let n1 = (if 0 < n then n - 1 else n)
        in if n1 = 0 then AList.delete k (AList.update k n1 al) else AList.update k n1 al))"

section \<open>The registry\<close>

text \<open>The counters of \<open>src/src/pubsub/mod.rs\<close>: nothing reads them.\<close>

record pubsub_stats =
  ps_total_channels :: u64
  ps_total_patterns :: u64
  ps_total_messages :: u64

definition new_stats :: pubsub_stats where
  "new_stats = \<lparr>ps_total_channels = 0, ps_total_patterns = 0, ps_total_messages = 0\<rparr>"

definition count_message :: "pubsub_stats \<Rightarrow> pubsub_stats" where
  "count_message stats = stats\<lparr>ps_total_messages := ps_total_messages stats + 1\<rparr>"

record registry =
  gr_channel_to_threads :: "(bytes \<times> nat list) list"
  gr_pattern_to_threads :: "(bytes \<times> nat list) list"
  gr_channel_subscriber_counts :: "(bytes \<times> nat) list"
  gr_pattern_subscriber_counts :: "(bytes \<times> nat) list"
  gr_queues :: "broadcast_msg list list" \<comment> \<open>\<open>thread_channels\<close>, with what their receivers still hold\<close>
  gr_stats :: pubsub_stats

definition QUEUE_BOUND :: nat where
  "QUEUE_BOUND = 1024"

definition new_global_registry :: "nat \<Rightarrow> registry" where
  "new_global_registry num_threads = \<lparr>gr_channel_to_threads = [], gr_pattern_to_threads = [],
     gr_channel_subscriber_counts = [], gr_pattern_subscriber_counts = [],
     gr_queues = replicate num_threads [], gr_stats = new_stats\<rparr>"

definition add_channel_interest :: "bytes \<Rightarrow> nat \<Rightarrow> registry \<Rightarrow> registry" where
  "add_channel_interest channel thread_id r =
     (let (al, inserted) = add_interest channel thread_id (gr_channel_to_threads r);
          r1 = r\<lparr>gr_channel_to_threads := al\<rparr>
      in if inserted then r1\<lparr>gr_stats := (gr_stats r1)\<lparr>ps_total_channels := ps_total_channels (gr_stats r1) + 1\<rparr>\<rparr> else r1)"

definition remove_channel_interest :: "bytes \<Rightarrow> nat \<Rightarrow> registry \<Rightarrow> registry" where
  "remove_channel_interest channel thread_id r =
     (let (al, removed) = remove_interest channel thread_id (gr_channel_to_threads r);
          r1 = r\<lparr>gr_channel_to_threads := al\<rparr>
      in if removed then r1\<lparr>gr_stats := (gr_stats r1)\<lparr>ps_total_channels := ps_total_channels (gr_stats r1) - 1\<rparr>\<rparr> else r1)"

definition add_pattern_interest :: "bytes \<Rightarrow> nat \<Rightarrow> registry \<Rightarrow> registry" where
  "add_pattern_interest pattern thread_id r =
     (let (al, inserted) = add_interest pattern thread_id (gr_pattern_to_threads r);
          r1 = r\<lparr>gr_pattern_to_threads := al\<rparr>
      in if inserted then r1\<lparr>gr_stats := (gr_stats r1)\<lparr>ps_total_patterns := ps_total_patterns (gr_stats r1) + 1\<rparr>\<rparr> else r1)"

definition remove_pattern_interest :: "bytes \<Rightarrow> nat \<Rightarrow> registry \<Rightarrow> registry" where
  "remove_pattern_interest pattern thread_id r =
     (let (al, removed) = remove_interest pattern thread_id (gr_pattern_to_threads r);
          r1 = r\<lparr>gr_pattern_to_threads := al\<rparr>
      in if removed then r1\<lparr>gr_stats := (gr_stats r1)\<lparr>ps_total_patterns := ps_total_patterns (gr_stats r1) - 1\<rparr>\<rparr> else r1)"

definition get_channel_threads :: "bytes \<Rightarrow> registry \<Rightarrow> nat list" where
  "get_channel_threads channel r = at_key (gr_channel_to_threads r) channel"

definition get_all_pattern_threads :: "registry \<Rightarrow> nat list" where
  "get_all_pattern_threads r = remdups (concat (map snd (gr_pattern_to_threads r)))"

text \<open>\<open>try_send\<close>: a full queue drops the message.\<close>

definition try_send :: "broadcast_msg \<Rightarrow> broadcast_msg list \<Rightarrow> broadcast_msg list" where
  "try_send msg queue = (if length queue < QUEUE_BOUND then queue @ [msg] else queue)"

fun send_to_threads :: "broadcast_msg \<Rightarrow> nat list \<Rightarrow> broadcast_msg list list \<Rightarrow> broadcast_msg list list" where
  "send_to_threads msg [] queues = queues"
| "send_to_threads msg (thread_id # rest) queues =
     send_to_threads msg rest
       (if thread_id < length queues then queues[thread_id := try_send msg (queues ! thread_id)] else queues)"

definition broadcast_to_threads :: "broadcast_msg \<Rightarrow> nat list \<Rightarrow> registry \<Rightarrow> registry" where
  "broadcast_to_threads msg thread_ids r =
     r\<lparr>gr_stats := count_message (gr_stats r), gr_queues := send_to_threads msg thread_ids (gr_queues r)\<rparr>"

definition broadcast_to_all_threads :: "broadcast_msg \<Rightarrow> nat option \<Rightarrow> registry \<Rightarrow> registry" where
  "broadcast_to_all_threads msg exclude r =
     r\<lparr>gr_stats := count_message (gr_stats r),
       gr_queues := send_to_threads msg (filter (\<lambda>i. Some i \<noteq> exclude) [0..<length (gr_queues r)]) (gr_queues r)\<rparr>"

definition get_all_channels :: "registry \<Rightarrow> bytes list" where
  "get_all_channels r = map fst (gr_channel_to_threads r)"

definition get_channel_subscriber_count :: "bytes \<Rightarrow> registry \<Rightarrow> nat" where
  "get_channel_subscriber_count channel r = count_of (gr_channel_subscriber_counts r) channel"

definition increment_channel_subscribers :: "bytes \<Rightarrow> registry \<Rightarrow> registry" where
  "increment_channel_subscribers channel r =
     r\<lparr>gr_channel_subscriber_counts := increment_count channel (gr_channel_subscriber_counts r)\<rparr>"

definition decrement_channel_subscribers :: "bytes \<Rightarrow> registry \<Rightarrow> registry" where
  "decrement_channel_subscribers channel r =
     r\<lparr>gr_channel_subscriber_counts := decrement_count channel (gr_channel_subscriber_counts r)\<rparr>"

definition increment_pattern_subscribers :: "bytes \<Rightarrow> registry \<Rightarrow> registry" where
  "increment_pattern_subscribers pattern r =
     r\<lparr>gr_pattern_subscriber_counts := increment_count pattern (gr_pattern_subscriber_counts r)\<rparr>"

definition decrement_pattern_subscribers :: "bytes \<Rightarrow> registry \<Rightarrow> registry" where
  "decrement_pattern_subscribers pattern r =
     r\<lparr>gr_pattern_subscriber_counts := decrement_count pattern (gr_pattern_subscriber_counts r)\<rparr>"

definition get_pattern_subscriber_count :: "bytes \<Rightarrow> registry \<Rightarrow> nat" where
  "get_pattern_subscriber_count pattern r = count_of (gr_pattern_subscriber_counts r) pattern"

definition get_total_pattern_matches :: "bytes \<Rightarrow> registry \<Rightarrow> nat" where
  "get_total_pattern_matches channel r =
     sum_list (map snd (filter (\<lambda>(pattern, n). registry_glob_match pattern channel) (gr_pattern_subscriber_counts r)))"

definition get_pattern_count :: "registry \<Rightarrow> nat" where
  "get_pattern_count r = length (gr_pattern_to_threads r)"

section \<open>What the tables hold after each operation\<close>

lemma at_update [simp]: "at_key (AList.update k vs al) = (at_key al)(k := vs)"
  by (auto simp: at_key_def update_conv')

lemma at_delete [simp]: "at_key (AList.delete k al) = (at_key al)(k := [])"
  by (auto simp: at_key_def delete_conv')

lemma at_Nil [simp]: "at_key [] k = []" by (simp add: at_key_def)

lemma count_Nil [simp]: "count_of [] k = 0" by (simp add: count_of_def)

lemma count_increment [simp]: "count_of (increment_count k al) = (count_of al)(k := count_of al k + 1)"
  by (auto simp: count_of_def increment_count_def update_conv')

lemma count_decrement [simp]: "count_of (decrement_count k al) = (count_of al)(k := count_of al k - 1)"
  by (auto simp: count_of_def decrement_count_def update_conv' delete_conv' fun_eq_iff Let_def split: option.split)

text \<open>A table is tidy when each key has one entry, no entry is empty and none holds a value twice.\<close>

definition tidy :: "('k \<times> 'v list) list \<Rightarrow> bool" where
  "tidy al \<longleftrightarrow> distinct (map fst al) \<and> (\<forall>k. map_of al k \<noteq> Some []) \<and> (\<forall>k. distinct (at_key al k))"

lemma tidy_Nil [simp]: "tidy []" by (simp add: tidy_def)

lemma tidy_distinct: "tidy al \<Longrightarrow> distinct (at_key al k)" by (simp add: tidy_def)

lemma tidy_update: "tidy al \<Longrightarrow> vs \<noteq> [] \<Longrightarrow> distinct vs \<Longrightarrow> tidy (AList.update k vs al)"
  by (simp add: tidy_def distinct_update update_conv')

lemma tidy_delete: "tidy al \<Longrightarrow> tidy (AList.delete k al)"
  by (simp add: tidy_def distinct_delete delete_conv')

lemma tidy_keys: "tidy al \<Longrightarrow> set (map fst al) = {k. at_key al k \<noteq> []}"
  by (force simp: tidy_def at_key_def dom_map_of_conv_image_fst [symmetric] split: option.splits)

lemma tidy_new: "tidy al \<Longrightarrow> map_of al k = None \<longleftrightarrow> at_key al k = []"
  by (auto simp: tidy_def at_key_def split: option.splits)

lemma add_interest_at [simp]:
  "at_key (fst (add_interest k v al)) = (at_key al)(k := if v \<in> set (at_key al k) then at_key al k else at_key al k @ [v])"
  "snd (add_interest k v al) = (v \<notin> set (at_key al k))"
  by (auto simp: add_interest_def)

lemma add_interest_tidy: "tidy al \<Longrightarrow> tidy (fst (add_interest k v al))"
  by (auto simp: add_interest_def tidy_distinct intro!: tidy_update)

lemma remove_interest_at [simp]:
  "at_key (fst (remove_interest k v al)) = (at_key al)(k := removeAll v (at_key al k))"
  "snd (remove_interest k v al) = (v \<in> set (at_key al k))"
  by (auto simp: remove_interest_def remove_interest_entry_def at_key_def fun_eq_iff update_conv' delete_conv'
      split: option.splits)

lemma tidy_map_of: "tidy al \<Longrightarrow> map_of al k = Some vs \<Longrightarrow> distinct vs"
  using tidy_distinct [of al k] by (simp add: at_key_def)

lemma tidy_delete_update: "tidy al \<Longrightarrow> tidy (AList.delete k (AList.update k vs al))"
  by (auto simp: tidy_def distinct_update distinct_delete update_conv' delete_conv')

lemma remove_interest_tidy: "tidy al \<Longrightarrow> tidy (fst (remove_interest k v al))"
  by (auto simp: remove_interest_def remove_interest_entry_def distinct_removeAll tidy_map_of intro: tidy_update tidy_delete_update split: option.split)

text \<open>
  The removal of an interest is not atomic: if another thread registers its interest after
  the entry was emptied and before it is removed, that interest is lost.
\<close>

lemma interest_lost:
  assumes "at_key al k = [t]" and "u \<noteq> t"
  shows "at_key (AList.delete k (fst (add_interest k u (fst (remove_interest_entry k t al))))) k = []"
    and "at_key (fst (add_interest k u (fst (remove_interest k t al)))) k = [u]"
    and "at_key (fst (remove_interest k t (fst (add_interest k u al)))) k = [u]"
  using assms by auto

end
