(* ===== verification/Pattern_Trie.thy ===== *)
theory Pattern_Trie
  imports Glob "HOL-Library.AList"
begin

text \<open>
  \<open>src/src/pubsub/pattern.rs\<close>: the trie of subscribed patterns of a worker thread. A pattern
  is read token by token (\<open>next_token\<close> is the match on \<open>pattern[i]\<close> that insertion and removal
  share); a node has one child per literal byte, at most one for each of star and question
  mark, and at most one for a character class. \<open>find_in_node\<close> walks the trie along a channel.
  The lemmas describe a trie by the subscribers at each token path.
\<close>

section \<open>The data structure\<close>

datatype trie = Node
  (children: "(char \<times> trie) list")
  (wildcard_child: "trie option")
  (single_char_child: "trie option")
  (char_class_child: "((bytes \<times> bool) \<times> trie) option")
  (subscribers: "(bytes \<times> nat) list")

definition new_node :: trie where
  "new_node = Node [] None None None []"

datatype token = Lit char | AnySeq | AnyChar | CharClass bytes bool

section \<open>Reading a pattern\<close>

definition byte_range :: "char \<Rightarrow> char \<Rightarrow> bytes" where
  "byte_range start end =
     map char_of [((bval start + 1) mod 256)..<bval end + 1]"

fun char_class_loop :: "bytes \<Rightarrow> nat \<Rightarrow> bytes \<Rightarrow> bool \<Rightarrow> (bytes \<times> nat) option" where
  "char_class_loop [] i chars escaped = None"
| "char_class_loop (c # cs) i chars escaped =
     (if escaped then char_class_loop cs (i + 1) (chars @ [c]) False
      else if c = CHR 0x5C then char_class_loop cs (i + 1) chars True
      else if c = CHR '']'' then Some (chars, i + 1)
      else (case cs of
          d # ds \<Rightarrow>
            (if c = CHR ''-'' \<and> chars \<noteq> [] \<and> d \<noteq> CHR '']''
             then char_class_loop ds (i + 2) (chars @ byte_range (last chars) d) False
             else char_class_loop cs (i + 1) (chars @ [c]) False)
        | [] \<Rightarrow> char_class_loop cs (i + 1) (chars @ [c]) False))"

definition parse_char_class :: "bytes \<Rightarrow> (bytes \<times> bool) option \<times> nat" where
  "parse_char_class pattern =
     (if pattern = [] \<or> pattern ! 0 \<noteq> CHR ''['' then (None, 0)
      else (let negated = (1 < length pattern \<and> pattern ! 1 = CHR ''^'');
                i = (if negated then 2 else 1)
            in case char_class_loop (drop i pattern) i [] False of
                 Some (chars, next_i) \<Rightarrow> (Some (chars, negated), next_i)
               | None \<Rightarrow> (None, 0)))"

text \<open>The token at the head of the rest of a pattern, and its length.\<close>

definition next_token :: "bytes \<Rightarrow> token \<times> nat" where
  "next_token p =
     (let c = p ! 0 in
      if c = CHR ''*'' then (AnySeq, 1)
      else if c = CHR ''?'' then (AnyChar, 1)
      else if c = CHR ''['' then
        (case parse_char_class p of
           (Some (chars, negated), next_i) \<Rightarrow> (CharClass chars negated, next_i)
         | (None, _) \<Rightarrow> (Lit c, 1))
      else if c = CHR 0x5C \<and> 1 < length p then (Lit (p ! 1), 2)
      else (Lit c, 1))"

lemma char_class_loop_pos: "char_class_loop p i chars esc = Some (cs, n) \<Longrightarrow> i < n"
  by (induction p i chars esc rule: char_class_loop.induct) (auto split: if_splits list.splits)

lemma next_token_pos: "0 < snd (next_token p)"
  by (auto simp: next_token_def Let_def parse_char_class_def dest: char_class_loop_pos split: option.splits)

lemma next_token_shrinks: "p \<noteq> [] \<Longrightarrow> length (drop (snd (next_token p)) p) < length p"
  using next_token_pos [of p] by (cases p) auto

section \<open>Insertion and removal\<close>

function insert_from :: "bytes \<Rightarrow> nat \<Rightarrow> bytes \<Rightarrow> trie \<Rightarrow> trie" where
  "insert_from pattern conn_id rest (Node cs w s cl subs) =
     (if rest = [] then Node cs w s cl (subs @ [(pattern, conn_id)])
      else (case next_token rest of (tok, n) \<Rightarrow>
        (case tok of
           AnySeq \<Rightarrow> Node cs (Some (insert_from pattern conn_id (drop n rest)
               (case w of None \<Rightarrow> new_node | Some t \<Rightarrow> t))) s cl subs
         | AnyChar \<Rightarrow> Node cs w (Some (insert_from pattern conn_id (drop n rest)
               (case s of None \<Rightarrow> new_node | Some t \<Rightarrow> t))) cl subs
         | CharClass chars negated \<Rightarrow>
             (case cl of
                None \<Rightarrow> Node cs w s (Some ((chars, negated), insert_from pattern conn_id (drop n rest) new_node)) subs
              | Some (old, t) \<Rightarrow> Node cs w s (Some (old, insert_from pattern conn_id (drop n rest) t)) subs)
         | Lit c \<Rightarrow> Node (AList.update c (insert_from pattern conn_id (drop n rest)
               (case map_of cs c of None \<Rightarrow> new_node | Some t \<Rightarrow> t)) cs) w s cl subs)))"
  by pat_completeness auto

termination insert_from
  by (relation "measure (\<lambda>(pattern, conn_id, rest, t). length rest)")
    (auto dest!: next_token_shrinks simp: prod_eq_iff)

definition trie_insert :: "bytes \<Rightarrow> nat \<Rightarrow> trie \<Rightarrow> trie" where
  "trie_insert pattern conn_id t = insert_from pattern conn_id pattern t"

text \<open>Removal returns whether something was removed.\<close>

function remove_from_node :: "bytes \<Rightarrow> bytes \<Rightarrow> nat \<Rightarrow> trie \<Rightarrow> bool \<times> trie" where
  "remove_from_node rest full_pattern conn_id (Node cs w s cl subs) =
     (if rest = []
      then (let subs' = filter (\<lambda>(p, i). \<not> (p = full_pattern \<and> i = conn_id)) subs
            in (length subs' < length subs, Node cs w s cl subs'))
      else (case next_token rest of (tok, n) \<Rightarrow>
        (case tok of
           AnySeq \<Rightarrow> (case w of
               Some t \<Rightarrow> (case remove_from_node (drop n rest) full_pattern conn_id t of
                  (b, t') \<Rightarrow> (b, Node cs (Some t') s cl subs))
             | None \<Rightarrow> (False, Node cs w s cl subs))
         | AnyChar \<Rightarrow> (case s of
               Some t \<Rightarrow> (case remove_from_node (drop n rest) full_pattern conn_id t of
                  (b, t') \<Rightarrow> (b, Node cs w (Some t') cl subs))
             | None \<Rightarrow> (False, Node cs w s cl subs))
         | CharClass chars negated \<Rightarrow> (case cl of
               Some (old, t) \<Rightarrow> (case remove_from_node (drop n rest) full_pattern conn_id t of
                  (b, t') \<Rightarrow> (b, Node cs w s (Some (old, t')) subs))
             | None \<Rightarrow> (False, Node cs w s cl subs))
         | Lit c \<Rightarrow> (case map_of cs c of
               Some t \<Rightarrow> (case remove_from_node (drop n rest) full_pattern conn_id t of
                  (b, t') \<Rightarrow> (b, Node (AList.update c t' cs) w s cl subs))
             | None \<Rightarrow> (False, Node cs w s cl subs)))))"
  by pat_completeness auto

termination remove_from_node
  by (relation "measure (\<lambda>(rest, full_pattern, conn_id, t). length rest)")
    (auto dest!: next_token_shrinks simp: prod_eq_iff)

definition trie_remove :: "bytes \<Rightarrow> nat \<Rightarrow> trie \<Rightarrow> bool \<times> trie" where
  "trie_remove pattern conn_id t = remove_from_node pattern pattern conn_id t"

section \<open>Search\<close>

definition matches_char_class :: "char \<Rightarrow> bytes \<Rightarrow> bool \<Rightarrow> bool" where
  "matches_char_class c chars negated = (if negated then c \<notin> set chars else c \<in> set chars)"

fun suffixes_of :: "bytes \<Rightarrow> bytes list" where
  "suffixes_of [] = [[]]"
| "suffixes_of (c # cs) = (c # cs) # suffixes_of cs"

lemma size_child: "map_of cs c = Some t \<Longrightarrow> size t < Suc (size_list (size_prod (\<lambda>_. 0) size) cs)"
  by (induction cs) (auto split: if_splits)

function find_in_node :: "trie \<Rightarrow> bytes \<Rightarrow> (bytes \<times> nat) list" where
  "find_in_node (Node cs w s cl subs) channel =
     (case channel of
        [] \<Rightarrow> subs @ (case w of Some t \<Rightarrow> subscribers t | None \<Rightarrow> [])
      | c # rest \<Rightarrow>
          (case map_of cs c of Some t \<Rightarrow> find_in_node t rest | None \<Rightarrow> []) @
          (case s of Some t \<Rightarrow> find_in_node t rest | None \<Rightarrow> []) @
          (case cl of
             Some ((chars, negated), t) \<Rightarrow>
               if matches_char_class c chars negated then find_in_node t rest else []
           | None \<Rightarrow> []) @
          (case w of Some t \<Rightarrow> concat (map (find_in_node t) (suffixes_of channel)) | None \<Rightarrow> []))"
  by pat_completeness auto

termination find_in_node
  by (relation "measure (\<lambda>(t, channel). size t)") (auto dest: size_child)

definition find_matches :: "trie \<Rightarrow> bytes \<Rightarrow> (bytes \<times> nat) list" where
  "find_matches t channel = find_in_node t channel"

section \<open>All patterns\<close>

definition clear_trie :: "trie \<Rightarrow> trie" where
  "clear_trie t = new_node"

text \<open>The patterns of a node and below; a child table has one entry per byte.\<close>

lemma size_child_member: "(c, t) \<in> set cs \<Longrightarrow> size t < Suc (size_list (size_prod (\<lambda>_. 0) size) cs)"
  by (induction cs) auto

function collect_patterns :: "trie \<Rightarrow> bytes list" where
  "collect_patterns (Node cs w s cl subs) =
     map fst subs @ concat (map (\<lambda>(c, t). collect_patterns t) cs) @
     (case w of Some t \<Rightarrow> collect_patterns t | None \<Rightarrow> []) @
     (case s of Some t \<Rightarrow> collect_patterns t | None \<Rightarrow> []) @
     (case cl of Some (_, t) \<Rightarrow> collect_patterns t | None \<Rightarrow> [])"
  by pat_completeness auto

termination collect_patterns
  by (relation "measure size") (auto dest: size_child_member)

definition get_all_patterns :: "trie \<Rightarrow> bytes list" where
  "get_all_patterns t = remdups (collect_patterns t)"

lemma subscribers_collected: "(p, conn) \<in> set (subscribers t) \<Longrightarrow> p \<in> set (collect_patterns t)"
  by (cases t) (auto simp: image_iff intro: bexI [of _ "(p, conn)"])

text \<open>What a search finds is among them.\<close>

lemma find_in_node_collected: "(p, conn) \<in> set (find_in_node t channel) \<Longrightarrow> p \<in> set (collect_patterns t)"
proof (induction t channel rule: find_in_node.induct)
  case (1 cs w s cl subs channel)
  show ?case
  proof (cases channel)
    case Nil
    with "1.prems" consider "(p, conn) \<in> set subs" | t where "w = Some t" "(p, conn) \<in> set (subscribers t)"
      by (auto split: option.splits)
    then show ?thesis
    proof cases
      case 1
      then have "p \<in> fst ` set subs" by (metis fst_conv image_eqI)
      then show ?thesis by simp
    qed (use subscribers_collected in simp)
  next
    case (Cons c rest)
    have wild: "p \<in> set (collect_patterns t)" if "w = Some t" "ch \<in> set (suffixes_of channel)" "(p, conn) \<in> set (find_in_node t ch)" for t ch
      using that "1.IH"(4) [OF Cons] by simp
    have "(\<exists>t. map_of cs c = Some t \<and> (p, conn) \<in> set (find_in_node t rest)) \<or>
        (\<exists>t. s = Some t \<and> (p, conn) \<in> set (find_in_node t rest)) \<or>
        (\<exists>chars negated t. cl = Some ((chars, negated), t) \<and> matches_char_class c chars negated \<and>
           (p, conn) \<in> set (find_in_node t rest)) \<or>
        (\<exists>t ch. w = Some t \<and> ch \<in> set (suffixes_of channel) \<and> (p, conn) \<in> set (find_in_node t ch))"
      using "1.prems" Cons by (cases "map_of cs c"; cases s; cases cl; cases w) (auto split: if_splits)
    then consider t where "map_of cs c = Some t" "(p, conn) \<in> set (find_in_node t rest)"
      | t where "s = Some t" "(p, conn) \<in> set (find_in_node t rest)"
      | chars negated t where "cl = Some ((chars, negated), t)" "matches_char_class c chars negated" "(p, conn) \<in> set (find_in_node t rest)"
      | t ch where "w = Some t" "ch \<in> set (suffixes_of channel)" "(p, conn) \<in> set (find_in_node t ch)"
      by blast
    then show ?thesis
    proof cases
      case 1
      with "1.IH"(1) [OF Cons] have "p \<in> set (collect_patterns t)" by simp
      moreover have "(c, t) \<in> set cs" using 1(1) by (rule map_of_SomeD)
      ultimately show ?thesis by force
    qed (use "1.IH"(2,3) [OF Cons] wild in auto)
  qed
qed

end
