(* ===== verification/Pubsub_Manager.thy ===== *)
theory Pubsub_Manager
  imports Pubsub_Registry Pattern_Trie
begin

text \<open>
  \<open>src/src/pubsub/manager.rs\<close>: the subscriptions of the connections of one worker thread, kept
  by channel, by pattern, in the pattern trie and by connection. Every operation takes and
  returns the manager and the global registry.
\<close>

section \<open>State\<close>

record manager =
  pm_thread_id :: nat
  pm_exact_subs :: "(bytes \<times> nat list) list"
  pm_pattern_trie :: trie
  pm_pattern_subs :: "(bytes \<times> nat list) list"
  pm_connection_channels :: "(nat \<times> bytes list) list"
  pm_connection_patterns :: "(nat \<times> bytes list) list"

definition new_manager :: "nat \<Rightarrow> manager" where
  "new_manager thread_id = \<lparr>pm_thread_id = thread_id, pm_exact_subs = [], pm_pattern_trie = new_node,
     pm_pattern_subs = [], pm_connection_channels = [], pm_connection_patterns = []\<rparr>"

definition get_connection_subscription_count :: "nat \<Rightarrow> manager \<Rightarrow> nat" where
  "get_connection_subscription_count conn_id m =
     length (at_key (pm_connection_channels m) conn_id) + length (at_key (pm_connection_patterns m) conn_id)"

definition is_connection_subscribed :: "nat \<Rightarrow> manager \<Rightarrow> bool" where
  "is_connection_subscribed conn_id m \<longleftrightarrow>
     map_of (pm_connection_channels m) conn_id \<noteq> None \<or> map_of (pm_connection_patterns m) conn_id \<noteq> None"

text \<open>\<open>entry(k).or_default().push(v)\<close>, and \<open>retain\<close> on an entry that may be missing.\<close>

definition push_to :: "'k \<Rightarrow> 'v \<Rightarrow> ('k \<times> 'v list) list \<Rightarrow> ('k \<times> 'v list) list" where
  "push_to k v al = AList.update k (at_key al k @ [v]) al"

definition retain_not :: "'k \<Rightarrow> 'v \<Rightarrow> ('k \<times> 'v list) list \<Rightarrow> ('k \<times> 'v list) list" where
  "retain_not k v al = (case map_of al k of None \<Rightarrow> al | Some vs \<Rightarrow> AList.update k (filter (\<lambda>x. x \<noteq> v) vs) al)"

section \<open>Channels\<close>

definition subscribe_one :: "nat \<Rightarrow> bytes \<Rightarrow> manager \<Rightarrow> registry \<Rightarrow> pubsub_message \<times> manager \<times> registry" where
  "subscribe_one conn_id channel m r =
     (let is_new_channel = (map_of (pm_exact_subs m) channel = None);
          already_subscribed = (conn_id \<in> set (at_key (pm_exact_subs m) channel));
          (m1, r1) =
            (if \<not> already_subscribed
             then (m\<lparr>pm_exact_subs := push_to channel conn_id (pm_exact_subs m),
                     pm_connection_channels := push_to conn_id channel (pm_connection_channels m)\<rparr>,
                   increment_channel_subscribers channel r)
             else (m, r));
          r2 = (if is_new_channel then add_channel_interest channel (pm_thread_id m1) r1 else r1)
      in (PSubscribed channel (get_connection_subscription_count conn_id m1), m1, r2))"

fun subscribe :: "nat \<Rightarrow> bytes list \<Rightarrow> manager \<Rightarrow> registry \<Rightarrow> pubsub_message list \<times> manager \<times> registry" where
  "subscribe conn_id [] m r = ([], m, r)"
| "subscribe conn_id (channel # channels) m r =
     (let (msg, m1, r1) = subscribe_one conn_id channel m r;
          (msgs, m2, r2) = subscribe conn_id channels m1 r1
      in (msg # msgs, m2, r2))"

text \<open>
  Taking a connection off the subscribers of a channel, and the entry off the table when it
  was the last; the third result is \<open>should_remove_interest\<close>.
\<close>

definition drop_channel_subscriber :: "nat \<Rightarrow> bytes \<Rightarrow> manager \<Rightarrow> registry \<Rightarrow> manager \<times> registry \<times> bool" where
  "drop_channel_subscriber conn_id channel m r = (case map_of (pm_exact_subs m) channel of
     None \<Rightarrow> (m, r, False)
   | Some subs \<Rightarrow>
       (let was_subscribed = (conn_id \<in> set subs);
            subs1 = filter (\<lambda>x. x \<noteq> conn_id) subs;
            r1 = (if was_subscribed then decrement_channel_subscribers channel r else r)
        in if subs1 = [] then (m\<lparr>pm_exact_subs := AList.delete channel (pm_exact_subs m)\<rparr>, r1, True)
           else (m\<lparr>pm_exact_subs := AList.update channel subs1 (pm_exact_subs m)\<rparr>, r1, False)))"

definition unsubscribe_one :: "nat \<Rightarrow> bytes \<Rightarrow> manager \<Rightarrow> registry \<Rightarrow> pubsub_message \<times> manager \<times> registry" where
  "unsubscribe_one conn_id channel m r =
     (let (m1, r1, should_remove_interest) = drop_channel_subscriber conn_id channel m r;
          m2 = m1\<lparr>pm_connection_channels := retain_not conn_id channel (pm_connection_channels m1)\<rparr>;
          r2 = (if should_remove_interest then remove_channel_interest channel (pm_thread_id m2) r1 else r1)
      in (PUnsubscribed (Some channel) (get_connection_subscription_count conn_id m2), m2, r2))"

fun unsubscribe_listed :: "nat \<Rightarrow> bytes list \<Rightarrow> manager \<Rightarrow> registry \<Rightarrow> pubsub_message list \<times> manager \<times> registry" where
  "unsubscribe_listed conn_id [] m r = ([], m, r)"
| "unsubscribe_listed conn_id (channel # channels) m r =
     (let (msg, m1, r1) = unsubscribe_one conn_id channel m r;
          (msgs, m2, r2) = unsubscribe_listed conn_id channels m1 r1
      in (msg # msgs, m2, r2))"

text \<open>The loop over the channels of a connection whose entry has been removed.\<close>

fun unsubscribe_removed :: "nat \<Rightarrow> bytes list \<Rightarrow> manager \<Rightarrow> registry \<Rightarrow> pubsub_message list \<times> manager \<times> registry" where
  "unsubscribe_removed conn_id [] m r = ([], m, r)"
| "unsubscribe_removed conn_id (channel # channels) m r =
     (let (m1, r1, last_one) = drop_channel_subscriber conn_id channel m r;
          r2 = (if last_one then remove_channel_interest channel (pm_thread_id m1) r1 else r1);
          msg = PUnsubscribed (Some channel) (get_connection_subscription_count conn_id m1);
          (msgs, m2, r3) = unsubscribe_removed conn_id channels m1 r2
      in (msg # msgs, m2, r3))"

definition unsubscribe :: "nat \<Rightarrow> bytes list option \<Rightarrow> manager \<Rightarrow> registry \<Rightarrow> pubsub_message list \<times> manager \<times> registry" where
  "unsubscribe conn_id channels m r = (case channels of
     Some channels \<Rightarrow> unsubscribe_listed conn_id channels m r
   | None \<Rightarrow> (case map_of (pm_connection_channels m) conn_id of
       None \<Rightarrow> ([], m, r)
     | Some conn_channels \<Rightarrow> unsubscribe_removed conn_id conn_channels
         (m\<lparr>pm_connection_channels := AList.delete conn_id (pm_connection_channels m)\<rparr>) r))"

section \<open>Patterns\<close>

definition psubscribe_one :: "nat \<Rightarrow> bytes \<Rightarrow> manager \<Rightarrow> registry \<Rightarrow> pubsub_message \<times> manager \<times> registry" where
  "psubscribe_one conn_id pattern m r =
     (let is_new_pattern = (map_of (pm_pattern_subs m) pattern = None);
          already_subscribed = (conn_id \<in> set (at_key (pm_pattern_subs m) pattern));
          (m1, r1) =
            (if \<not> already_subscribed
             then (m\<lparr>pm_pattern_trie := trie_insert pattern conn_id (pm_pattern_trie m),
                     pm_pattern_subs := push_to pattern conn_id (pm_pattern_subs m),
                     pm_connection_patterns := push_to conn_id pattern (pm_connection_patterns m)\<rparr>,
                   increment_pattern_subscribers pattern r)
             else (m, r));
          r2 = (if is_new_pattern then add_pattern_interest pattern (pm_thread_id m1) r1 else r1)
      in (PPSubscribed pattern (get_connection_subscription_count conn_id m1), m1, r2))"

fun psubscribe :: "nat \<Rightarrow> bytes list \<Rightarrow> manager \<Rightarrow> registry \<Rightarrow> pubsub_message list \<times> manager \<times> registry" where
  "psubscribe conn_id [] m r = ([], m, r)"
| "psubscribe conn_id (pattern # patterns) m r =
     (let (msg, m1, r1) = psubscribe_one conn_id pattern m r;
          (msgs, m2, r2) = psubscribe conn_id patterns m1 r1
      in (msg # msgs, m2, r2))"

definition drop_pattern_subscriber :: "nat \<Rightarrow> bytes \<Rightarrow> manager \<Rightarrow> registry \<Rightarrow> manager \<times> registry \<times> bool" where
  "drop_pattern_subscriber conn_id pattern m r = (case map_of (pm_pattern_subs m) pattern of
     None \<Rightarrow> (m, r, False)
   | Some subs \<Rightarrow>
       (let was_subscribed = (conn_id \<in> set subs);
            subs1 = filter (\<lambda>x. x \<noteq> conn_id) subs;
            r1 = (if was_subscribed then decrement_pattern_subscribers pattern r else r)
        in if subs1 = [] then (m\<lparr>pm_pattern_subs := AList.delete pattern (pm_pattern_subs m)\<rparr>, r1, True)
           else (m\<lparr>pm_pattern_subs := AList.update pattern subs1 (pm_pattern_subs m)\<rparr>, r1, False)))"

definition trie_without :: "bytes \<Rightarrow> nat \<Rightarrow> manager \<Rightarrow> manager" where
  "trie_without pattern conn_id m =
     m\<lparr>pm_pattern_trie := snd (trie_remove pattern conn_id (pm_pattern_trie m))\<rparr>"

definition punsubscribe_one :: "nat \<Rightarrow> bytes \<Rightarrow> manager \<Rightarrow> registry \<Rightarrow> pubsub_message \<times> manager \<times> registry" where
  "punsubscribe_one conn_id pattern m r =
     (let (m1, r1, should_remove_interest) = drop_pattern_subscriber conn_id pattern (trie_without pattern conn_id m) r;
          m2 = m1\<lparr>pm_connection_patterns := retain_not conn_id pattern (pm_connection_patterns m1)\<rparr>;
          r2 = (if should_remove_interest then remove_pattern_interest pattern (pm_thread_id m2) r1 else r1)
      in (PPUnsubscribed (Some pattern) (get_connection_subscription_count conn_id m2), m2, r2))"

fun punsubscribe_listed :: "nat \<Rightarrow> bytes list \<Rightarrow> manager \<Rightarrow> registry \<Rightarrow> pubsub_message list \<times> manager \<times> registry" where
  "punsubscribe_listed conn_id [] m r = ([], m, r)"
| "punsubscribe_listed conn_id (pattern # patterns) m r =
     (let (msg, m1, r1) = punsubscribe_one conn_id pattern m r;
          (msgs, m2, r2) = punsubscribe_listed conn_id patterns m1 r1
      in (msg # msgs, m2, r2))"

fun punsubscribe_removed :: "nat \<Rightarrow> bytes list \<Rightarrow> manager \<Rightarrow> registry \<Rightarrow> pubsub_message list \<times> manager \<times> registry" where
  "punsubscribe_removed conn_id [] m r = ([], m, r)"
| "punsubscribe_removed conn_id (pattern # patterns) m r =
     (let (m1, r1, last_one) = drop_pattern_subscriber conn_id pattern (trie_without pattern conn_id m) r;
          r2 = (if last_one then remove_pattern_interest pattern (pm_thread_id m1) r1 else r1);
          msg = PPUnsubscribed (Some pattern) (get_connection_subscription_count conn_id m1);
          (msgs, m2, r3) = punsubscribe_removed conn_id patterns m1 r2
      in (msg # msgs, m2, r3))"

definition punsubscribe :: "nat \<Rightarrow> bytes list option \<Rightarrow> manager \<Rightarrow> registry \<Rightarrow> pubsub_message list \<times> manager \<times> registry" where
  "punsubscribe conn_id patterns m r = (case patterns of
     Some patterns \<Rightarrow> punsubscribe_listed conn_id patterns m r
   | None \<Rightarrow> (case map_of (pm_connection_patterns m) conn_id of
       None \<Rightarrow> ([], m, r)
     | Some conn_patterns \<Rightarrow> punsubscribe_removed conn_id conn_patterns
         (m\<lparr>pm_connection_patterns := AList.delete conn_id (pm_connection_patterns m)\<rparr>) r))"

definition connection_dropped :: "nat \<Rightarrow> manager \<Rightarrow> registry \<Rightarrow> manager \<times> registry" where
  "connection_dropped conn_id m r =
     (let (_, m1, r1) = unsubscribe conn_id None m r; (_, m2, r2) = punsubscribe conn_id None m1 r1 in (m2, r2))"

section \<open>Publishing\<close>

definition pattern_deliveries :: "bytes \<Rightarrow> bytes \<Rightarrow> manager \<Rightarrow> (nat \<times> pubsub_message) list" where
  "pattern_deliveries channel message m =
     map (\<lambda>(pattern, conn_id). (conn_id, PPatternMessage pattern channel message))
       (find_matches (pm_pattern_trie m) channel)"

definition publish_local :: "bytes \<Rightarrow> bytes \<Rightarrow> manager \<Rightarrow> (nat \<times> pubsub_message) list" where
  "publish_local channel message m =
     map (\<lambda>conn_id. (conn_id, PMessage channel message)) (at_key (pm_exact_subs m) channel) @
     pattern_deliveries channel message m"

definition deliver_broadcast :: "manager \<Rightarrow> broadcast_msg \<Rightarrow> (nat \<times> pubsub_message) list" where
  "deliver_broadcast m msg = (case msg of
     BPublish channel message exclude \<Rightarrow>
       if Some (pm_thread_id m) \<noteq> exclude then publish_local channel message m else []
   | BPatternPublish channel message exclude \<Rightarrow>
       if Some (pm_thread_id m) \<noteq> exclude then pattern_deliveries channel message m else [])"

text \<open>The loop over the inbox ends when the queue of the thread is empty.\<close>

definition process_inbox :: "manager \<Rightarrow> registry \<Rightarrow> (nat \<times> pubsub_message) list \<times> registry" where
  "process_inbox m r =
     (concat (map (deliver_broadcast m) (gr_queues r ! pm_thread_id m)),
      r\<lparr>gr_queues := (gr_queues r)[pm_thread_id m := []]\<rparr>)"

definition get_subscribed_channels :: "manager \<Rightarrow> bytes list" where
  "get_subscribed_channels m = map fst (pm_exact_subs m)"

definition get_subscribed_patterns :: "manager \<Rightarrow> bytes list" where
  "get_subscribed_patterns m = map fst (pm_pattern_subs m)"

end
