(* ===== verification/Pubsub_Handler.thy ===== *)
theory Pubsub_Handler
  imports Pubsub_Manager Connection
begin

text \<open>
  \<open>src/src/pubsub/handler.rs\<close>: what a worker does with a pub/sub operation of one of its
  connections. The result is the deliveries to connections of the same worker, the new
  manager, registry and connection.
\<close>

text \<open>The subscription count that a message carries, for the four kinds of replies.\<close>

definition subscribe_count :: "pubsub_message \<Rightarrow> nat option" where
  "subscribe_count msg = (case msg of PSubscribed _ n \<Rightarrow> Some n | _ \<Rightarrow> None)"

definition unsubscribe_count :: "pubsub_message \<Rightarrow> nat option" where
  "unsubscribe_count msg = (case msg of PUnsubscribed _ n \<Rightarrow> Some n | _ \<Rightarrow> None)"

definition psubscribe_count :: "pubsub_message \<Rightarrow> nat option" where
  "psubscribe_count msg = (case msg of PPSubscribed _ n \<Rightarrow> Some n | _ \<Rightarrow> None)"

definition punsubscribe_count :: "pubsub_message \<Rightarrow> nat option" where
  "punsubscribe_count msg = (case msg of PPUnsubscribed _ n \<Rightarrow> Some n | _ \<Rightarrow> None)"

fun queue_replies :: "(pubsub_message \<Rightarrow> nat option) \<Rightarrow> pubsub_message list \<Rightarrow> connection \<Rightarrow> connection" where
  "queue_replies message_count [] conn = conn"
| "queue_replies message_count (msg # msgs) conn =
     (let conn1 = (case message_count msg of Some n \<Rightarrow> set_subscription_count n conn | None \<Rightarrow> conn)
      in queue_replies message_count msgs (queue_pubsub_message msg conn1))"

definition publish ::
  "manager \<Rightarrow> registry \<Rightarrow> bytes \<Rightarrow> bytes \<Rightarrow> nat \<Rightarrow> (nat \<times> pubsub_message) list \<times> registry \<times> nat" where
  "publish m r channel message thread_id =
     (let local_deliveries = publish_local channel message m;
          channel_threads = get_channel_threads channel r;
          pattern_threads = get_all_pattern_threads r;
          r1 = broadcast_to_threads (BPublish channel message (Some thread_id)) channel_threads r;
          r2 = broadcast_to_threads (BPatternPublish channel message (Some thread_id)) pattern_threads r1
      in (local_deliveries, r2, get_channel_subscriber_count channel r2 + get_total_pattern_matches channel r2))"

definition channels_reply :: "bytes option \<Rightarrow> registry \<Rightarrow> resp_value" where
  "channels_reply pattern r =
     Array (Some (map bulk (case pattern of
       Some pat \<Rightarrow> filter (\<lambda>ch. registry_glob_match pat ch) (get_all_channels r)
     | None \<Rightarrow> get_all_channels r)))"

definition numsub_reply :: "bytes list \<Rightarrow> registry \<Rightarrow> resp_value" where
  "numsub_reply channels r =
     Array (Some (concat (map (\<lambda>ch. [bulk ch, Integer (word_of_nat (get_channel_subscriber_count ch r))]) channels)))"

definition handle_pubsub_operation ::
  "manager \<Rightarrow> registry \<Rightarrow> nat \<Rightarrow> pubsub_op \<Rightarrow> connection \<Rightarrow> nat \<Rightarrow>
     (nat \<times> pubsub_message) list \<times> manager \<times> registry \<times> connection" where
  "handle_pubsub_operation m r conn_id pubsub_op conn thread_id = (case pubsub_op of
     OpSubscribe channels \<Rightarrow> (case subscribe conn_id channels m r of
       (msgs, m1, r1) \<Rightarrow> ([], m1, r1, queue_replies subscribe_count msgs conn))
   | OpUnsubscribe channels \<Rightarrow> (case unsubscribe conn_id channels m r of
       (msgs, m1, r1) \<Rightarrow> ([], m1, r1, queue_replies unsubscribe_count msgs conn))
   | OpPSubscribe patterns \<Rightarrow> (case psubscribe conn_id patterns m r of
       (msgs, m1, r1) \<Rightarrow> ([], m1, r1, queue_replies psubscribe_count msgs conn))
   | OpPUnsubscribe patterns \<Rightarrow> (case punsubscribe conn_id patterns m r of
       (msgs, m1, r1) \<Rightarrow> ([], m1, r1, queue_replies punsubscribe_count msgs conn))
   | OpPublish channel message \<Rightarrow> (case publish m r channel message thread_id of
       (deliveries, r1, total_count) \<Rightarrow> (deliveries, m, r1, reply (Integer (word_of_nat total_count)) conn))
   | OpChannels pattern \<Rightarrow> ([], m, r, reply (channels_reply pattern r) conn)
   | OpNumSub channels \<Rightarrow> ([], m, r, reply (numsub_reply channels r) conn)
   | OpNumPat \<Rightarrow> ([], m, r, reply (Integer (word_of_nat (get_pattern_count r))) conn))"

text \<open>The operations of one read, in order; the deliveries are collected.\<close>

fun handle_operations ::
  "manager \<Rightarrow> registry \<Rightarrow> pubsub_op list \<Rightarrow> connection \<Rightarrow> nat \<Rightarrow>
     (nat \<times> pubsub_message) list \<times> manager \<times> registry \<times> connection" where
  "handle_operations m r [] conn thread_id = ([], m, r, conn)"
| "handle_operations m r (q # qs) conn thread_id =
     (let (ds, m1, r1, conn1) = handle_pubsub_operation m r (cn_connection_id conn) q conn thread_id;
          (ds1, m2, r2, conn2) = handle_operations m1 r1 qs conn1 thread_id
      in (ds @ ds1, m2, r2, conn2))"

end
