(* ===== verification/Server.thy ===== *)
theory Server
  imports Pubsub_Handler
begin

text \<open>
  \<open>src/src/server.rs\<close>: the event handlers of a worker thread over its connections, its pub/sub
  manager and what all workers share. What the operating system does is an input of each
  handler: the results of the calls to \<open>read\<close> and \<open>write\<close> on a socket. Each handler runs to
  its end before another one of any worker starts.
\<close>

section \<open>State\<close>

text \<open>A socket: the bytes it has accepted, and whether it is registered for WRITABLE events.\<close>

record socket =
  sk_sent :: bytes
  sk_writable :: bool

record worker =
  wk_thread_id :: nat
  wk_connections :: "(nat \<times> socket \<times> connection) list"
  wk_next_token :: nat
  wk_manager :: manager

record 's shared =
  sh_world :: "'s world"
  sh_registry :: registry
  sh_active_connections :: u64
  sh_connection_id :: nat

definition new_worker :: "nat \<Rightarrow> worker" where
  "new_worker thread_id = \<lparr>wk_thread_id = thread_id, wk_connections = [], wk_next_token = 1,
     wk_manager = new_manager thread_id\<rparr>"

text \<open>The state in which \<open>run\<close> starts the workers, on the store that \<open>Server::new\<close> has built.\<close>

definition new_shared :: "env \<Rightarrow> config \<Rightarrow> 's \<Rightarrow> 's shared" where
  "new_shared env config s = \<lparr>
     sh_world = \<lparr>wd_store = s, wd_watch = new_watch, wd_tracker = new_tracker (env_now env), wd_clients = new_client_registry\<rparr>,
     sh_registry = new_global_registry (cfg_threads config), sh_active_connections = 0, sh_connection_id = 0\<rparr>"

definition start_workers :: "config \<Rightarrow> worker list" where
  "start_workers config = map new_worker [0..<cfg_threads config]"

text \<open>
  \<open>Server::new\<close>: an invalid configuration is refused. Building the store is the database's;
  what it is asked to build are the path, the memory limit, the use of TTL and the file size.
\<close>

definition store_settings :: "config \<Rightarrow> bytes option \<times> nat \<times> bool \<times> nat option" where
  "store_settings config =
     (cfg_data_path config,
      (case cfg_max_memory_per_shard config of Some n \<Rightarrow> n | None \<Rightarrow> 1024 * 1024 * 1024),
      cfg_enable_ttl config,
      if cfg_data_path config = None then None else cfg_file_size config)"

definition new_server ::
  "(bytes option \<times> nat \<times> bool \<times> nat option \<Rightarrow> feox_error + 's) \<Rightarrow> env \<Rightarrow> config \<Rightarrow> server_error + 's shared" where
  "new_server build env config = (case validate config of
     Inl e \<Rightarrow> Inl (Other e)
   | Inr _ \<Rightarrow> (case build (store_settings config) of
       Inl e \<Rightarrow> Inl (Database e)
     | Inr s \<Rightarrow> Inr (new_shared env config s)))"

section \<open>Sockets\<close>

datatype write_result = Wrote nat | WriteBlocked | WriteFailed

datatype read_result = ReadEof | ReadData bytes | ReadBlocked | ReadFailed

text \<open>
  The loop that writes what is pending. The list holds the results of the calls to \<open>write\<close>;
  the loop makes no call more than the list is long. A call accepts some of the bytes it is
  given, so the number of a result is cut to theirs. The first component of the result tells
  whether a write failed.
\<close>

fun write_pending :: "write_result list \<Rightarrow> socket \<Rightarrow> connection \<Rightarrow> bool \<times> socket \<times> connection" where
  "write_pending [] sk conn = (False, sk, conn)"
| "write_pending (result # results) sk conn = (case pending_writes conn of
     None \<Rightarrow> (False, sk, conn)
   | Some data \<Rightarrow> (case result of
       Wrote k \<Rightarrow>
         (let n = min k (length data); sk1 = sk\<lparr>sk_sent := sk_sent sk @ take n data\<rparr>; conn1 = consume_writes n conn
          in if n < length data then (False, sk1, conn1) else write_pending results sk1 conn1)
     | WriteBlocked \<Rightarrow> (False, sk, conn)
     | WriteFailed \<Rightarrow> (True, sk, conn)))"

section \<open>Deliveries\<close>

fun deliver_message ::
  "nat \<Rightarrow> pubsub_message \<Rightarrow> write_result list \<Rightarrow> (nat \<times> socket \<times> connection) list \<Rightarrow> (nat \<times> socket \<times> connection) list" where
  "deliver_message conn_id msg results [] = []"
| "deliver_message conn_id msg results ((token, sk, conn) # rest) =
     (if cn_connection_id conn = conn_id
      then (token, snd (write_pending results sk (process_pubsub_messages (queue_pubsub_message msg conn)))) # rest
      else (token, sk, conn) # deliver_message conn_id msg results rest)"

fun deliver_messages ::
  "(nat \<times> pubsub_message) list \<Rightarrow> write_result list list \<Rightarrow> (nat \<times> socket \<times> connection) list \<Rightarrow>
     (nat \<times> socket \<times> connection) list" where
  "deliver_messages [] results conns = conns"
| "deliver_messages ((conn_id, msg) # ds) [] conns = deliver_messages ds [] (deliver_message conn_id msg [] conns)"
| "deliver_messages ((conn_id, msg) # ds) (ws # results) conns =
     deliver_messages ds results (deliver_message conn_id msg ws conns)"

text \<open>The first part of the event loop: the messages that other workers have sent.\<close>

definition inbox_step :: "write_result list list \<Rightarrow> worker \<Rightarrow> 's shared \<Rightarrow> worker \<times> 's shared" where
  "inbox_step results wk sh = (case process_inbox (wk_manager wk) (sh_registry sh) of
     (ds, r) \<Rightarrow> (wk\<lparr>wk_connections := deliver_messages ds results (wk_connections wk)\<rparr>, sh\<lparr>sh_registry := r\<rparr>))"

section \<open>New connections\<close>

definition info_of :: "connection \<Rightarrow> nat \<Rightarrow> client_info" where
  "info_of conn thread_id = \<lparr>ci_id = cn_connection_id conn, ci_name = cn_client_name conn,
     ci_addr = cn_client_addr conn, ci_fd = cn_fd conn, ci_connected_at = cn_connected_at conn,
     ci_commands_processed = cn_commands_processed conn, ci_flags = cn_flags conn,
     ci_thread_id = thread_id, ci_db = 0\<rparr>"

definition accept_connection :: "env \<Rightarrow> config \<Rightarrow> bytes \<Rightarrow> worker \<Rightarrow> 's shared \<Rightarrow> worker \<times> 's shared" where
  "accept_connection env config addr wk sh =
     (let token = wk_next_token wk;
          conn = set_client_registry (new_with_addr 0 env config (Some addr) (sh_connection_id sh));
          w = sh_world sh
      in (wk\<lparr>wk_next_token := token + 1,
            wk_connections := AList.update token (\<lparr>sk_sent = [], sk_writable = False\<rparr>, conn) (wk_connections wk)\<rparr>,
          sh\<lparr>sh_connection_id := sh_connection_id sh + 1,
            sh_world := w\<lparr>wd_clients := register_client (info_of conn (wk_thread_id wk)) (wd_clients w)\<rparr>,
            sh_active_connections := sh_active_connections sh + 1\<rparr>))"

section \<open>Events of a connection\<close>

text \<open>
  Handling a readable event may never return, or end the thread with a panic; what the thread
  has done until then stays in the state that it shares.
\<close>

datatype 'a run = Hangs | Panics 'a | Returns 'a

definition handle_writable :: "write_result list \<Rightarrow> socket \<Rightarrow> connection \<Rightarrow> bool \<times> socket \<times> connection" where
  "handle_writable results sk conn = (case write_pending results sk conn of
     (failed, sk1, conn1) \<Rightarrow>
       (failed, if pending_writes conn1 = None then sk1\<lparr>sk_writable := False\<rparr> else sk1, conn1))"

text \<open>What is done with the operations of a read: replies, registry, and the writing of the replies.\<close>

definition finish_read ::
  "nat \<Rightarrow> pubsub_op list \<Rightarrow> write_result list \<Rightarrow> socket \<Rightarrow> connection \<Rightarrow> manager \<Rightarrow> 's shared \<Rightarrow>
     (nat \<times> pubsub_message) list \<times> bool \<times> socket \<times> connection \<times> manager \<times> 's shared" where
  "finish_read thread_id ops results sk conn m sh =
     (let (ds, m1, r1, conn1) = handle_operations m (sh_registry sh) ops conn thread_id;
          conn2 = process_pubsub_messages conn1;
          w = sh_world sh;
          w1 = w\<lparr>wd_clients := update_client (cn_connection_id conn2) (cn_client_name conn2)
            (cn_commands_processed conn2) (cn_flags conn2) (wd_clients w)\<rparr>;
          (failed, sk1, conn3) = write_pending results sk conn2;
          sk2 = (if pending_writes conn3 \<noteq> None then sk1\<lparr>sk_writable := True\<rparr> else sk1)
      in (ds, failed, sk2, conn3, m1, sh\<lparr>sh_registry := r1, sh_world := w1\<rparr>))"

text \<open>
  The loop over the reads of an event: each read comes with the results of the writes that
  follow it. The results are the deliveries and \<open>should_close\<close>, then the states.
\<close>

fun read_loop ::
  "nat \<Rightarrow> 's feox \<Rightarrow> env \<Rightarrow> nat \<Rightarrow> (read_result \<times> write_result list) list \<Rightarrow>
     (nat \<times> pubsub_message) list \<times> bool \<times> socket \<times> connection \<times> manager \<times> 's shared \<Rightarrow>
     ((nat \<times> pubsub_message) list \<times> bool \<times> socket \<times> connection \<times> manager \<times> 's shared) run" where
  "read_loop cap fx env thread_id [] st = Returns st"
| "read_loop cap fx env thread_id ((ReadEof, ws) # reads) (ds, should_close, st) = Returns (ds, True, st)"
| "read_loop cap fx env thread_id ((ReadBlocked, ws) # reads) st = Returns st"
| "read_loop cap fx env thread_id ((ReadFailed, ws) # reads) (ds, should_close, st) = Returns (ds, True, st)"
| "read_loop cap fx env thread_id ((ReadData data, ws) # reads) (ds, should_close, sk, conn, m, sh) =
     (case process_read cap fx env data conn (sh_world sh) of
        None \<Rightarrow> Hangs
      | Some (Inl ReadPanic, conn1, w1) \<Rightarrow> Panics (ds, should_close, sk, conn, m, sh\<lparr>sh_world := w1\<rparr>)
      | Some (Inl (ReadError e), conn1, w1) \<Rightarrow> Returns (ds, True, sk, conn1, m, sh\<lparr>sh_world := w1\<rparr>)
      | Some (Inr ops, conn1, w1) \<Rightarrow>
          (case finish_read thread_id ops ws sk conn1 m (sh\<lparr>sh_world := w1\<rparr>) of
             (ds1, failed, sk1, conn2, m1, sh1) \<Rightarrow>
               if cn_closed conn2 then Returns (ds @ ds1, True, sk1, conn2, m1, sh1)
               else read_loop cap fx env thread_id reads (ds @ ds1, should_close \<or> failed, sk1, conn2, m1, sh1)))"

text \<open>The end of a connection.\<close>

definition drop_connection :: "nat \<Rightarrow> connection \<Rightarrow> worker \<Rightarrow> 's shared \<Rightarrow> worker \<times> 's shared" where
  "drop_connection token conn wk sh =
     (let (m, r) = connection_dropped (cn_connection_id conn) (wk_manager wk) (sh_registry sh); w = sh_world sh
      in (wk\<lparr>wk_manager := m, wk_connections := AList.delete token (wk_connections wk)\<rparr>,
          sh\<lparr>sh_registry := r,
            sh_world := w\<lparr>wd_clients := unregister_client (cn_connection_id conn) (wd_clients w)\<rparr>,
            sh_active_connections := sh_active_connections sh - 1\<rparr>))"

text \<open>
  An event of a token: \<open>writes\<close> and \<open>reads\<close> are \<open>None\<close> when the event is not writable or not
  readable, \<open>later\<close> are the results of the writes to the connections of this worker that
  receive a message.
\<close>

definition handle_event ::
  "nat \<Rightarrow> 's feox \<Rightarrow> env \<Rightarrow> nat \<Rightarrow> write_result list option \<Rightarrow> (read_result \<times> write_result list) list option \<Rightarrow>
     write_result list list \<Rightarrow> worker \<Rightarrow> 's shared \<Rightarrow> (worker \<times> 's shared) run" where
  "handle_event cap fx env token writes reads later wk sh = (case map_of (wk_connections wk) token of
     None \<Rightarrow> Returns (wk, sh)
   | Some (sk, conn) \<Rightarrow>
       (let (failed, sk1, conn1) = (case writes of None \<Rightarrow> (False, sk, conn) | Some ws \<Rightarrow> handle_writable ws sk conn);
            start = ([], failed, sk1, conn1, wk_manager wk, sh)
        in case (case reads of None \<Rightarrow> Returns start | Some rs \<Rightarrow> read_loop cap fx env (wk_thread_id wk) rs start) of
             Hangs \<Rightarrow> Hangs
           | Panics (ds, should_close, sk2, conn2, m, sh1) \<Rightarrow>
               Panics (wk\<lparr>wk_manager := m, wk_connections := AList.update token (sk2, conn2) (wk_connections wk)\<rparr>, sh1)
           | Returns (ds, should_close, sk2, conn2, m, sh1) \<Rightarrow>
               (let wk1 = wk\<lparr>wk_manager := m, wk_connections := AList.update token (sk2, conn2) (wk_connections wk)\<rparr>;
                    (wk2, sh2) = (if should_close then drop_connection token conn2 wk1 sh1 else (wk1, sh1))
                in Returns (wk2\<lparr>wk_connections := deliver_messages ds later (wk_connections wk2)\<rparr>, sh2))))"

section \<open>Shutdown\<close>

fun cleanup :: "(nat \<times> socket \<times> connection) list \<Rightarrow> manager \<Rightarrow> 's shared \<Rightarrow> manager \<times> 's shared" where
  "cleanup [] m sh = (m, sh)"
| "cleanup ((token, sk, conn) # rest) m sh =
     (let (m1, r1) = connection_dropped (cn_connection_id conn) m (sh_registry sh); w = sh_world sh
      in cleanup rest m1 (sh\<lparr>sh_registry := r1,
           sh_world := w\<lparr>wd_clients := unregister_client (cn_connection_id conn) (wd_clients w)\<rparr>\<rparr>))"

definition shutdown_worker :: "worker \<Rightarrow> 's shared \<Rightarrow> worker \<times> 's shared" where
  "shutdown_worker wk sh = (case cleanup (wk_connections wk) (wk_manager wk) sh of
     (m, sh1) \<Rightarrow> (wk\<lparr>wk_manager := m, wk_connections := []\<rparr>, sh1))"

end
