(* ===== verification/Server_Frame.thy ===== *)
theory Server_Frame
  imports Server Connection_Stream
begin

text \<open>
  What a read does not change: the client registry, and of the connection its identity, its
  subscription count, its queued messages and its flags.
\<close>

section \<open>Commands leave the client registry alone\<close>

lemma wd_clients_simps [simp]:
  "wd_clients (notify key w) = wd_clients w" "wd_clients (set_store s w) = wd_clients w"
  "wd_clients (set_hash tr s w) = wd_clients w"
  by (simp_all add: notify_def set_store_def set_hash_def)

lemma del_keys_clients [simp]: "wd_clients (snd (del_keys fx keys n w)) = wd_clients w"
  by (induction fx keys n w rule: del_keys.induct) (auto split: sum.split prod.split)

lemma exec_mset_clients [simp]: "wd_clients (snd (exec_mset fx pairs w)) = wd_clients w"
  by (induction fx pairs w rule: exec_mset.induct) (auto split: sum.split prod.split)

lemma read_reply_clients [simp]: "wd_clients (snd (read_reply fx f r w)) = wd_clients w"
  by (simp add: read_reply_def split: sum.split prod.split)

lemma incr_write_clients [simp]: "wd_clients (snd (incr_write fx key n w)) = wd_clients w"
  by (simp add: incr_write_def split: sum.split prod.split)

lemma key_commands_clients [simp]:
  "wd_clients (snd (exec_get fx key w)) = wd_clients w"
  "wd_clients (snd (exec_set fx key val ex px w)) = wd_clients w"
  "wd_clients (snd (exec_del fx keys w)) = wd_clients w"
  "wd_clients (snd (exec_exists fx keys w)) = wd_clients w"
  "wd_clients (snd (string_incr fx key d w)) = wd_clients w"
  "wd_clients (snd (exec_expire fx key n w)) = wd_clients w"
  "wd_clients (snd (exec_pexpire fx key n w)) = wd_clients w"
  "wd_clients (snd (exec_persist fx key w)) = wd_clients w"
  "wd_clients (snd (exec_ttl fx key w)) = wd_clients w"
  "wd_clients (snd (exec_pttl fx key w)) = wd_clients w"
  "wd_clients (snd (exec_mget fx keys w)) = wd_clients w"
  by (auto simp: exec_get_def exec_set_def exec_del_def exec_exists_def string_incr_def exec_expire_def
      exec_pexpire_def exec_persist_def exec_ttl_def exec_pttl_def exec_mget_def split_beta
      split: sum.split prod.split feox_error.split option.split)

lemma query_commands_clients [simp]:
  "wd_clients (snd (exec_json_patch fx key patch w)) = wd_clients w"
  "wd_clients (snd (exec_cas fx key old new w)) = wd_clients w"
  "wd_clients (snd (exec_keys fx pattern w)) = wd_clients w"
  "wd_clients (snd (exec_scan fx cursor n pat w)) = wd_clients w"
  "wd_clients (snd (exec_info fx env e sec w)) = wd_clients w"
  by (auto simp: exec_json_patch_def exec_cas_def exec_keys_def exec_scan_def exec_info_def Let_def
      split: sum.split prod.split option.split)

lemma push_reply_clients: "push_reply fx key r w = Some (v, w1) \<Longrightarrow> wd_clients w1 = wd_clients w"
  by (auto simp: push_reply_def split: option.splits sum.splits)

lemma pop_reply_clients: "pop_reply fx key r w = Some (v, w1) \<Longrightarrow> wd_clients w1 = wd_clients w"
  by (auto simp: pop_reply_def split: option.splits sum.splits list.splits)

lemma hash_commands_clients [simp]:
  "wd_clients (snd (exec_hset fx env key fvs w)) = wd_clients w"
  "wd_clients (snd (exec_hdel fx env key names w)) = wd_clients w"
  "wd_clients (snd (exec_hlen fx env key w)) = wd_clients w"
  "wd_clients (snd (exec_hincrby fx env key field d w)) = wd_clients w"
  by (auto simp: exec_hset_def exec_hdel_def exec_hlen_def exec_hincrby_def split: sum.split prod.split)

lemmas read_commands = exec_llen_def exec_lrange_def exec_lindex_def exec_hget_def exec_hmget_def exec_hexists_def
  exec_hgetall_def exec_hkeys_def exec_hvals_def

lemma run_command_clients: "run_command fx env e c w = Some (v, w1) \<Longrightarrow> wd_clients w1 = wd_clients w"
  by (cases c)
    (auto simp: exec_lpush_def exec_rpush_def exec_lpop_def exec_rpop_def read_commands
      dest: push_reply_clients pop_reply_clients arg_cong [where f = "\<lambda>r. wd_clients (snd r)"])

lemma execute_clients: "execute fx env e c w = Some (v, e1, w1) \<Longrightarrow> wd_clients w1 = wd_clients w"
  by (auto simp: execute_def Let_def split: option.splits dest: run_command_clients)

section \<open>Reads\<close>

definition identity :: "connection \<Rightarrow> nat \<times> nat \<times> pubsub_message list \<times> bytes list" where
  "identity conn = (cn_connection_id conn, cn_subscription_count conn, cn_pending_pubsub_messages conn, cn_flags conn)"

lemma identity_simps [simp]:
  "identity (reply v conn) = identity conn" "identity (emit bs conn) = identity conn"
  "identity (respond v conn) = identity conn" "identity (io p b n conn) = identity conn" "identity (bare conn) = identity conn"
  "identity (conn\<lparr>cn_executor := e\<rparr>) = identity conn" "identity (conn\<lparr>cn_closed := c\<rparr>) = identity conn"
  "identity (conn\<lparr>cn_queued_commands := q\<rparr>) = identity conn" "identity (conn\<lparr>cn_watched_keys := k\<rparr>) = identity conn"
  "identity (conn\<lparr>cn_transaction_state := t\<rparr>) = identity conn" "identity (conn\<lparr>cn_authenticated := a\<rparr>) = identity conn"
  "identity (conn\<lparr>cn_commands_processed := m\<rparr>) = identity conn" "identity (conn\<lparr>cn_pipeline_depth := m\<rparr>) = identity conn"
  "identity (conn\<lparr>cn_parser := p\<rparr>) = identity conn" "identity (conn\<lparr>cn_client_name := x\<rparr>) = identity conn"
  by (simp_all add: identity_def reply_def emit_def respond_def io_def bare_def)

lemma identity_set_client_name [simp]: "identity (set_client_name c conn) = identity conn"
  by (cases c) (simp_all add: set_client_name_def)

lemma fast_set_clients: "fast_set_bytes fx key val w = (r, w1) \<Longrightarrow> wd_clients w1 = wd_clients w"
  by (auto simp: fast_set_bytes_def split: sum.splits prod.splits)

lemma fast_get_clients: "fast_get fx key w = (r, w1) \<Longrightarrow> wd_clients w1 = wd_clients w"
  by (auto simp: fast_get_def split: prod.splits)

lemma fast_path_get_frame:
  "fast_path_get fx name args conn w = (b, conn1, w1) \<Longrightarrow> identity conn1 = identity conn \<and> wd_clients w1 = wd_clients w"
  by (auto simp: fast_path_get_def dest: fast_get_clients
      split: if_splits resp_value.splits option.splits sum.splits prod.splits feox_error.splits)

lemma fast_path_frame:
  assumes "try_fast_path fx v conn w = (b, conn1, w1)"
  shows "identity conn1 = identity conn \<and> wd_clients w1 = wd_clients w"
proof (cases "\<exists>args. v = Array (Some args)")
  case False
  with assms show ?thesis by (auto simp: try_fast_path_def split: resp_value.splits option.splits)
next
  case True
  with assms show ?thesis
    by (auto simp: try_fast_path_def dest: fast_path_get_frame fast_set_clients
        split: if_splits resp_value.splits option.splits sum.splits prod.splits)
qed

lemma execute_all_clients: "execute_all fx env e cs w = Some (vs, e1, w1) \<Longrightarrow> wd_clients w1 = wd_clients w"
  by (induction fx env e cs w arbitrary: vs rule: execute_all.induct)
    (auto split: option.splits prod.splits dest: execute_clients)

lemma handle_transaction_frame:
  "handle_transaction fx env c conn w = Some (Some (conn1, w1)) \<Longrightarrow> identity conn1 = identity conn \<and> wd_clients w1 = wd_clients w"
  by (cases c) (auto simp: handle_transaction_def handle_multi_def handle_exec_def handle_discard_def
      handle_watch_def handle_unwatch_def dest: execute_all_clients split: option.splits prod.splits if_splits)

lemma run_and_respond_frame:
  "run_and_respond fx env c conn w = Some (ctl, conn1, w1) \<Longrightarrow> identity conn1 = identity conn \<and> wd_clients w1 = wd_clients w"
  by (auto simp: run_and_respond_def dest: execute_clients split: option.splits)

lemma dispatch_frame:
  assumes "dispatch fx env c conn w = Some (ctl, conn1, w1)"
  shows "identity conn1 = identity conn \<and> wd_clients w1 = wd_clients w"
proof (cases "is_auth c")
  case True
  then obtain pw where "c = Auth pw" by (cases c) (simp_all add: is_auth_def)
  with assms show ?thesis by (auto simp: dispatch_def handle_auth_def is_auth_def split: if_splits)
next
  case False
  with assms show ?thesis
    by (auto simp: dispatch_def no_auth_case respond_pubsub_def dest: run_and_respond_frame split: option.splits if_splits)
qed

lemma handle_command_frame:
  assumes "handle_command fx env c conn w = Some (ctl, conn1, w1)"
  shows "identity conn1 = identity conn \<and> wd_clients w1 = wd_clients w"
  using assms
  by (auto simp: handle_command_def Let_def dest: handle_transaction_frame dispatch_frame
      split: if_splits option.splits)

lemma handle_value_frame:
  assumes "handle_value fx env v conn w = Some (ctl, conn1, w1)"
  shows "identity conn1 = identity conn \<and> wd_clients w1 = wd_clients w"
proof -
  let ?c = "conn\<lparr>cn_commands_processed := cn_commands_processed conn + 1\<rparr>"
  obtain b c1 w2 where f: "try_fast_path fx v ?c w = (b, c1, w2)" by (metis prod_cases3)
  note fast = fast_path_frame [OF f]
  show ?thesis
    using assms f fast
    by (auto simp: handle_value_def Let_def dest: handle_command_frame split: if_splits sum.splits)
qed

lemma process_loop_frame:
  "process_loop cap fx env conn w ops = Some (r, conn1, w1) \<Longrightarrow> identity conn1 = identity conn \<and> wd_clients w1 = wd_clients w"
proof (induction cap fx env conn w ops rule: process_loop.induct)
  case (1 cap fx env conn w ops)
  obtain pr p where p: "parse_next cap (cn_parser conn) = (pr, p)" by force
  show ?case
  proof (cases "\<exists>v. pr = Inr (Some v)")
    case False
    with "1.prems" p show ?thesis
      by (auto simp: process_loop.simps [of cap fx env conn] split: sum.splits option.splits parse_error.splits)
  next
    case True
    then obtain v where v: "pr = Inr (Some v)" by blast
    with "1.prems" p obtain ctl c2 w2 where h: "handle_value fx env v (conn\<lparr>cn_parser := p\<rparr>) w = Some (ctl, c2, w2)"
      by (auto simp: process_loop.simps [of cap fx env conn] split: option.splits)
    note f = handle_value_frame [OF h]
    show ?thesis
      using "1.prems" "1.IH" [OF p [symmetric] v refl] p v h f
      by (cases ctl) (auto simp: process_loop.simps [of cap fx env conn])
  qed
qed

lemma process_read_frame:
  assumes "process_read cap fx env d conn w = Some (r, conn1, w1)"
  shows "identity conn1 = identity conn \<and> wd_clients w1 = wd_clients w"
proof -
  have "identity (conn\<lparr>cn_parser := p, cn_write_buffer := b, cn_write_position := n\<rparr>) = identity conn" for p b n
    by (simp add: identity_def)
  with assms process_loop_frame show ?thesis
    by (fastforce simp: process_read_def Let_def split: if_splits)
qed

end
