(* ===== verification/Trie_Spec.thy ===== *)
theory Trie_Spec
  imports Pattern_Trie
begin

text \<open>
  What the trie of \<open>Pattern_Trie\<close> holds and finds. A trie is described by the subscribers
  at each path of tokens (\<open>subs_at\<close>): insertion appends at the path of the pattern, removal
  filters there, and a search collects, over all paths, those that match the channel
  (\<open>tmatch\<close>). For patterns without classes and escapes \<open>tmatch\<close> is the meaning of a glob
  pattern, unless the pattern ends in two stars.
\<close>

section \<open>Paths\<close>

definition child :: "trie \<Rightarrow> token \<Rightarrow> trie option" where
  "child t tok = (case tok of
     Lit c \<Rightarrow> map_of (children t) c
   | AnySeq \<Rightarrow> wildcard_child t
   | AnyChar \<Rightarrow> single_char_child t
   | CharClass chars negated \<Rightarrow> (case char_class_child t of
       Some (old, t') \<Rightarrow> if old = (chars, negated) then Some t' else None | None \<Rightarrow> None))"

fun subs_at :: "trie \<Rightarrow> token list \<Rightarrow> (bytes \<times> nat) list" where
  "subs_at t [] = subscribers t"
| "subs_at t (tok # toks) = (case child t tok of None \<Rightarrow> [] | Some t' \<Rightarrow> subs_at t' toks)"

function tokens :: "bytes \<Rightarrow> token list" where
  "tokens p = (if p = [] then [] else fst (next_token p) # tokens (drop (snd (next_token p)) p))"
  by pat_completeness auto
termination by (relation "measure length") (auto dest: next_token_shrinks)

declare tokens.simps [simp del]

lemma tokens_Nil [simp]: "tokens [] = []" by (simp add: tokens.simps)

fun is_class :: "token \<Rightarrow> bool" where
  "is_class (CharClass chars negated) = True"
| "is_class _ = False"

definition class_free :: "token list \<Rightarrow> bool" where
  "class_free toks \<longleftrightarrow> (\<forall>tok \<in> set toks. \<not> is_class tok)"

lemma class_free_Cons [simp]: "class_free (tok # toks) \<longleftrightarrow> \<not> is_class tok \<and> class_free toks"
  by (auto simp: class_free_def)

lemma class_free_Nil [simp]: "class_free []" by (simp add: class_free_def)

lemma subs_at_new [simp]: "subs_at new_node toks = []"
  by (cases toks) (auto simp: new_node_def child_def split: token.split)

section \<open>Insertion and removal\<close>

text \<open>Both operations replace the child at the next token of the pattern.\<close>

definition set_child :: "token \<Rightarrow> trie \<Rightarrow> trie \<Rightarrow> trie" where
  "set_child tok t' t = (case t of Node cs w s cl subs \<Rightarrow> (case tok of
     Lit c \<Rightarrow> Node (AList.update c t' cs) w s cl subs
   | AnySeq \<Rightarrow> Node cs (Some t') s cl subs
   | AnyChar \<Rightarrow> Node cs w (Some t') cl subs
   | CharClass chars negated \<Rightarrow> Node cs w s (Some ((chars, negated), t')) subs))"

lemma subscribers_set_child [simp]: "subscribers (set_child tok t' t) = subscribers t"
  by (simp add: set_child_def split: trie.split token.split)

lemma child_set_child:
  "\<not> is_class tok \<Longrightarrow> child (set_child tok t' t) tok2 = (if tok2 = tok then Some t' else child t tok2)"
  by (cases t; cases tok; cases tok2) (auto simp: set_child_def child_def update_conv')

lemma insert_from_Nil: "insert_from p conn [] t = (case t of Node cs w s cl subs \<Rightarrow> Node cs w s cl (subs @ [(p, conn)]))"
  by (cases t) simp

lemma insert_from_step:
  assumes "rest \<noteq> []" and "next_token rest = (tok, n)" and "\<not> is_class tok"
  shows "insert_from p conn rest t =
    set_child tok (insert_from p conn (drop n rest) (case child t tok of None \<Rightarrow> new_node | Some t' \<Rightarrow> t')) t"
  using assms by (cases t; cases tok) (simp_all add: set_child_def child_def)

lemma remove_from_step:
  assumes "rest \<noteq> []" and "next_token rest = (tok, n)" and "\<not> is_class tok"
  shows "remove_from_node rest p conn t = (case child t tok of None \<Rightarrow> (False, t)
    | Some t' \<Rightarrow> (case remove_from_node (drop n rest) p conn t' of (b, t'') \<Rightarrow> (b, set_child tok t'' t)))"
  using assms by (cases t; cases tok) (simp_all add: set_child_def child_def split: option.splits prod.splits)

declare insert_from.simps [simp del] remove_from_node.simps [simp del]

lemma tokens_step:
  "rest \<noteq> [] \<Longrightarrow> next_token rest = (tok, n) \<Longrightarrow> tokens rest = tok # tokens (drop n rest)"
  by (subst tokens.simps) simp

lemma next_token_less: "rest \<noteq> [] \<Longrightarrow> next_token rest = (tok, n) \<Longrightarrow> length (drop n rest) < length rest"
  using next_token_shrinks [of rest] by simp

lemma subs_at_insert_from:
  "class_free (tokens rest) \<Longrightarrow>
   subs_at (insert_from pattern conn rest t) toks =
     subs_at t toks @ (if toks = tokens rest then [(pattern, conn)] else [])"
proof (induction rest arbitrary: t toks rule: measure_induct_rule [of length])
  case (less rest)
  show ?case
  proof (cases "rest = []")
    case True
    then show ?thesis
      by (cases toks) (auto simp: insert_from_Nil child_def split: trie.split token.split)
  next
    case False
    obtain tok n where tok: "next_token rest = (tok, n)" by force
    note toks = tokens_step [OF False tok]
    have no_class: "\<not> is_class tok" using less.prems toks by simp
    have IH: "subs_at (insert_from pattern conn (drop n rest) t') ts =
        subs_at t' ts @ (if ts = tokens (drop n rest) then [(pattern, conn)] else [])" for t' ts
      using less.prems toks by (intro less.IH next_token_less [OF False tok]) simp
    show ?thesis
      by (cases toks) (auto simp: toks insert_from_step [OF False tok no_class] child_set_child [OF no_class] IH
          split: option.split)
  qed
qed

lemma subs_at_remove_from:
  "class_free (tokens rest) \<Longrightarrow>
   subs_at (snd (remove_from_node rest pattern conn t)) toks =
     (if toks = tokens rest then filter (\<lambda>e. e \<noteq> (pattern, conn)) (subs_at t toks) else subs_at t toks) \<and>
   fst (remove_from_node rest pattern conn t) = ((pattern, conn) \<in> set (subs_at t (tokens rest)))"
proof (induction rest arbitrary: t toks rule: measure_induct_rule [of length])
  case (less rest)
  show ?case
  proof (cases "rest = []")
    case True
    have same: "filter (\<lambda>(p, i). \<not> (p = pattern \<and> i = conn)) subs = filter (\<lambda>e. e \<noteq> (pattern, conn)) subs" for subs
      by (auto intro!: filter_cong)
    have shorter: "length (filter (\<lambda>e. e \<noteq> (pattern, conn)) subs) < length subs \<longleftrightarrow> (pattern, conn) \<in> set subs" for subs
      by (induction subs) (auto simp: le_imp_less_Suc)
    show ?thesis using True same shorter
      by (cases t; cases toks) (auto simp: remove_from_node.simps Let_def child_def split: token.split)
  next
    case False
    obtain tok n where tok: "next_token rest = (tok, n)" by force
    note toks = tokens_step [OF False tok]
    have no_class: "\<not> is_class tok" using less.prems toks by simp
    have "class_free (tokens (drop n rest))" using less.prems toks by simp
    note IH = less.IH [OF next_token_less [OF False tok] this]
    show ?thesis
      using IH by (cases toks) (auto simp: toks remove_from_step [OF False tok no_class] child_set_child [OF no_class]
          split_beta split: option.split)
  qed
qed

text \<open>The trie holds a set of subscriptions: each is stored at the path of its pattern.\<close>

definition trie_holds :: "trie \<Rightarrow> (bytes \<times> nat) set \<Rightarrow> bool" where
  "trie_holds t S \<longleftrightarrow> (\<forall>toks. set (subs_at t toks) = {e \<in> S. tokens (fst e) = toks})"

lemma trie_holds_new: "trie_holds new_node {}"
  by (simp add: trie_holds_def)

lemma trie_holds_insert:
  "trie_holds t S \<Longrightarrow> class_free (tokens p) \<Longrightarrow> trie_holds (trie_insert p conn t) (insert (p, conn) S)"
  by (auto simp: trie_holds_def trie_insert_def subs_at_insert_from)

lemma trie_holds_remove:
  assumes "trie_holds t S" and "class_free (tokens p)"
  shows "trie_holds (snd (trie_remove p conn t)) (S - {(p, conn)})"
    and "fst (trie_remove p conn t) = ((p, conn) \<in> S)"
  using assms subs_at_remove_from [OF assms(2), of p conn t]
  by (auto simp: trie_holds_def trie_remove_def)

section \<open>Search\<close>

fun tmatch :: "token list \<Rightarrow> bytes \<Rightarrow> bool" where
  "tmatch [] ch = (ch = [])"
| "tmatch (tok # toks) [] = (tok = AnySeq \<and> toks = [])"
| "tmatch (Lit c # toks) (d # ds) = (c = d \<and> tmatch toks ds)"
| "tmatch (AnyChar # toks) (d # ds) = tmatch toks ds"
| "tmatch (CharClass chars negated # toks) (d # ds) = (matches_char_class d chars negated \<and> tmatch toks ds)"
| "tmatch (AnySeq # toks) (d # ds) = (\<exists>sfx \<in> set (suffixes_of (d # ds)). tmatch toks sfx)"

definition found_at :: "trie \<Rightarrow> bytes \<Rightarrow> (bytes \<times> nat) set" where
  "found_at t ch = {e. \<exists>toks. e \<in> set (subs_at t toks) \<and> tmatch toks ch}"

lemma in_found_at: "e \<in> found_at t ch \<longleftrightarrow> (\<exists>toks. e \<in> set (subs_at t toks) \<and> tmatch toks ch)"
  by (simp add: found_at_def)

text \<open>The paths that start with a given token.\<close>

definition found_via :: "trie \<Rightarrow> token \<Rightarrow> bytes \<Rightarrow> (bytes \<times> nat) set" where
  "found_via t tok ch = {e. \<exists>t' toks. child t tok = Some t' \<and> e \<in> set (subs_at t' toks) \<and> tmatch (tok # toks) ch}"

lemma child_eq:
  "child t (Lit c) = map_of (children t) c" "child t AnySeq = wildcard_child t" "child t AnyChar = single_char_child t"
  "child t (CharClass cs n) = Some t' \<longleftrightarrow> char_class_child t = Some ((cs, n), t')"
  by (auto simp: child_def split: option.split)

lemma found_at_cases:
  "found_at t ch = (if ch = [] then set (subscribers t) else {}) \<union> (\<Union>c. found_via t (Lit c) ch) \<union>
     found_via t AnySeq ch \<union> found_via t AnyChar ch \<union> (\<Union>cs n. found_via t (CharClass cs n) ch)"
proof -
  have via: "(\<exists>toks. e \<in> set (subs_at t (tok # toks)) \<and> tmatch (tok # toks) ch) \<longleftrightarrow> e \<in> found_via t tok ch" for tok e
    by (cases "child t tok") (auto simp: found_via_def)
  have "e \<in> found_at t ch \<longleftrightarrow> (e \<in> set (subscribers t) \<and> ch = []) \<or> (\<exists>tok. e \<in> found_via t tok ch)" for e
    unfolding in_found_at via [symmetric] by (metis (full_types) neq_Nil_conv subs_at.simps(1) tmatch.simps(1))
  moreover have "(\<exists>tok. P tok) \<longleftrightarrow> (\<exists>c. P (Lit c)) \<or> P AnySeq \<or> P AnyChar \<or> (\<exists>cs n. P (CharClass cs n))" for P
    by (metis token.exhaust)
  ultimately show ?thesis by (auto split: if_splits)
qed

lemma found_via_Nil:
  "found_via t tok [] = (if tok = AnySeq then (case wildcard_child t of None \<Rightarrow> {} | Some t' \<Rightarrow> set (subscribers t')) else {})"
  by (auto simp: found_via_def child_eq split: option.split)

lemma found_via_one:
  "found_via t AnyChar (d # ds) = (case single_char_child t of None \<Rightarrow> {} | Some t' \<Rightarrow> found_at t' ds)"
  by (auto simp: found_via_def child_eq found_at_def split: option.split)

lemma found_via_lit:
  "(\<Union>c. found_via t (Lit c) (d # ds)) = (case map_of (children t) d of None \<Rightarrow> {} | Some t' \<Rightarrow> found_at t' ds)"
  by (auto simp: found_via_def child_eq found_at_def split: option.split)

lemma found_via_class:
  "(\<Union>cs n. found_via t (CharClass cs n) (d # ds)) = (case char_class_child t of None \<Rightarrow> {}
     | Some ((cs, n), t') \<Rightarrow> if matches_char_class d cs n then found_at t' ds else {})"
proof (cases "char_class_child t")
  case None
  then show ?thesis by (simp add: found_via_def child_eq)
next
  case (Some p)
  obtain cs n t' where p: "p = ((cs, n), t')" by (metis prod.exhaust)
  have "found_via t (CharClass a b) (d # ds) =
      (if a = cs \<and> b = n \<and> matches_char_class d cs n then found_at t' ds else {})" for a b
    by (cases b; cases n) (auto simp: found_via_def child_eq Some p found_at_def)
  then show ?thesis by (auto simp: Some p)
qed

lemma found_via_seq:
  "found_via t AnySeq (d # ds) =
     (case wildcard_child t of None \<Rightarrow> {} | Some t' \<Rightarrow> (\<Union>sfx \<in> set (suffixes_of (d # ds)). found_at t' sfx))"
  by (auto simp: found_via_def child_eq found_at_def simp del: suffixes_of.simps split: option.split)

lemma found_at_Nil:
  "found_at t [] = set (subscribers t) \<union> (case wildcard_child t of None \<Rightarrow> {} | Some t' \<Rightarrow> set (subscribers t'))"
  by (simp add: found_at_cases found_via_Nil)

lemma found_at_Cons:
  "found_at t (d # ds) = (case map_of (children t) d of None \<Rightarrow> {} | Some t' \<Rightarrow> found_at t' ds) \<union>
     (case wildcard_child t of None \<Rightarrow> {} | Some t' \<Rightarrow> (\<Union>sfx \<in> set (suffixes_of (d # ds)). found_at t' sfx)) \<union>
     (case single_char_child t of None \<Rightarrow> {} | Some t' \<Rightarrow> found_at t' ds) \<union>
     (case char_class_child t of None \<Rightarrow> {}
      | Some ((cs, n), t') \<Rightarrow> if matches_char_class d cs n then found_at t' ds else {})"
  unfolding found_at_cases [of t] found_via_lit found_via_seq found_via_one found_via_class
  by (simp del: suffixes_of.simps)

lemma set_find_in_node: "set (find_in_node t ch) = found_at t ch"
proof (induction t ch rule: find_in_node.induct)
  case (1 cs w s cl subs ch)
  show ?case
  proof (cases ch)
    case Nil
    then show ?thesis by (simp add: found_at_Nil split: option.split)
  next
    case (Cons c rest)
    then show ?thesis
      using "1.IH" [OF Cons] by (simp add: found_at_Cons Un_ac UNION_eq del: suffixes_of.simps split: option.split)
  qed
qed

lemma find_matches_holds:
  assumes "trie_holds t S"
  shows "set (find_matches t ch) = {e \<in> S. tmatch (tokens (fst e)) ch}"
  using assms by (auto simp: find_matches_def set_find_in_node in_found_at trie_holds_def)

section \<open>The meaning of a pattern\<close>

definition plain_pattern :: "bytes \<Rightarrow> bool" where
  "plain_pattern p \<longleftrightarrow> CHR ''['' \<notin> set p \<and> CHR 0x5C \<notin> set p"

lemma plain_pattern_Cons [simp]: "plain_pattern (c # p) \<longleftrightarrow> c \<noteq> CHR ''['' \<and> c \<noteq> CHR 0x5C \<and> plain_pattern p"
  by (auto simp: plain_pattern_def)

definition token_of :: "char \<Rightarrow> token" where
  "token_of c = (if c = CHR ''*'' then AnySeq else if c = CHR ''?'' then AnyChar else Lit c)"

lemma tokens_plain: "plain_pattern p \<Longrightarrow> tokens p = map token_of p"
proof (induction p)
  case (Cons c p)
  then have "next_token (c # p) = (token_of c, 1)" by (simp add: next_token_def token_of_def)
  with Cons show ?case by (subst tokens.simps) simp
qed simp

lemma class_free_plain: "plain_pattern p \<Longrightarrow> class_free (tokens p)"
  by (auto simp: tokens_plain class_free_def token_of_def split: if_splits)

lemma set_suffixes: "set (suffixes_of ch) = {drop k ch |k. k \<le> length ch}"
proof (induction ch)
  case (Cons c cs)
  have "{drop k (c # cs) |k. k \<le> length (c # cs)} = insert (c # cs) {drop k cs |k. k \<le> length cs}" (is "?L = ?R")
  proof
    show "?L \<subseteq> ?R"
    proof
      fix x assume "x \<in> ?L"
      then obtain k where "x = drop k (c # cs)" "k \<le> length (c # cs)" by blast
      then show "x \<in> ?R" by (cases k) auto
    qed
    have "drop k cs = drop (Suc k) (c # cs)" for k by simp
    then show "?R \<subseteq> ?L" by (auto intro: exI [of _ 0] simp del: drop_Suc_Cons)
  qed
  with Cons show ?case by simp
qed simp

lemma matches_Nil_stars: "matches p [] \<longleftrightarrow> set p \<subseteq> {CHR ''*''}"
  by (induction p) auto

lemma stars_end: "set p \<subseteq> {CHR ''*''} \<Longrightarrow> p \<noteq> [] \<Longrightarrow> \<exists>q. CHR ''*'' # p = q @ ''**''"
proof (induction p)
  case (Cons c p)
  then show ?case
    by (cases "p = []") (auto intro: exI [of _ "[]"] exI [of _ "CHR ''*'' # q" for q])
qed simp

lemma tmatch_matches:
  "(\<forall>q. p \<noteq> q @ ''**'') \<Longrightarrow> tmatch (map token_of p) ch = matches p ch"
proof (induction p arbitrary: ch)
  case (Cons c p)
  have "\<forall>q. p \<noteq> q @ ''**''" using Cons.prems by (metis append_Cons)
  note IH = Cons.IH [OF this]
  show ?case
  proof (cases "c = CHR ''*''")
    case False
    then show ?thesis using IH by (cases ch) (auto simp: token_of_def)
  next
    case True
    show ?thesis
    proof (cases ch)
      case Nil
      then show ?thesis using True Cons.prems stars_end [of p] by (auto simp: token_of_def matches_Nil_stars)
    next
      case (Cons d ds)
      have "tmatch (map token_of (c # p)) ch = (\<exists>sfx \<in> set (suffixes_of ch). matches p sfx)"
        using True Cons by (simp add: IH token_of_def [of "CHR ''*''"] del: suffixes_of.simps)
      then show ?thesis using True by (auto simp: set_suffixes matches_star)
    qed
  qed
qed simp

text \<open>Subscribing (\<open>True\<close>) and unsubscribing in any order, on the trie and on the set of subscriptions.\<close>

fun trie_run :: "(bool \<times> bytes \<times> nat) list \<Rightarrow> trie" where
  "trie_run [] = new_node"
| "trie_run ((b, p, conn) # ops) =
     (if b then trie_insert p conn (trie_run ops) else snd (trie_remove p conn (trie_run ops)))"

fun subscriptions :: "(bool \<times> bytes \<times> nat) list \<Rightarrow> (bytes \<times> nat) set" where
  "subscriptions [] = {}"
| "subscriptions ((b, p, conn) # ops) =
     (if b then insert (p, conn) (subscriptions ops) else subscriptions ops - {(p, conn)})"

lemma trie_run_holds:
  "(\<forall>(b, p, conn) \<in> set ops. plain_pattern p) \<Longrightarrow> trie_holds (trie_run ops) (subscriptions ops)"
  by (induction ops rule: trie_run.induct)
    (auto simp: trie_holds_new class_free_plain intro: trie_holds_insert trie_holds_remove)

lemma subscriptions_patterns: "e \<in> subscriptions ops \<Longrightarrow> \<exists>b. (b, e) \<in> set ops"
  by (induction ops rule: subscriptions.induct) (auto split: if_splits)

lemma trie_run_finds:
  assumes "\<forall>(b, p, conn) \<in> set ops. plain_pattern p \<and> (\<forall>q. p \<noteq> q @ ''**'')"
  shows "set (find_matches (trie_run ops) ch) = {(p, conn) \<in> subscriptions ops. matches p ch}"
proof -
  have "trie_holds (trie_run ops) (subscriptions ops)" using assms by (intro trie_run_holds) auto
  moreover have "tmatch (tokens p) ch = matches p ch" if "(p, conn) \<in> subscriptions ops" for p conn
    using subscriptions_patterns [OF that] assms by (auto simp: tokens_plain tmatch_matches)
  ultimately show ?thesis by (auto simp: find_matches_holds)
qed

end
