(* ===== verification/Pubsub_Spec.thy ===== *)
theory Pubsub_Spec
  imports Pubsub_Manager Trie_Spec
begin

text \<open>
  The bookkeeping of the subscriptions. Channels and patterns are kept in the same way, in
  a half of the state each: per worker the subscribers of a name and the names of a
  connection, globally the number of subscribers of a name and the threads that have some.
  The locale \<open>subscription_half\<close> states what joining and dropping do to a half; the
  invariant \<open>half_ok\<close> (the two tables of a worker are inverse to each other, the global
  counts are the sums, the threads are the ones with subscribers) follows once for both.
\<close>

section \<open>The invariant\<close>

definition add_once :: "'a \<Rightarrow> 'a list \<Rightarrow> 'a list" where
  "add_once x xs = (if x \<in> set xs then xs else xs @ [x])"

lemma set_add_once [simp]: "set (add_once x xs) = insert x (set xs)"
  by (auto simp: add_once_def)

lemma distinct_add_once [simp]: "distinct (add_once x xs) = distinct xs"
  by (auto simp: add_once_def)

lemma add_once_neq_Nil [simp]: "add_once x xs \<noteq> []"
  by (auto simp: add_once_def)

lemma length_add_once: "length (add_once x xs) = (if x \<in> set xs then length xs else Suc (length xs))"
  by (simp add: add_once_def)

text \<open>The two tables of a worker: \<open>S\<close> lists the connections of a name, \<open>N\<close> the names of a connection.\<close>

definition tables_inverse :: "(bytes \<Rightarrow> nat list) \<Rightarrow> (nat \<Rightarrow> bytes list) \<Rightarrow> bool" where
  "tables_inverse S N \<longleftrightarrow> (\<forall>k c. c \<in> set (S k) \<longleftrightarrow> k \<in> set (N c)) \<and> (\<forall>k. distinct (S k)) \<and> (\<forall>c. distinct (N c))"

lemma tables_inverse_add:
  "tables_inverse S N \<Longrightarrow> tables_inverse (S(k := add_once c (S k))) (N(c := add_once k (N c)))"
  by (auto simp: tables_inverse_def)

lemma tables_inverse_remove:
  "tables_inverse S N \<Longrightarrow> tables_inverse (S(k := removeAll c (S k))) (N(c := removeAll k (N c)))"
  by (auto simp: tables_inverse_def distinct_removeAll)

lemma tables_inverse_remove_all:
  "tables_inverse S N \<Longrightarrow> tables_inverse (\<lambda>k. removeAll c (S k)) (N(c := []))"
  by (auto simp: tables_inverse_def distinct_removeAll)

lemma add_once_inverse: "tables_inverse S N \<Longrightarrow> c \<in> set (S k) \<longleftrightarrow> k \<in> set (N c)"
  by (simp add: tables_inverse_def)

text \<open>What the registry knows of the subscribers \<open>Ss\<close> of the workers.\<close>

definition shares_known :: "(bytes \<Rightarrow> nat list) list \<Rightarrow> (bytes \<Rightarrow> nat) \<Rightarrow> (bytes \<Rightarrow> nat set) \<Rightarrow> bool" where
  "shares_known Ss C T \<longleftrightarrow> (\<forall>k. C k = (\<Sum>S \<leftarrow> Ss. length (S k))) \<and> (\<forall>k. T k = {i. i < length Ss \<and> (Ss ! i) k \<noteq> []})"

lemma shares_known_update:
  assumes "shares_known Ss C T" and "i < length Ss"
    and "C' = C(k := C k + length v - length ((Ss ! i) k))"
    and "T' = T(k := if v = [] then T k - {i} else insert i (T k))"
  shows "shares_known (Ss[i := (Ss ! i)(k := v)]) C' T'"
proof -
  have upd: "map (\<lambda>S. length (S j)) (Ss[i := (Ss ! i)(k := v)]) =
      (map (\<lambda>S. length (S j)) Ss)[i := (if j = k then length v else length ((Ss ! i) j))]" for j
    by (simp add: map_update)
  have C: "C j = (\<Sum>S \<leftarrow> Ss. length (S j))" and T: "T j = {l. l < length Ss \<and> (Ss ! l) j \<noteq> []}" for j
    using assms(1) by (simp_all add: shares_known_def)
  have "(\<Sum>S \<leftarrow> Ss[i := (Ss ! i)(k := v)]. length (S j)) = C' j" for j
  proof (cases "j = k")
    case True
    have i: "i < length (map (\<lambda>S. length (S k)) Ss)" using assms(2) by simp
    show ?thesis
      unfolding upd True assms(3) by (simp add: sum_list_update [OF i] C assms(2))
  next
    case False
    then have "(map (\<lambda>S. length (S j)) Ss)[i := length ((Ss ! i) j)] = map (\<lambda>S. length (S j)) Ss"
      using assms(2) list_update_id [of "map (\<lambda>S. length (S j)) Ss" i] by simp
    with False show ?thesis unfolding upd assms(3) by (simp add: C)
  qed
  moreover have "T' j = {l. l < length Ss \<and> (Ss[i := (Ss ! i)(k := v)] ! l) j \<noteq> []}" for j
  proof (cases "j = k")
    case True
    then show ?thesis using assms(2) by (auto simp: assms(4) T nth_list_update)
  next
    case False
    have "(Ss[i := (Ss ! i)(k := v)] ! l) j = (Ss ! l) j" if "l < length Ss" for l
      using False assms(2) by (simp add: nth_list_update)
    with False show ?thesis by (auto simp: assms(4) T)
  qed
  ultimately show ?thesis by (auto simp: shares_known_def)
qed

text \<open>One half of the system: \<open>subs\<close> and \<open>names\<close> of the workers, \<open>counts\<close> and \<open>threads\<close> of the registry.\<close>

definition half_ok ::
  "(manager \<Rightarrow> (bytes \<times> nat list) list) \<Rightarrow> (manager \<Rightarrow> (nat \<times> bytes list) list) \<Rightarrow>
   (registry \<Rightarrow> (bytes \<times> nat) list) \<Rightarrow> (registry \<Rightarrow> (bytes \<times> nat list) list) \<Rightarrow> manager list \<Rightarrow> registry \<Rightarrow> bool" where
  "half_ok subs names counts threads ms r \<longleftrightarrow>
     (\<forall>m \<in> set ms. tidy (subs m) \<and> tables_inverse (at_key (subs m)) (at_key (names m))) \<and>
     tidy (threads r) \<and>
     shares_known (map (\<lambda>m. at_key (subs m)) ms) (count_of (counts r)) (\<lambda>k. set (at_key (threads r) k))"

definition system_ok :: "manager list \<Rightarrow> registry \<Rightarrow> bool" where
  "system_ok ms r \<longleftrightarrow>
     (\<forall>i < length ms. pm_thread_id (ms ! i) = i) \<and> length (gr_queues r) = length ms \<and>
     half_ok pm_exact_subs pm_connection_channels gr_channel_subscriber_counts gr_channel_to_threads ms r \<and>
     half_ok pm_pattern_subs pm_connection_patterns gr_pattern_subscriber_counts gr_pattern_to_threads ms r"

lemma half_ok_cong:
  assumes "half_ok subs names counts threads ms r" and "i < length ms"
    and "subs m' = subs (ms ! i)" "names m' = names (ms ! i)" "counts r' = counts r" "threads r' = threads r"
  shows "half_ok subs names counts threads (ms[i := m']) r'"
proof -
  have "map (\<lambda>m. at_key (subs m)) (ms[i := m']) = map (\<lambda>m. at_key (subs m)) ms"
    using assms by (intro nth_equalityI) (auto simp: nth_list_update)
  moreover have "tidy (subs m) \<and> tables_inverse (at_key (subs m)) (at_key (names m))" if "m \<in> set (ms[i := m'])" for m
    using set_update_subset_insert [of ms i m'] that assms unfolding half_ok_def by (metis insertE nth_mem subsetD)
  ultimately show ?thesis using assms by (simp add: half_ok_def)
qed

section \<open>The interface of a half\<close>

fun drop_each ::
  "(nat \<Rightarrow> bytes \<Rightarrow> manager \<Rightarrow> registry \<Rightarrow> manager \<times> registry) \<Rightarrow> nat \<Rightarrow> bytes list \<Rightarrow> manager \<Rightarrow> registry \<Rightarrow> manager \<times> registry" where
  "drop_each drop_name c [] m r = (m, r)"
| "drop_each drop_name c (k # ks) m r = (let (m1, r1) = drop_name c k m r in drop_each drop_name c ks m1 r1)"

locale subscription_half =
  fixes subs :: "manager \<Rightarrow> (bytes \<times> nat list) list"
    and names :: "manager \<Rightarrow> (nat \<times> bytes list) list"
    and counts :: "registry \<Rightarrow> (bytes \<times> nat) list"
    and threads :: "registry \<Rightarrow> (bytes \<times> nat list) list"
    and join_name :: "nat \<Rightarrow> bytes \<Rightarrow> manager \<Rightarrow> registry \<Rightarrow> manager \<times> registry"
    and drop_name :: "nat \<Rightarrow> bytes \<Rightarrow> manager \<Rightarrow> registry \<Rightarrow> manager \<times> registry"
  assumes join_subs: "at_key (subs (fst (join_name c k m r))) = (at_key (subs m))(k := add_once c (at_key (subs m) k))"
    and join_tidy: "tidy (subs m) \<Longrightarrow> tidy (subs (fst (join_name c k m r)))"
    and join_names: "at_key (names (fst (join_name c k m r))) =
      (at_key (names m))(c := if c \<in> set (at_key (subs m) k) then at_key (names m) c else at_key (names m) c @ [k])"
    and join_counts: "count_of (counts (snd (join_name c k m r))) =
      (count_of (counts r))(k := if c \<in> set (at_key (subs m) k) then count_of (counts r) k else Suc (count_of (counts r) k))"
    and join_threads: "tidy (subs m) \<Longrightarrow> set (at_key (threads (snd (join_name c k m r))) j) =
      (if j = k \<and> at_key (subs m) k = [] then insert (pm_thread_id m) (set (at_key (threads r) j)) else set (at_key (threads r) j))"
    and join_threads_tidy: "tidy (threads r) \<Longrightarrow> tidy (threads (snd (join_name c k m r)))"
    and drop_thread: "pm_thread_id (fst (drop_name c k m r)) = pm_thread_id m"
    and drop_subs: "at_key (subs (fst (drop_name c k m r))) = (at_key (subs m))(k := removeAll c (at_key (subs m) k))"
    and drop_tidy: "tidy (subs m) \<Longrightarrow> tidy (subs (fst (drop_name c k m r)))"
    and drop_names: "names (fst (drop_name c k m r)) = names m"
    and drop_counts: "count_of (counts (snd (drop_name c k m r))) =
      (count_of (counts r))(k := if c \<in> set (at_key (subs m) k) then count_of (counts r) k - 1 else count_of (counts r) k)"
    and drop_threads: "tidy (subs m) \<Longrightarrow> set (at_key (threads (snd (drop_name c k m r))) j) =
      (if j = k \<and> at_key (subs m) k \<noteq> [] \<and> removeAll c (at_key (subs m) k) = []
       then set (at_key (threads r) j) - {pm_thread_id m} else set (at_key (threads r) j))"
    and drop_threads_tidy: "tidy (threads r) \<Longrightarrow> tidy (threads (snd (drop_name c k m r)))"
begin

lemma shares_join:
  assumes "shares_known (map (\<lambda>m. at_key (subs m)) ms) (count_of (counts r)) (\<lambda>k. set (at_key (threads r) k))"
    and "i < length ms" and "pm_thread_id (ms ! i) = i" and "tidy (subs (ms ! i))"
    and "join_name c k (ms ! i) r = (m', r')"
  shows "shares_known (map (\<lambda>m. at_key (subs m)) (ms[i := m'])) (count_of (counts r')) (\<lambda>k. set (at_key (threads r') k))"
proof -
  have m': "m' = fst (join_name c k (ms ! i) r)" "r' = snd (join_name c k (ms ! i) r)" using assms(5) by simp_all
  let ?S = "at_key (subs (ms ! i))"
  have ss: "map (\<lambda>m. at_key (subs m)) (ms[i := m']) =
      (map (\<lambda>m. at_key (subs m)) ms)[i := (map (\<lambda>m. at_key (subs m)) ms ! i)(k := add_once c (?S k))]"
    using assms(2) by (simp add: map_update m' join_subs)
  have T: "set (at_key (threads r) k) = {j. j < length ms \<and> at_key (subs (ms ! j)) k \<noteq> []}" for k
    using assms(1) by (auto simp: shares_known_def)
  show ?thesis
    unfolding ss
  proof (rule shares_known_update [OF assms(1)])
    show "i < length (map (\<lambda>m. at_key (subs m)) ms)" using assms(2) by simp
    show "count_of (counts r') = (count_of (counts r))
        (k := count_of (counts r) k + length (add_once c (?S k)) - length ((map (\<lambda>m. at_key (subs m)) ms ! i) k))"
      using assms(2) by (simp add: m' join_counts length_add_once)
    show "(\<lambda>k. set (at_key (threads r') k)) = (\<lambda>k. set (at_key (threads r) k))
        (k := if add_once c (?S k) = [] then set (at_key (threads r) k) - {i} else insert i (set (at_key (threads r) k)))"
      using assms(2,3) join_threads [OF assms(4)] by (auto simp: m' T fun_eq_iff)
  qed
qed

lemma shares_drop:
  assumes "shares_known (map (\<lambda>m. at_key (subs m)) ms) (count_of (counts r)) (\<lambda>k. set (at_key (threads r) k))"
    and "i < length ms" and "pm_thread_id (ms ! i) = i" and "tidy (subs (ms ! i))" and "distinct (at_key (subs (ms ! i)) k)"
    and "drop_name c k (ms ! i) r = (m', r')"
  shows "shares_known (map (\<lambda>m. at_key (subs m)) (ms[i := m'])) (count_of (counts r')) (\<lambda>k. set (at_key (threads r') k))"
proof -
  have m': "m' = fst (drop_name c k (ms ! i) r)" "r' = snd (drop_name c k (ms ! i) r)" using assms(6) by simp_all
  let ?S = "at_key (subs (ms ! i))"
  have ss: "map (\<lambda>m. at_key (subs m)) (ms[i := m']) =
      (map (\<lambda>m. at_key (subs m)) ms)[i := (map (\<lambda>m. at_key (subs m)) ms ! i)(k := removeAll c (?S k))]"
    using assms(2) by (simp add: map_update m' drop_subs)
  have T: "set (at_key (threads r) k) = {j. j < length ms \<and> at_key (subs (ms ! j)) k \<noteq> []}" for k
    using assms(1) by (auto simp: shares_known_def)
  have len: "length (removeAll c (?S k)) = (if c \<in> set (?S k) then length (?S k) - 1 else length (?S k))"
    using assms(5) by (simp add: distinct_remove1_removeAll [symmetric] length_remove1)
  show ?thesis
    unfolding ss
  proof (rule shares_known_update [OF assms(1)])
    show "i < length (map (\<lambda>m. at_key (subs m)) ms)" using assms(2) by simp
    have "c \<in> set (?S k) \<Longrightarrow> 0 < length (?S k)" by auto
    then have "n + length (removeAll c (?S k)) - length (?S k) = (if c \<in> set (?S k) then n - 1 else n)" for n
      unfolding len by (auto simp del: length_greater_0_conv)
    then show "count_of (counts r') = (count_of (counts r))
        (k := count_of (counts r) k + length (removeAll c (?S k)) - length ((map (\<lambda>m. at_key (subs m)) ms ! i) k))"
      using assms(2) by (simp add: m' drop_counts)
    show "(\<lambda>k. set (at_key (threads r') k)) = (\<lambda>k. set (at_key (threads r) k))
        (k := if removeAll c (?S k) = [] then set (at_key (threads r) k) - {i} else insert i (set (at_key (threads r) k)))"
      using assms(2,3) drop_threads [OF assms(4)] by (auto simp: m' T fun_eq_iff)
  qed
qed

lemma half_join:
  assumes "half_ok subs names counts threads ms r" and "i < length ms" and "pm_thread_id (ms ! i) = i"
    and "join_name c k (ms ! i) r = (m', r')"
  shows "half_ok subs names counts threads (ms[i := m']) r'"
proof -
  have m': "m' = fst (join_name c k (ms ! i) r)" "r' = snd (join_name c k (ms ! i) r)" using assms(4) by simp_all
  have old: "tidy (subs (ms ! i))" "tables_inverse (at_key (subs (ms ! i))) (at_key (names (ms ! i)))"
    using assms(1,2) by (auto simp: half_ok_def)
  have "at_key (names m') = (at_key (names (ms ! i)))(c := add_once k (at_key (names (ms ! i)) c))"
    using add_once_inverse [OF old(2), of c k] by (auto simp: m' join_names add_once_def)
  then have "tables_inverse (at_key (subs m')) (at_key (names m'))"
    using tables_inverse_add [OF old(2), of k c] by (simp add: m' join_subs)
  moreover have "tidy (subs m')" using join_tidy [OF old(1)] by (simp add: m')
  moreover have "tidy (threads r')" using assms(1) join_threads_tidy by (simp add: half_ok_def m')
  ultimately show ?thesis
    using assms shares_join [OF _ assms(2,3) old(1) assms(4)] set_update_subset_insert [of ms i m']
    by (auto simp: half_ok_def)
qed

lemma half_leave:
  assumes "half_ok subs names counts threads ms r" and "i < length ms" and "pm_thread_id (ms ! i) = i"
    and "drop_name c k (ms ! i) r = (m1, r')" and "subs m' = subs m1"
    and "at_key (names m') = (at_key (names (ms ! i)))(c := removeAll k (at_key (names (ms ! i)) c))"
  shows "half_ok subs names counts threads (ms[i := m']) r'"
proof -
  have m1: "m1 = fst (drop_name c k (ms ! i) r)" "r' = snd (drop_name c k (ms ! i) r)" using assms(4) by simp_all
  have old: "tidy (subs (ms ! i))" "tables_inverse (at_key (subs (ms ! i))) (at_key (names (ms ! i)))"
    using assms(1,2) by (auto simp: half_ok_def)
  then have dist: "distinct (at_key (subs (ms ! i)) k)" by (simp add: tables_inverse_def)
  have "tables_inverse (at_key (subs m')) (at_key (names m'))"
    using tables_inverse_remove [OF old(2), of k c] by (simp add: assms(5,6) m1 drop_subs)
  moreover have "tidy (subs m')" using drop_tidy [OF old(1)] by (simp add: assms(5) m1)
  moreover have "tidy (threads r')" using assms(1) drop_threads_tidy by (simp add: half_ok_def m1)
  moreover have "map (\<lambda>m. at_key (subs m)) (ms[i := m']) = map (\<lambda>m. at_key (subs m)) (ms[i := m1])"
    by (simp add: map_update assms(5))
  ultimately show ?thesis
    using assms(1,2) shares_drop [OF _ assms(2,3) old(1) dist assms(4)] set_update_subset_insert [of ms i m']
    by (auto simp: half_ok_def)
qed

lemma drop_each_result:
  assumes "shares_known (map (\<lambda>m. at_key (subs m)) ms) (count_of (counts r)) (\<lambda>k. set (at_key (threads r) k))"
    and "i < length ms" and "pm_thread_id (ms ! i) = i" and "tidy (subs (ms ! i))"
    and "\<forall>k. distinct (at_key (subs (ms ! i)) k)" and "tidy (threads r)"
    and "drop_each drop_name c ks (ms ! i) r = (m', r')"
  shows "shares_known (map (\<lambda>m. at_key (subs m)) (ms[i := m'])) (count_of (counts r')) (\<lambda>k. set (at_key (threads r') k)) \<and>
     tidy (subs m') \<and> tidy (threads r') \<and> names m' = names (ms ! i) \<and> pm_thread_id m' = i \<and>
     at_key (subs m') = (\<lambda>k. if k \<in> set ks then removeAll c (at_key (subs (ms ! i)) k) else at_key (subs (ms ! i)) k)"
  using assms
proof (induction ks arbitrary: ms r)
  case (Cons k ks)
  obtain m1 r1 where d: "drop_name c k (ms ! i) r = (m1, r1)" by force
  then have m1: "m1 = fst (drop_name c k (ms ! i) r)" "r1 = snd (drop_name c k (ms ! i) r)" by simp_all
  let ?ms = "ms[i := m1]"
  have nth: "?ms ! i = m1" and len: "i < length ?ms" using Cons.prems(2) by simp_all
  have shares: "shares_known (map (\<lambda>m. at_key (subs m)) ?ms) (count_of (counts r1)) (\<lambda>k. set (at_key (threads r1) k))"
    using Cons.prems(5) by (intro shares_drop [OF Cons.prems(1-4) _ d]) simp
  have rest: "pm_thread_id (?ms ! i) = i" "tidy (subs (?ms ! i))" "\<forall>k. distinct (at_key (subs (?ms ! i)) k)" "tidy (threads r1)"
    using Cons.prems(3,5) drop_tidy [OF Cons.prems(4)] drop_threads_tidy [OF Cons.prems(6)]
    unfolding nth by (simp_all add: m1 drop_thread drop_subs distinct_removeAll)
  have "drop_each drop_name c ks (?ms ! i) r1 = (m', r')" using Cons.prems(7) d nth by simp
  note IH = Cons.IH [OF shares len rest this]
  have "names m1 = names (ms ! i)" by (simp add: m1 drop_names)
  moreover have "at_key (subs m1) = (at_key (subs (ms ! i)))(k := removeAll c (at_key (subs (ms ! i)) k))"
    by (simp add: m1 drop_subs)
  ultimately show ?case using IH by (auto simp: nth fun_eq_iff)
next
  case Nil
  then have "m' = ms ! i" "r' = r" by simp_all
  with Nil show ?case by simp
qed

lemma half_leave_all:
  assumes "half_ok subs names counts threads ms r" and "i < length ms" and "pm_thread_id (ms ! i) = i"
    and "subs mid = subs (ms ! i)" and "pm_thread_id mid = i"
    and "at_key (names mid) = (at_key (names (ms ! i)))(c := [])"
    and "drop_each drop_name c (at_key (names (ms ! i)) c) mid r = (m', r')"
  shows "half_ok subs names counts threads (ms[i := m']) r' \<and> pm_thread_id m' = i"
proof -
  have old: "tidy (subs (ms ! i))" "tables_inverse (at_key (subs (ms ! i))) (at_key (names (ms ! i)))" "tidy (threads r)"
    using assms(1,2) by (auto simp: half_ok_def)
  let ?ms = "ms[i := mid]" and ?S = "at_key (subs (ms ! i))" and ?N = "at_key (names (ms ! i))"
  have nth: "?ms ! i = mid" and len: "i < length ?ms" using assms(2) by simp_all
  have "map (\<lambda>m. at_key (subs m)) ?ms = map (\<lambda>m. at_key (subs m)) ms"
    using assms(2,4) by (intro nth_equalityI) (auto simp: nth_list_update)
  then have shares: "shares_known (map (\<lambda>m. at_key (subs m)) ?ms) (count_of (counts r)) (\<lambda>k. set (at_key (threads r) k))"
    using assms(1) by (simp add: half_ok_def)
  have res: "shares_known (map (\<lambda>m. at_key (subs m)) (?ms[i := m'])) (count_of (counts r')) (\<lambda>k. set (at_key (threads r') k)) \<and>
     tidy (subs m') \<and> tidy (threads r') \<and> names m' = names (?ms ! i) \<and> pm_thread_id m' = i \<and>
     at_key (subs m') = (\<lambda>k. if k \<in> set (?N c) then removeAll c (at_key (subs (?ms ! i)) k) else at_key (subs (?ms ! i)) k)"
    using assms(4,5,7) old by (intro drop_each_result [OF shares len]) (simp_all add: nth tables_inverse_def)
  have "at_key (subs m') = (\<lambda>k. removeAll c (?S k))"
    using res add_once_inverse [OF old(2), of c] assms(4) by (auto simp: nth fun_eq_iff removeAll_id)
  moreover have "at_key (names m') = ?N(c := [])" using res assms(6) by (simp add: nth)
  ultimately have "tables_inverse (at_key (subs m')) (at_key (names m'))"
    using tables_inverse_remove_all [OF old(2), of c] by simp
  with res assms(1,2) set_update_subset_insert [of ms i m'] show ?thesis by (auto simp: half_ok_def)
qed

end

section \<open>The two halves\<close>

definition join_channel :: "nat \<Rightarrow> bytes \<Rightarrow> manager \<Rightarrow> registry \<Rightarrow> manager \<times> registry" where
  "join_channel c k m r = snd (subscribe_one c k m r)"

definition drop_channel :: "nat \<Rightarrow> bytes \<Rightarrow> manager \<Rightarrow> registry \<Rightarrow> manager \<times> registry" where
  "drop_channel c k m r = (let (m1, r1, b) = drop_channel_subscriber c k m r
     in (m1, if b then remove_channel_interest k (pm_thread_id m1) r1 else r1))"

definition join_pattern :: "nat \<Rightarrow> bytes \<Rightarrow> manager \<Rightarrow> registry \<Rightarrow> manager \<times> registry" where
  "join_pattern c k m r = snd (psubscribe_one c k m r)"

definition drop_pattern :: "nat \<Rightarrow> bytes \<Rightarrow> manager \<Rightarrow> registry \<Rightarrow> manager \<times> registry" where
  "drop_pattern c k m r = (let (m1, r1, b) = drop_pattern_subscriber c k (trie_without k c m) r
     in (m1, if b then remove_pattern_interest k (pm_thread_id m1) r1 else r1))"

lemma removeAll_filter: "filter (\<lambda>x. x \<noteq> c) xs = removeAll c xs"
  by (induction xs) auto

lemma at_push_to [simp]: "at_key (push_to k v al) = (at_key al)(k := at_key al k @ [v])"
  by (simp add: push_to_def)

lemma at_retain_not [simp]: "at_key (retain_not k v al) = (at_key al)(k := removeAll v (at_key al k))"
  by (auto simp: retain_not_def at_key_def update_conv' removeAll_filter fun_eq_iff split: option.split)

lemma add_channel_interest_simps [simp]:
  "gr_channel_to_threads (add_channel_interest k t r) = fst (add_interest k t (gr_channel_to_threads r))"
  "gr_pattern_to_threads (add_channel_interest k t r) = gr_pattern_to_threads r"
  "gr_channel_subscriber_counts (add_channel_interest k t r) = gr_channel_subscriber_counts r"
  "gr_pattern_subscriber_counts (add_channel_interest k t r) = gr_pattern_subscriber_counts r"
  "gr_queues (add_channel_interest k t r) = gr_queues r"
  by (simp_all add: add_channel_interest_def split_beta Let_def)

lemma remove_channel_interest_simps [simp]:
  "gr_channel_to_threads (remove_channel_interest k t r) = fst (remove_interest k t (gr_channel_to_threads r))"
  "gr_pattern_to_threads (remove_channel_interest k t r) = gr_pattern_to_threads r"
  "gr_channel_subscriber_counts (remove_channel_interest k t r) = gr_channel_subscriber_counts r"
  "gr_pattern_subscriber_counts (remove_channel_interest k t r) = gr_pattern_subscriber_counts r"
  "gr_queues (remove_channel_interest k t r) = gr_queues r"
  by (simp_all add: remove_channel_interest_def split_beta Let_def)

lemma add_pattern_interest_simps [simp]:
  "gr_pattern_to_threads (add_pattern_interest k t r) = fst (add_interest k t (gr_pattern_to_threads r))"
  "gr_channel_to_threads (add_pattern_interest k t r) = gr_channel_to_threads r"
  "gr_channel_subscriber_counts (add_pattern_interest k t r) = gr_channel_subscriber_counts r"
  "gr_pattern_subscriber_counts (add_pattern_interest k t r) = gr_pattern_subscriber_counts r"
  "gr_queues (add_pattern_interest k t r) = gr_queues r"
  by (simp_all add: add_pattern_interest_def split_beta Let_def)

lemma remove_pattern_interest_simps [simp]:
  "gr_pattern_to_threads (remove_pattern_interest k t r) = fst (remove_interest k t (gr_pattern_to_threads r))"
  "gr_channel_to_threads (remove_pattern_interest k t r) = gr_channel_to_threads r"
  "gr_channel_subscriber_counts (remove_pattern_interest k t r) = gr_channel_subscriber_counts r"
  "gr_pattern_subscriber_counts (remove_pattern_interest k t r) = gr_pattern_subscriber_counts r"
  "gr_queues (remove_pattern_interest k t r) = gr_queues r"
  by (simp_all add: remove_pattern_interest_def split_beta Let_def)

lemmas count_defs = increment_channel_subscribers_def decrement_channel_subscribers_def
  increment_pattern_subscribers_def decrement_pattern_subscribers_def

lemmas half_defs = join_channel_def subscribe_one_def drop_channel_def drop_channel_subscriber_def
  join_pattern_def psubscribe_one_def drop_pattern_def drop_pattern_subscriber_def trie_without_def count_defs

lemma map_of_cases: "map_of al k = None \<Longrightarrow> at_key al k = []" "map_of al k = Some vs \<Longrightarrow> at_key al k = vs"
  by (simp_all add: at_key_def)

interpretation chan: subscription_half pm_exact_subs pm_connection_channels gr_channel_subscriber_counts
  gr_channel_to_threads join_channel drop_channel
proof (unfold_locales, goal_cases)
  case (2 m c k r) then show ?case by (auto simp: half_defs Let_def push_to_def tidy_update tidy_distinct split: if_splits)
next
  case (5 m c k r j) then show ?case by (auto simp: half_defs Let_def tidy_new)
next
  case (8 c k m r) then show ?case
    by (cases "map_of (pm_exact_subs m) k") (auto simp: half_defs Let_def removeAll_filter map_of_cases removeAll_id)
next
  case (9 m c k r) then show ?case
    by (auto simp: half_defs Let_def tidy_map_of split: option.split intro: tidy_update tidy_delete)
next
  case (11 c k m r) then show ?case
    by (cases "map_of (pm_exact_subs m) k") (auto simp: half_defs Let_def map_of_cases)
next
  case (12 m c k r j) then show ?case
    by (cases "map_of (pm_exact_subs m) k") (auto simp: half_defs Let_def removeAll_filter map_of_cases tidy_def)
qed (auto simp: half_defs Let_def add_once_def add_interest_tidy remove_interest_tidy split: option.split)

interpretation pat: subscription_half pm_pattern_subs pm_connection_patterns gr_pattern_subscriber_counts
  gr_pattern_to_threads join_pattern drop_pattern
proof (unfold_locales, goal_cases)
  case (2 m c k r) then show ?case by (auto simp: half_defs Let_def push_to_def tidy_update tidy_distinct split: if_splits)
next
  case (5 m c k r j) then show ?case by (auto simp: half_defs Let_def tidy_new)
next
  case (8 c k m r) then show ?case
    by (cases "map_of (pm_pattern_subs m) k") (auto simp: half_defs Let_def removeAll_filter map_of_cases removeAll_id)
next
  case (9 m c k r) then show ?case
    by (auto simp: half_defs Let_def tidy_map_of split: option.split intro: tidy_update tidy_delete)
next
  case (11 c k m r) then show ?case
    by (cases "map_of (pm_pattern_subs m) k") (auto simp: half_defs Let_def map_of_cases)
next
  case (12 m c k r j) then show ?case
    by (cases "map_of (pm_pattern_subs m) k") (auto simp: half_defs Let_def removeAll_filter map_of_cases tidy_def)
qed (auto simp: half_defs Let_def add_once_def add_interest_tidy remove_interest_tidy split: option.split)

text \<open>An operation on one half leaves the other as it is.\<close>

lemma channel_frame [simp]:
  "pm_thread_id (fst (join_channel c k m r)) = pm_thread_id m" "pm_thread_id (fst (drop_channel c k m r)) = pm_thread_id m"
  "pm_pattern_subs (fst (join_channel c k m r)) = pm_pattern_subs m" "pm_pattern_subs (fst (drop_channel c k m r)) = pm_pattern_subs m"
  "pm_connection_patterns (fst (join_channel c k m r)) = pm_connection_patterns m"
  "pm_connection_patterns (fst (drop_channel c k m r)) = pm_connection_patterns m"
  "gr_pattern_subscriber_counts (snd (join_channel c k m r)) = gr_pattern_subscriber_counts r"
  "gr_pattern_subscriber_counts (snd (drop_channel c k m r)) = gr_pattern_subscriber_counts r"
  "gr_pattern_to_threads (snd (join_channel c k m r)) = gr_pattern_to_threads r"
  "gr_pattern_to_threads (snd (drop_channel c k m r)) = gr_pattern_to_threads r"
  "gr_queues (snd (join_channel c k m r)) = gr_queues r" "gr_queues (snd (drop_channel c k m r)) = gr_queues r"
  by (auto simp: half_defs Let_def split: option.split)

lemma pattern_frame [simp]:
  "pm_thread_id (fst (join_pattern c k m r)) = pm_thread_id m" "pm_thread_id (fst (drop_pattern c k m r)) = pm_thread_id m"
  "pm_exact_subs (fst (join_pattern c k m r)) = pm_exact_subs m" "pm_exact_subs (fst (drop_pattern c k m r)) = pm_exact_subs m"
  "pm_connection_channels (fst (join_pattern c k m r)) = pm_connection_channels m"
  "pm_connection_channels (fst (drop_pattern c k m r)) = pm_connection_channels m"
  "gr_channel_subscriber_counts (snd (join_pattern c k m r)) = gr_channel_subscriber_counts r"
  "gr_channel_subscriber_counts (snd (drop_pattern c k m r)) = gr_channel_subscriber_counts r"
  "gr_channel_to_threads (snd (join_pattern c k m r)) = gr_channel_to_threads r"
  "gr_channel_to_threads (snd (drop_pattern c k m r)) = gr_channel_to_threads r"
  "gr_queues (snd (join_pattern c k m r)) = gr_queues r" "gr_queues (snd (drop_pattern c k m r)) = gr_queues r"
  by (auto simp: half_defs Let_def split: option.split)

lemma drop_each_channel_frame:
  "drop_each drop_channel c ks m r = (m', r') \<Longrightarrow>
   pm_pattern_subs m' = pm_pattern_subs m \<and> pm_connection_patterns m' = pm_connection_patterns m \<and>
   gr_pattern_subscriber_counts r' = gr_pattern_subscriber_counts r \<and> gr_pattern_to_threads r' = gr_pattern_to_threads r \<and>
   gr_queues r' = gr_queues r"
proof (induction ks arbitrary: m r)
  case (Cons k ks)
  obtain m1 r1 where d: "drop_channel c k m r = (m1, r1)" by force
  with Cons.prems have "drop_each drop_channel c ks m1 r1 = (m', r')" by simp
  from Cons.IH [OF this] channel_frame [of c k m r] d show ?case by simp
qed simp

lemma drop_each_pattern_frame:
  "drop_each drop_pattern c ks m r = (m', r') \<Longrightarrow>
   pm_exact_subs m' = pm_exact_subs m \<and> pm_connection_channels m' = pm_connection_channels m \<and>
   gr_channel_subscriber_counts r' = gr_channel_subscriber_counts r \<and> gr_channel_to_threads r' = gr_channel_to_threads r \<and>
   gr_queues r' = gr_queues r"
proof (induction ks arbitrary: m r)
  case (Cons k ks)
  obtain m1 r1 where d: "drop_pattern c k m r = (m1, r1)" by force
  with Cons.prems have "drop_each drop_pattern c ks m1 r1 = (m', r')" by simp
  from Cons.IH [OF this] pattern_frame [of c k m r] d show ?case by simp
qed simp

section \<open>Every operation keeps the invariant\<close>

lemma system_okI:
  assumes "system_ok ms r" and "i < length ms" and "pm_thread_id m' = i" and "length (gr_queues r') = length ms"
    and "half_ok pm_exact_subs pm_connection_channels gr_channel_subscriber_counts gr_channel_to_threads (ms[i := m']) r'"
    and "half_ok pm_pattern_subs pm_connection_patterns gr_pattern_subscriber_counts gr_pattern_to_threads (ms[i := m']) r'"
  shows "system_ok (ms[i := m']) r'"
  using assms by (auto simp: system_ok_def nth_list_update)

lemma system_okD:
  assumes "system_ok ms r" and "i < length ms"
  shows "pm_thread_id (ms ! i) = i" "length (gr_queues r) = length ms"
    "half_ok pm_exact_subs pm_connection_channels gr_channel_subscriber_counts gr_channel_to_threads ms r"
    "half_ok pm_pattern_subs pm_connection_patterns gr_pattern_subscriber_counts gr_pattern_to_threads ms r"
  using assms by (auto simp: system_ok_def)

lemma subscribe_one_ok:
  assumes "system_ok ms r" and "i < length ms" and "subscribe_one c k (ms ! i) r = (msg, m', r')"
  shows "system_ok (ms[i := m']) r'"
proof -
  note ok = system_okD [OF assms(1,2)]
  have j: "join_channel c k (ms ! i) r = (m', r')" using assms(3) by (simp add: join_channel_def)
  note frame = channel_frame [of c k "ms ! i" r, unfolded j fst_conv snd_conv]
  show ?thesis
    by (rule system_okI [OF assms(1,2) _ _ chan.half_join [OF ok(3) assms(2) ok(1) j] half_ok_cong [OF ok(4) assms(2)]])
      (simp_all add: frame ok)
qed

lemma psubscribe_one_ok:
  assumes "system_ok ms r" and "i < length ms" and "psubscribe_one c k (ms ! i) r = (msg, m', r')"
  shows "system_ok (ms[i := m']) r'"
proof -
  note ok = system_okD [OF assms(1,2)]
  have j: "join_pattern c k (ms ! i) r = (m', r')" using assms(3) by (simp add: join_pattern_def)
  note frame = pattern_frame [of c k "ms ! i" r, unfolded j fst_conv snd_conv]
  show ?thesis
    by (rule system_okI [OF assms(1,2) _ _ half_ok_cong [OF ok(3) assms(2)] pat.half_join [OF ok(4) assms(2) ok(1) j]])
      (simp_all add: frame ok)
qed

lemma unsubscribe_one_ok:
  assumes "system_ok ms r" and "i < length ms" and "unsubscribe_one c k (ms ! i) r = (msg, m', r')"
  shows "system_ok (ms[i := m']) r'"
proof -
  note ok = system_okD [OF assms(1,2)]
  obtain m1 r1 where d: "drop_channel c k (ms ! i) r = (m1, r1)" by force
  with assms(3) have m': "m' = m1\<lparr>pm_connection_channels := retain_not c k (pm_connection_channels m1)\<rparr>" "r' = r1"
    by (auto simp: unsubscribe_one_def drop_channel_def Let_def split: prod.splits if_splits)
  note frame = channel_frame [of c k "ms ! i" r, unfolded d fst_conv snd_conv]
  have "pm_connection_channels m1 = pm_connection_channels (ms ! i)" using chan.drop_names [of c k "ms ! i" r] d by simp
  then have "half_ok pm_exact_subs pm_connection_channels gr_channel_subscriber_counts gr_channel_to_threads (ms[i := m']) r'"
    using m' by (intro chan.half_leave [OF ok(3) assms(2) ok(1)]) (simp_all add: d)
  then show ?thesis
    by (intro system_okI [OF assms(1,2) _ _ _ half_ok_cong [OF ok(4) assms(2)]]) (simp_all add: m' frame ok)
qed

lemma punsubscribe_one_ok:
  assumes "system_ok ms r" and "i < length ms" and "punsubscribe_one c k (ms ! i) r = (msg, m', r')"
  shows "system_ok (ms[i := m']) r'"
proof -
  note ok = system_okD [OF assms(1,2)]
  obtain m1 r1 where d: "drop_pattern c k (ms ! i) r = (m1, r1)" by force
  with assms(3) have m': "m' = m1\<lparr>pm_connection_patterns := retain_not c k (pm_connection_patterns m1)\<rparr>" "r' = r1"
    by (auto simp: punsubscribe_one_def drop_pattern_def Let_def split: prod.splits if_splits)
  note frame = pattern_frame [of c k "ms ! i" r, unfolded d fst_conv snd_conv]
  have "pm_connection_patterns m1 = pm_connection_patterns (ms ! i)" using pat.drop_names [of c k "ms ! i" r] d by simp
  then have "half_ok pm_pattern_subs pm_connection_patterns gr_pattern_subscriber_counts gr_pattern_to_threads (ms[i := m']) r'"
    using m' by (intro pat.half_leave [OF ok(4) assms(2) ok(1)]) (simp_all add: d)
  then show ?thesis
    by (intro system_okI [OF assms(1,2) _ _ half_ok_cong [OF ok(3) assms(2)]]) (simp_all add: m' frame ok)
qed

text \<open>The loops over listed names do one such operation after the other.\<close>

fun each_name ::
  "(bytes \<Rightarrow> manager \<Rightarrow> registry \<Rightarrow> pubsub_message \<times> manager \<times> registry) \<Rightarrow> bytes list \<Rightarrow> manager \<Rightarrow> registry \<Rightarrow>
     pubsub_message list \<times> manager \<times> registry" where
  "each_name f [] m r = ([], m, r)"
| "each_name f (k # ks) m r =
     (let (msg, m1, r1) = f k m r; (msgs, m2, r2) = each_name f ks m1 r1 in (msg # msgs, m2, r2))"

lemma each_name_eqs:
  "subscribe c ks m r = each_name (subscribe_one c) ks m r"
  "unsubscribe_listed c ks m r = each_name (unsubscribe_one c) ks m r"
  "psubscribe c ks m r = each_name (psubscribe_one c) ks m r"
  "punsubscribe_listed c ks m r = each_name (punsubscribe_one c) ks m r"
  by (induction ks arbitrary: m r) auto

lemma each_name_ok:
  assumes "\<And>ms r k msg m' r'. system_ok ms r \<Longrightarrow> i < length ms \<Longrightarrow> f k (ms ! i) r = (msg, m', r') \<Longrightarrow> system_ok (ms[i := m']) r'"
    and "system_ok ms r" and "i < length ms" and "each_name f ks (ms ! i) r = (msgs, m', r')"
  shows "system_ok (ms[i := m']) r'"
  using assms(2-)
proof (induction ks arbitrary: ms r msgs)
  case Nil
  then have "m' = ms ! i" "r' = r" by simp_all
  with Nil show ?case by simp
next
  case (Cons k ks)
  obtain msg m1 r1 where f: "f k (ms ! i) r = (msg, m1, r1)" by (metis prod_cases3)
  obtain msgs' where rest: "each_name f ks m1 r1 = (msgs', m', r')" using Cons.prems(3) f by (auto simp: Let_def split: prod.splits)
  have "system_ok (ms[i := m1]) r1" using assms(1) [OF Cons.prems(1,2) f] .
  from Cons.IH [OF this] Cons.prems(2) rest show ?case by simp
qed

lemma unsubscribe_removed_drop_each:
  "snd (unsubscribe_removed c ks m r) = drop_each drop_channel c ks m r"
  by (induction ks arbitrary: m r) (auto simp: drop_channel_def Let_def split_beta)

lemma punsubscribe_removed_drop_each:
  "snd (punsubscribe_removed c ks m r) = drop_each drop_pattern c ks m r"
  by (induction ks arbitrary: m r) (auto simp: drop_pattern_def Let_def split_beta)

lemma unsubscribe_ok:
  assumes "system_ok ms r" and "i < length ms" and "unsubscribe c ks (ms ! i) r = (msgs, m', r')"
  shows "system_ok (ms[i := m']) r'"
proof (cases "ks = None \<and> map_of (pm_connection_channels (ms ! i)) c \<noteq> None")
  case False
  then show ?thesis
    using assms each_name_ok [where f = "unsubscribe_one c", OF unsubscribe_one_ok assms(1,2)]
    by (auto simp: unsubscribe_def each_name_eqs split: option.splits)
next
  case True
  note ok = system_okD [OF assms(1,2)]
  let ?m0 = "(ms ! i)\<lparr>pm_connection_channels := AList.delete c (pm_connection_channels (ms ! i))\<rparr>"
  from True obtain cs where cs: "map_of (pm_connection_channels (ms ! i)) c = Some cs" by blast
  then have at: "at_key (pm_connection_channels (ms ! i)) c = cs" by (simp add: at_key_def)
  have d: "drop_each drop_channel c cs ?m0 r = (m', r')"
    using assms(3) True cs by (simp add: unsubscribe_def flip: unsubscribe_removed_drop_each)
  note frame = drop_each_channel_frame [OF d]
  have half: "half_ok pm_exact_subs pm_connection_channels gr_channel_subscriber_counts gr_channel_to_threads (ms[i := m']) r' \<and>
      pm_thread_id m' = i"
    by (rule chan.half_leave_all [OF ok(3) assms(2) ok(1), where mid = ?m0 and c = c]) (simp_all add: ok at d)
  then show ?thesis
    using frame by (intro system_okI [OF assms(1,2) _ _ _ half_ok_cong [OF ok(4) assms(2)]]) (simp_all add: ok)
qed

lemma punsubscribe_ok:
  assumes "system_ok ms r" and "i < length ms" and "punsubscribe c ks (ms ! i) r = (msgs, m', r')"
  shows "system_ok (ms[i := m']) r'"
proof (cases "ks = None \<and> map_of (pm_connection_patterns (ms ! i)) c \<noteq> None")
  case False
  then show ?thesis
    using assms each_name_ok [where f = "punsubscribe_one c", OF punsubscribe_one_ok assms(1,2)]
    by (auto simp: punsubscribe_def each_name_eqs split: option.splits)
next
  case True
  note ok = system_okD [OF assms(1,2)]
  let ?m0 = "(ms ! i)\<lparr>pm_connection_patterns := AList.delete c (pm_connection_patterns (ms ! i))\<rparr>"
  from True obtain cs where cs: "map_of (pm_connection_patterns (ms ! i)) c = Some cs" by blast
  then have at: "at_key (pm_connection_patterns (ms ! i)) c = cs" by (simp add: at_key_def)
  have d: "drop_each drop_pattern c cs ?m0 r = (m', r')"
    using assms(3) True cs by (simp add: punsubscribe_def flip: punsubscribe_removed_drop_each)
  note frame = drop_each_pattern_frame [OF d]
  have half: "half_ok pm_pattern_subs pm_connection_patterns gr_pattern_subscriber_counts gr_pattern_to_threads (ms[i := m']) r' \<and>
      pm_thread_id m' = i"
    by (rule pat.half_leave_all [OF ok(4) assms(2) ok(1), where mid = ?m0 and c = c]) (simp_all add: ok at d)
  then show ?thesis
    using frame by (intro system_okI [OF assms(1,2) _ _ half_ok_cong [OF ok(3) assms(2)]]) (simp_all add: ok)
qed

lemma connection_dropped_ok:
  assumes "system_ok ms r" and "i < length ms" and "connection_dropped c (ms ! i) r = (m', r')"
  shows "system_ok (ms[i := m']) r'"
proof -
  obtain msgs m1 r1 where u: "unsubscribe c None (ms ! i) r = (msgs, m1, r1)" by (metis prod_cases3)
  obtain msgs' where p: "punsubscribe c None m1 r1 = (msgs', m', r')"
    using assms(3) u by (auto simp: connection_dropped_def split: prod.splits)
  have "system_ok (ms[i := m1]) r1" using unsubscribe_ok [OF assms(1,2) u] .
  from punsubscribe_ok [OF this, of i c None msgs' m' r'] p assms(2) show ?thesis by simp
qed

lemma system_ok_cong:
  assumes "system_ok ms r" and "length (gr_queues r') = length ms"
    and "gr_channel_subscriber_counts r' = gr_channel_subscriber_counts r" "gr_channel_to_threads r' = gr_channel_to_threads r"
    and "gr_pattern_subscriber_counts r' = gr_pattern_subscriber_counts r" "gr_pattern_to_threads r' = gr_pattern_to_threads r"
  shows "system_ok ms r'"
  using assms by (simp add: system_ok_def half_ok_def)

lemma length_send_to_threads [simp]: "length (send_to_threads msg ids qs) = length qs"
  by (induction msg ids qs rule: send_to_threads.induct) auto

lemma broadcast_ok: "system_ok ms r \<Longrightarrow> system_ok ms (broadcast_to_threads msg ids r)"
  by (rule system_ok_cong) (auto simp: broadcast_to_threads_def system_ok_def)

lemma process_inbox_ok: "system_ok ms r \<Longrightarrow> system_ok ms (snd (process_inbox m r))"
  by (rule system_ok_cong) (auto simp: process_inbox_def system_ok_def)

lemma system_ok_new: "system_ok (map new_manager [0..<n]) (new_global_registry n)"
  by (auto simp: system_ok_def half_ok_def new_manager_def new_global_registry_def tables_inverse_def shares_known_def o_def)

section \<open>Reachable states\<close>

text \<open>
  The workers and the registry under any sequence of operations of any workers; the patterns
  subscribed to satisfy \<open>P\<close>.
\<close>

inductive pubsub_reach :: "(bytes \<Rightarrow> bool) \<Rightarrow> nat \<Rightarrow> manager list \<Rightarrow> registry \<Rightarrow> bool" for P n where
  start: "pubsub_reach P n (map new_manager [0..<n]) (new_global_registry n)"
| sub: "pubsub_reach P n ms r \<Longrightarrow> i < length ms \<Longrightarrow> subscribe c ks (ms ! i) r = (msgs, m', r') \<Longrightarrow>
    pubsub_reach P n (ms[i := m']) r'"
| unsub: "pubsub_reach P n ms r \<Longrightarrow> i < length ms \<Longrightarrow> unsubscribe c cs (ms ! i) r = (msgs, m', r') \<Longrightarrow>
    pubsub_reach P n (ms[i := m']) r'"
| psub: "pubsub_reach P n ms r \<Longrightarrow> i < length ms \<Longrightarrow> \<forall>k \<in> set ks. P k \<Longrightarrow>
    psubscribe c ks (ms ! i) r = (msgs, m', r') \<Longrightarrow> pubsub_reach P n (ms[i := m']) r'"
| punsub: "pubsub_reach P n ms r \<Longrightarrow> i < length ms \<Longrightarrow> \<forall>ks. cs = Some ks \<longrightarrow> (\<forall>k \<in> set ks. P k) \<Longrightarrow>
    punsubscribe c cs (ms ! i) r = (msgs, m', r') \<Longrightarrow> pubsub_reach P n (ms[i := m']) r'"
| dropped: "pubsub_reach P n ms r \<Longrightarrow> i < length ms \<Longrightarrow> connection_dropped c (ms ! i) r = (m', r') \<Longrightarrow>
    pubsub_reach P n (ms[i := m']) r'"
| broadcast: "pubsub_reach P n ms r \<Longrightarrow> pubsub_reach P n ms (broadcast_to_threads msg ids r)"
| inbox: "pubsub_reach P n ms r \<Longrightarrow> i < length ms \<Longrightarrow> pubsub_reach P n ms (snd (process_inbox (ms ! i) r))"

lemma pubsub_reach_ok: "pubsub_reach P n ms r \<Longrightarrow> system_ok ms r \<and> length ms = n"
proof (induction rule: pubsub_reach.induct)
  case start
  then show ?case by (simp add: system_ok_new)
next
  case (sub ms r i c ks msgs m' r')
  then show ?case
    using each_name_ok [where f = "subscribe_one c", OF subscribe_one_ok] by (auto simp: each_name_eqs)
next
  case (psub ms r i ks c msgs m' r')
  then show ?case
    using each_name_ok [where f = "psubscribe_one c", OF psubscribe_one_ok] by (auto simp: each_name_eqs)
qed (auto intro: unsubscribe_ok punsubscribe_ok connection_dropped_ok broadcast_ok process_inbox_ok)

text \<open>Every connection is counted once per name, and the registry lists exactly the names in use.\<close>

lemma names_of_connection:
  assumes "system_ok ms r" and "i < length ms"
  shows "get_connection_subscription_count c (ms ! i) =
    card {k. c \<in> set (at_key (pm_exact_subs (ms ! i)) k)} + card {p. c \<in> set (at_key (pm_pattern_subs (ms ! i)) p)}"
proof -
  have "tables_inverse (at_key (pm_exact_subs (ms ! i))) (at_key (pm_connection_channels (ms ! i)))"
    "tables_inverse (at_key (pm_pattern_subs (ms ! i))) (at_key (pm_connection_patterns (ms ! i)))"
    using assms by (auto simp: system_ok_def half_ok_def)
  moreover have "length (N c) = card {k. c \<in> set (S k)}" if "tables_inverse S N" for S N
    using that by (simp add: tables_inverse_def distinct_card [symmetric])
  ultimately show ?thesis by (simp add: get_connection_subscription_count_def)
qed

lemma all_channels_listed:
  assumes "system_ok ms r"
  shows "distinct (get_all_channels r) \<and>
    set (get_all_channels r) = {k. \<exists>i < length ms. at_key (pm_exact_subs (ms ! i)) k \<noteq> []} \<and>
    get_pattern_count r = card {p. \<exists>i < length ms. at_key (pm_pattern_subs (ms ! i)) p \<noteq> []}"
proof -
  have tidy: "tidy (gr_channel_to_threads r)" "tidy (gr_pattern_to_threads r)"
    and T: "set (at_key (gr_channel_to_threads r) k) = {i. i < length ms \<and> at_key (pm_exact_subs (ms ! i)) k \<noteq> []}"
      "set (at_key (gr_pattern_to_threads r) k) = {i. i < length ms \<and> at_key (pm_pattern_subs (ms ! i)) k \<noteq> []}" for k
    using assms by (auto simp: system_ok_def half_ok_def shares_known_def)
  have used: "at_key al k \<noteq> [] \<longleftrightarrow> set (at_key al k) \<noteq> {}" for al :: "(bytes \<times> nat list) list" and k by simp
  have ch: "{k. at_key (gr_channel_to_threads r) k \<noteq> []} = {k. \<exists>i < length ms. at_key (pm_exact_subs (ms ! i)) k \<noteq> []}"
    unfolding used T(1) by blast
  have pt: "{k. at_key (gr_pattern_to_threads r) k \<noteq> []} = {p. \<exists>i < length ms. at_key (pm_pattern_subs (ms ! i)) p \<noteq> []}"
    unfolding used T(2) by blast
  have "length (gr_pattern_to_threads r) = card (set (map fst (gr_pattern_to_threads r)))"
    using tidy(2) distinct_card [of "map fst (gr_pattern_to_threads r)"] by (simp add: tidy_def)
  then show ?thesis
    using tidy(1) unfolding get_all_channels_def get_pattern_count_def tidy_keys [OF tidy(1)] tidy_keys [OF tidy(2)] ch pt
    by (simp add: tidy_def)
qed

lemma thread_sets:
  assumes "system_ok ms r"
  shows "get_channel_subscriber_count k r = (\<Sum>m \<leftarrow> ms. length (at_key (pm_exact_subs m) k))"
    and "get_pattern_subscriber_count k r = (\<Sum>m \<leftarrow> ms. length (at_key (pm_pattern_subs m) k))"
    and "set (get_channel_threads k r) = {i. i < length ms \<and> at_key (pm_exact_subs (ms ! i)) k \<noteq> []}"
  using assms by (auto simp: system_ok_def half_ok_def shares_known_def get_channel_subscriber_count_def
      get_pattern_subscriber_count_def get_channel_threads_def o_def)

end
