(* ===== verification/Pubsub_Delivery.thy ===== *)
theory Pubsub_Delivery
  imports Pubsub_Spec
begin

text \<open>
  Who receives a published message. In a reachable state the trie of a worker holds exactly
  its pattern subscriptions, so that publishing delivers to the subscribers of the channel,
  once each, and to the subscribers of the patterns that match it. Across threads, a worker
  with subscribers of both kinds is sent the message twice.
\<close>

section \<open>The trie holds the pattern subscriptions\<close>

definition pattern_subscriptions :: "manager \<Rightarrow> (bytes \<times> nat) set" where
  "pattern_subscriptions m = {(p, c). c \<in> set (at_key (pm_pattern_subs m) p)}"

definition trie_ok :: "(bytes \<Rightarrow> bool) \<Rightarrow> manager \<Rightarrow> bool" where
  "trie_ok P m \<longleftrightarrow> (\<forall>(p, c) \<in> pattern_subscriptions m. P p) \<and> trie_holds (pm_pattern_trie m) (pattern_subscriptions m)"

lemma trie_ok_new: "trie_ok P (new_manager i)"
  by (simp add: trie_ok_def pattern_subscriptions_def new_manager_def trie_holds_new)

lemma trie_ok_cong:
  "trie_ok P m \<Longrightarrow> pm_pattern_trie m' = pm_pattern_trie m \<Longrightarrow> pm_pattern_subs m' = pm_pattern_subs m \<Longrightarrow> trie_ok P m'"
  by (simp add: trie_ok_def pattern_subscriptions_def)

lemma trie_ok_join:
  assumes "trie_ok P m" and "P k" and "class_free (tokens k)"
  shows "trie_ok P (fst (join_pattern c k m r))"
proof -
  let ?m = "fst (join_pattern c k m r)"
  have subs: "pattern_subscriptions ?m = insert (k, c) (pattern_subscriptions m)"
    by (auto simp: pattern_subscriptions_def pat.join_subs split: if_splits)
  show ?thesis
  proof (cases "c \<in> set (at_key (pm_pattern_subs m) k)")
    case True
    then have "pattern_subscriptions ?m = pattern_subscriptions m" unfolding subs by (auto simp: pattern_subscriptions_def)
    moreover have "pm_pattern_trie ?m = pm_pattern_trie m" using True by (simp add: half_defs Let_def)
    ultimately show ?thesis using assms(1) by (simp add: trie_ok_def)
  next
    case False
    then have "pm_pattern_trie ?m = trie_insert k c (pm_pattern_trie m)" by (simp add: half_defs Let_def)
    with subs assms show ?thesis by (auto simp: trie_ok_def intro: trie_holds_insert)
  qed
qed

lemma drop_pattern_trie: "pm_pattern_trie (fst (drop_pattern c k m r)) = snd (trie_remove k c (pm_pattern_trie m))"
  by (simp add: half_defs Let_def split: option.split)

lemma trie_ok_drop:
  assumes "trie_ok P m" and "class_free (tokens k)"
  shows "trie_ok P (fst (drop_pattern c k m r))"
proof -
  have "pattern_subscriptions (fst (drop_pattern c k m r)) = pattern_subscriptions m - {(k, c)}"
    by (auto simp: pattern_subscriptions_def pat.drop_subs split: if_splits)
  with assms show ?thesis by (auto simp: trie_ok_def drop_pattern_trie intro: trie_holds_remove)
qed

lemma trie_ok_drop_each:
  "trie_ok P m \<Longrightarrow> (\<forall>k \<in> set ks. class_free (tokens k)) \<Longrightarrow> trie_ok P (fst (drop_each drop_pattern c ks m r))"
proof (induction ks arbitrary: m r)
  case (Cons k ks)
  obtain m1 r1 where d: "drop_pattern c k m r = (m1, r1)" by force
  then have "trie_ok P m1" using trie_ok_drop [of P m k c r] Cons.prems by simp
  with Cons d show ?case by simp
qed simp

lemma channel_trie [simp]:
  "pm_pattern_trie (fst (join_channel c k m r)) = pm_pattern_trie m"
  "pm_pattern_trie (fst (drop_channel c k m r)) = pm_pattern_trie m"
  by (auto simp: half_defs Let_def split: option.split)

lemma each_name_keeps:
  assumes "\<And>k m r. k \<in> set ks \<Longrightarrow> Q m \<Longrightarrow> Q (fst (snd (f k m r)))" and "Q m"
  shows "Q (fst (snd (each_name f ks m r)))"
  using assms
proof (induction ks arbitrary: m r)
  case (Cons k ks)
  obtain msg m1 r1 where f: "f k m r = (msg, m1, r1)" by (metis prod_cases3)
  have "Q m1" using Cons.prems(1) [of k m r] Cons.prems(2) f by simp
  then have "Q (fst (snd (each_name f ks m1 r1)))" using Cons.prems(1) by (intro Cons.IH) auto
  then show ?case by (simp add: f split_beta)
qed simp

lemma subscribe_one_trie:
  "trie_ok P m \<Longrightarrow> trie_ok P (fst (snd (subscribe_one c k m r)))"
  using trie_ok_cong [of P m "fst (join_channel c k m r)"] channel_trie(1) [of c k m r] channel_frame(3) [of c k m r]
  by (simp add: join_channel_def)

lemma psubscribe_one_trie:
  "trie_ok P m \<Longrightarrow> P k \<Longrightarrow> class_free (tokens k) \<Longrightarrow> trie_ok P (fst (snd (psubscribe_one c k m r)))"
  using trie_ok_join [of P m k c r] by (simp add: join_pattern_def)

lemma unsubscribe_one_trie: "trie_ok P m \<Longrightarrow> trie_ok P (fst (snd (unsubscribe_one c k m r)))"
  by (erule trie_ok_cong) (auto simp: unsubscribe_one_def drop_channel_subscriber_def Let_def split: option.split)

lemma punsubscribe_one_trie:
  assumes "trie_ok P m" and "class_free (tokens k)"
  shows "trie_ok P (fst (snd (punsubscribe_one c k m r)))"
proof -
  have "pm_pattern_trie (fst (snd (punsubscribe_one c k m r))) = pm_pattern_trie (fst (drop_pattern c k m r))"
    "pm_pattern_subs (fst (snd (punsubscribe_one c k m r))) = pm_pattern_subs (fst (drop_pattern c k m r))"
    by (simp_all add: punsubscribe_one_def drop_pattern_def Let_def split_beta)
  with trie_ok_drop [OF assms, of c r] show ?thesis by (simp add: trie_ok_def pattern_subscriptions_def)
qed

lemma drop_each_channel_trie:
  "pm_pattern_trie (fst (drop_each drop_channel c ks m r)) = pm_pattern_trie m \<and>
   pm_pattern_subs (fst (drop_each drop_channel c ks m r)) = pm_pattern_subs m"
proof (induction ks arbitrary: m r)
  case (Cons k ks)
  show ?case using Cons [of "fst (drop_channel c k m r)" "snd (drop_channel c k m r)"] by (simp add: split_beta)
qed simp

lemma unsubscribe_trie: "trie_ok P m \<Longrightarrow> trie_ok P (fst (snd (unsubscribe c ks m r)))"
proof (cases ks)
  case None
  assume ok: "trie_ok P m"
  show ?thesis
  proof (cases "map_of (pm_connection_channels m) c")
    case (Some cs)
    with None ok show ?thesis
      using drop_each_channel_trie [of c cs "m\<lparr>pm_connection_channels := AList.delete c (pm_connection_channels m)\<rparr>" r]
      by (auto simp: unsubscribe_def unsubscribe_removed_drop_each intro: trie_ok_cong)
  qed (simp add: unsubscribe_def None ok)
next
  case (Some cs)
  assume "trie_ok P m"
  then show ?thesis
    unfolding unsubscribe_def Some option.case each_name_eqs
    by (intro each_name_keeps [where Q = "trie_ok P"] unsubscribe_one_trie)
qed

lemma punsubscribe_trie:
  assumes "trie_ok P m" and "\<And>p. P p \<Longrightarrow> class_free (tokens p)" and "\<forall>ks'. ks = Some ks' \<longrightarrow> (\<forall>k \<in> set ks'. P k)"
    and "tables_inverse (at_key (pm_pattern_subs m)) (at_key (pm_connection_patterns m))"
  shows "trie_ok P (fst (snd (punsubscribe c ks m r)))"
proof (cases ks)
  case None
  show ?thesis
  proof (cases "map_of (pm_connection_patterns m) c")
    case (Some cs)
    then have "set cs = {p. c \<in> set (at_key (pm_pattern_subs m) p)}"
      using assms(4) by (auto simp: tables_inverse_def at_key_def)
    then have "\<forall>k \<in> set cs. class_free (tokens k)"
      using assms(1,2) by (auto simp: trie_ok_def pattern_subscriptions_def)
    moreover have "trie_ok P (m\<lparr>pm_connection_patterns := AList.delete c (pm_connection_patterns m)\<rparr>)"
      using assms(1) by (rule trie_ok_cong) simp_all
    ultimately show ?thesis
      using None Some by (simp add: punsubscribe_def punsubscribe_removed_drop_each trie_ok_drop_each)
  qed (simp add: punsubscribe_def None assms(1))
next
  case (Some cs)
  then show ?thesis
    using assms(2,3) unfolding punsubscribe_def Some option.case each_name_eqs
    by (intro each_name_keeps [where Q = "trie_ok P"] punsubscribe_one_trie assms(1)) auto
qed

lemma pubsub_reach_trie:
  assumes "pubsub_reach P n ms r" and "\<And>p. P p \<Longrightarrow> class_free (tokens p)"
  shows "\<forall>m \<in> set ms. trie_ok P m"
  using assms(1)
proof (induction rule: pubsub_reach.induct)
  case start
  then show ?case by (auto simp: trie_ok_new)
next
  case (sub ms r i c ks msgs m' r')
  then have "trie_ok P (fst (snd (each_name (subscribe_one c) ks (ms ! i) r)))"
    by (intro each_name_keeps [where Q = "trie_ok P"] subscribe_one_trie) auto
  with sub set_update_subset_insert [of ms i m'] show ?case by (auto simp: each_name_eqs)
next
  case (unsub ms r i c cs msgs m' r')
  then have "trie_ok P m'" using unsubscribe_trie [of P "ms ! i" c cs r] by simp
  with unsub set_update_subset_insert [of ms i m'] show ?case by auto
next
  case (psub ms r i ks c msgs m' r')
  then have "trie_ok P (fst (snd (each_name (psubscribe_one c) ks (ms ! i) r)))"
    using assms(2) by (intro each_name_keeps [where Q = "trie_ok P"] psubscribe_one_trie) auto
  with psub set_update_subset_insert [of ms i m'] show ?case by (auto simp: each_name_eqs)
next
  case (punsub ms r i cs c msgs m' r')
  have "tables_inverse (at_key (pm_pattern_subs (ms ! i))) (at_key (pm_connection_patterns (ms ! i)))"
    using pubsub_reach_ok [OF punsub.hyps(1)] punsub.hyps(2) by (auto simp: system_ok_def half_ok_def)
  then have "trie_ok P m'"
    using punsubscribe_trie [of P "ms ! i" cs c r] punsub assms(2) by simp
  with punsub set_update_subset_insert [of ms i m'] show ?case by auto
next
  case (dropped ms r i c m' r')
  obtain msgs m1 r1 where u: "unsubscribe c None (ms ! i) r = (msgs, m1, r1)" by (metis prod_cases3)
  obtain msgs' where p: "punsubscribe c None m1 r1 = (msgs', m', r')"
    using dropped.hyps(3) u by (auto simp: connection_dropped_def split: prod.splits)
  have "system_ok (ms[i := m1]) r1" using unsubscribe_ok [OF _ dropped.hyps(2) u] pubsub_reach_ok [OF dropped.hyps(1)] by simp
  then have "tables_inverse (at_key (pm_pattern_subs m1)) (at_key (pm_connection_patterns m1))"
    using dropped.hyps(2) by (auto simp: system_ok_def half_ok_def set_update_memI)
  moreover have "trie_ok P m1" using unsubscribe_trie [of P "ms ! i" c None r] u dropped by simp
  ultimately have "trie_ok P m'" using punsubscribe_trie [of P m1 None c r1] p assms(2) by simp
  with dropped set_update_subset_insert [of ms i m'] show ?case by auto
qed

section \<open>Deliveries\<close>

definition literal_pattern :: "bytes \<Rightarrow> bool" where
  "literal_pattern p \<longleftrightarrow> plain_pattern p \<and> (\<forall>q. p \<noteq> q @ ''**'')"

lemma pattern_deliveries_reach:
  assumes "pubsub_reach literal_pattern n ms r" and "i < n"
  shows "set (pattern_deliveries channel message (ms ! i)) =
    {(c, PPatternMessage p channel message) |c p. c \<in> set (at_key (pm_pattern_subs (ms ! i)) p) \<and> matches p channel}"
proof -
  have "trie_ok literal_pattern (ms ! i)"
    using pubsub_reach_trie [OF assms(1)] pubsub_reach_ok [OF assms(1)] assms(2)
    by (auto simp: literal_pattern_def class_free_plain)
  then have "trie_holds (pm_pattern_trie (ms ! i)) (pattern_subscriptions (ms ! i))"
    and P: "\<And>p c. c \<in> set (at_key (pm_pattern_subs (ms ! i)) p) \<Longrightarrow> literal_pattern p"
    by (auto simp: trie_ok_def pattern_subscriptions_def)
  note find = find_matches_holds [OF this(1), of channel]
  have "tmatch (tokens p) channel = matches p channel" if "c \<in> set (at_key (pm_pattern_subs (ms ! i)) p)" for c p
    using P [OF that] by (simp add: literal_pattern_def tokens_plain tmatch_matches)
  then show ?thesis
    unfolding pattern_deliveries_def set_map find by (force simp: pattern_subscriptions_def image_iff)
qed

lemma exact_deliveries_reach:
  assumes "pubsub_reach P n ms r" and "i < n"
  shows "distinct (at_key (pm_exact_subs (ms ! i)) channel)"
  using pubsub_reach_ok [OF assms(1)] assms(2) by (auto simp: system_ok_def half_ok_def tables_inverse_def)

end
