(* ===== verification/Pubsub_Mode.thy ===== *)
theory Pubsub_Mode
  imports Pubsub_Handler Pubsub_Delivery
begin

text \<open>
  The pub/sub mode of a connection follows the tables of its worker: after every operation
  the subscription count that the connection keeps is the number of its channels and
  patterns, and no operation changes the count of another connection.
\<close>

definition mode_agrees :: "connection \<Rightarrow> manager \<Rightarrow> bool" where
  "mode_agrees conn m \<longleftrightarrow> cn_subscription_count conn = get_connection_subscription_count (cn_connection_id conn) m"

lemma queue_replies_simps [simp]:
  "cn_connection_id (queue_replies f msgs conn) = cn_connection_id conn"
  "cn_write_buffer (queue_replies f msgs conn) = cn_write_buffer conn"
  "cn_write_position (queue_replies f msgs conn) = cn_write_position conn"
  "cn_closed (queue_replies f msgs conn) = cn_closed conn"
  "cn_parser (queue_replies f msgs conn) = cn_parser conn"
  "cn_pending_pubsub_messages (queue_replies f msgs conn) = cn_pending_pubsub_messages conn @ msgs"
  by (induction f msgs conn rule: queue_replies.induct)
    (simp_all add: queue_pubsub_message_def set_subscription_count_def Let_def split: option.split)

lemma set_count_queued [simp]:
  "cn_subscription_count (queue_pubsub_message msg (set_subscription_count n conn)) = n"
  by (simp add: queue_pubsub_message_def set_subscription_count_def Let_def)

lemma each_name_count:
  assumes "\<And>k m r. sel (fst (f k m r)) = Some (get_connection_subscription_count c (fst (snd (f k m r))))"
    and "cn_subscription_count conn = get_connection_subscription_count c m" and "each_name f ks m r = (msgs, m', r')"
  shows "cn_subscription_count (queue_replies sel msgs conn) = get_connection_subscription_count c m'"
  using assms(2,3)
proof (induction ks arbitrary: m r msgs conn)
  case (Cons k ks)
  obtain msg m1 r1 where f: "f k m r = (msg, m1, r1)" by (metis prod_cases3)
  obtain msgs1 where rest: "each_name f ks m1 r1 = (msgs1, m', r')" "msgs = msg # msgs1"
    using Cons.prems(2) f by (auto simp: Let_def split: prod.splits)
  have "sel msg = Some (get_connection_subscription_count c m1)" using assms(1) [of k m r] f by simp
  then show ?case using Cons.IH [OF _ rest(1)] by (simp add: rest(2))
qed simp

lemma one_counts:
  "subscribe_count (fst (subscribe_one c k m r)) = Some (get_connection_subscription_count c (fst (snd (subscribe_one c k m r))))"
  "unsubscribe_count (fst (unsubscribe_one c k m r)) = Some (get_connection_subscription_count c (fst (snd (unsubscribe_one c k m r))))"
  "psubscribe_count (fst (psubscribe_one c k m r)) = Some (get_connection_subscription_count c (fst (snd (psubscribe_one c k m r))))"
  "punsubscribe_count (fst (punsubscribe_one c k m r)) = Some (get_connection_subscription_count c (fst (snd (punsubscribe_one c k m r))))"
  by (simp_all add: subscribe_count_def unsubscribe_count_def psubscribe_count_def punsubscribe_count_def
      subscribe_one_def unsubscribe_one_def psubscribe_one_def punsubscribe_one_def Let_def split_beta)

lemma drop_names_frame:
  "pm_connection_channels (fst (drop_channel_subscriber c k m r)) = pm_connection_channels m"
  "pm_connection_patterns (fst (drop_channel_subscriber c k m r)) = pm_connection_patterns m"
  "pm_connection_channels (fst (drop_pattern_subscriber c k m r)) = pm_connection_channels m"
  "pm_connection_patterns (fst (drop_pattern_subscriber c k m r)) = pm_connection_patterns m"
  "pm_connection_channels (trie_without k c m) = pm_connection_channels m"
  "pm_connection_patterns (trie_without k c m) = pm_connection_patterns m"
  by (auto simp: drop_channel_subscriber_def drop_pattern_subscriber_def trie_without_def Let_def split: option.split)

lemma count_cong:
  "pm_connection_channels m' = pm_connection_channels m \<Longrightarrow> pm_connection_patterns m' = pm_connection_patterns m \<Longrightarrow>
   get_connection_subscription_count c m' = get_connection_subscription_count c m"
  by (simp add: get_connection_subscription_count_def)

lemma removed_count:
  "unsubscribe_removed c ks m r = (msgs, m', r') \<Longrightarrow>
     pm_connection_channels m' = pm_connection_channels m \<and> pm_connection_patterns m' = pm_connection_patterns m \<and>
     cn_subscription_count (queue_replies unsubscribe_count msgs conn) =
       (if ks = [] then cn_subscription_count conn else get_connection_subscription_count c m)"
proof (induction ks arbitrary: m r msgs conn)
  case (Cons k ks)
  let ?d = "drop_channel_subscriber c k m r"
  let ?m1 = "fst ?d"
  obtain msgs1 r2 where rest: "unsubscribe_removed c ks ?m1 r2 = (msgs1, m', r')"
    "msgs = PUnsubscribed (Some k) (get_connection_subscription_count c ?m1) # msgs1"
    using Cons.prems by (auto simp: Let_def split: prod.splits)
  have "get_connection_subscription_count c ?m1 = get_connection_subscription_count c m"
    by (intro count_cong drop_names_frame)
  then show ?case using Cons.IH [OF rest(1)] by (auto simp: rest(2) drop_names_frame unsubscribe_count_def)
qed simp

lemma premoved_count:
  "punsubscribe_removed c ks m r = (msgs, m', r') \<Longrightarrow>
     pm_connection_channels m' = pm_connection_channels m \<and> pm_connection_patterns m' = pm_connection_patterns m \<and>
     cn_subscription_count (queue_replies punsubscribe_count msgs conn) =
       (if ks = [] then cn_subscription_count conn else get_connection_subscription_count c m)"
proof (induction ks arbitrary: m r msgs conn)
  case (Cons k ks)
  let ?d = "drop_pattern_subscriber c k (trie_without k c m) r"
  let ?m1 = "fst ?d"
  obtain msgs1 r2 where rest: "punsubscribe_removed c ks ?m1 r2 = (msgs1, m', r')"
    "msgs = PPUnsubscribed (Some k) (get_connection_subscription_count c ?m1) # msgs1"
    using Cons.prems by (auto simp: Let_def split: prod.splits)
  have "get_connection_subscription_count c ?m1 = get_connection_subscription_count c m"
    by (intro count_cong) (simp_all add: drop_names_frame)
  then show ?case using Cons.IH [OF rest(1)] by (auto simp: rest(2) drop_names_frame punsubscribe_count_def)
qed simp

lemma unsubscribe_count_agrees:
  assumes "cn_subscription_count conn = get_connection_subscription_count c m" and "unsubscribe c ks m r = (msgs, m', r')"
  shows "cn_subscription_count (queue_replies unsubscribe_count msgs conn) = get_connection_subscription_count c m'"
proof (cases ks)
  case None
  show ?thesis
  proof (cases "map_of (pm_connection_channels m) c")
    case (Some cs)
    let ?mid = "m\<lparr>pm_connection_channels := AList.delete c (pm_connection_channels m)\<rparr>"
    from None Some assms(2) have u: "unsubscribe_removed c cs ?mid r = (msgs, m', r')" by (simp add: unsubscribe_def)
    have "cs = [] \<Longrightarrow> get_connection_subscription_count c ?mid = get_connection_subscription_count c m"
      using Some by (simp add: get_connection_subscription_count_def at_key_def delete_conv')
    with removed_count [OF u, of conn] count_cong [of m' ?mid c] assms(1) show ?thesis by simp
  qed (use None assms in \<open>simp add: unsubscribe_def\<close>)
next
  case (Some cs)
  with assms show ?thesis
    using each_name_count [where sel = unsubscribe_count and f = "unsubscribe_one c", OF one_counts(2)]
    by (simp add: unsubscribe_def each_name_eqs)
qed

lemma punsubscribe_count_agrees:
  assumes "cn_subscription_count conn = get_connection_subscription_count c m" and "punsubscribe c ks m r = (msgs, m', r')"
  shows "cn_subscription_count (queue_replies punsubscribe_count msgs conn) = get_connection_subscription_count c m'"
proof (cases ks)
  case None
  show ?thesis
  proof (cases "map_of (pm_connection_patterns m) c")
    case (Some cs)
    let ?mid = "m\<lparr>pm_connection_patterns := AList.delete c (pm_connection_patterns m)\<rparr>"
    from None Some assms(2) have u: "punsubscribe_removed c cs ?mid r = (msgs, m', r')" by (simp add: punsubscribe_def)
    have "cs = [] \<Longrightarrow> get_connection_subscription_count c ?mid = get_connection_subscription_count c m"
      using Some by (simp add: get_connection_subscription_count_def at_key_def delete_conv')
    with premoved_count [OF u, of conn] count_cong [of m' ?mid c] assms(1) show ?thesis by simp
  qed (use None assms in \<open>simp add: punsubscribe_def\<close>)
next
  case (Some cs)
  with assms show ?thesis
    using each_name_count [where sel = punsubscribe_count and f = "punsubscribe_one c", OF one_counts(4)]
    by (simp add: punsubscribe_def each_name_eqs)
qed

lemma handle_keeps_id:
  "handle_pubsub_operation m r c q conn t = (ds, m', r', conn') \<Longrightarrow> cn_connection_id conn' = cn_connection_id conn"
  by (auto simp: handle_pubsub_operation_def reply_def split: pubsub_op.splits prod.splits)

lemma handle_mode_agrees:
  assumes "mode_agrees conn m" and "handle_pubsub_operation m r (cn_connection_id conn) q conn t = (ds, m', r', conn')"
  shows "mode_agrees conn' m'"
proof -
  note start = assms(1) [unfolded mode_agrees_def]
  show ?thesis
    using assms(2) start
      each_name_count [where sel = subscribe_count and f = "subscribe_one (cn_connection_id conn)", OF one_counts(1) start]
      each_name_count [where sel = psubscribe_count and f = "psubscribe_one (cn_connection_id conn)", OF one_counts(3) start]
      unsubscribe_count_agrees [OF start] punsubscribe_count_agrees [OF start]
    by (cases q) (auto simp: handle_pubsub_operation_def mode_agrees_def each_name_eqs reply_def split: prod.splits)
qed

section \<open>Other connections\<close>

lemma each_name_names:
  assumes "\<And>k m r. at_key (pm_connection_channels (fst (snd (f k m r)))) d = at_key (pm_connection_channels m) d \<and>
      at_key (pm_connection_patterns (fst (snd (f k m r)))) d = at_key (pm_connection_patterns m) d"
  shows "at_key (pm_connection_channels (fst (snd (each_name f ks m r)))) d = at_key (pm_connection_channels m) d \<and>
      at_key (pm_connection_patterns (fst (snd (each_name f ks m r)))) d = at_key (pm_connection_patterns m) d"
  using assms by (induction ks arbitrary: m r) (simp_all add: split_beta)

lemma one_names:
  assumes "d \<noteq> c" and "f \<in> {subscribe_one c, unsubscribe_one c, psubscribe_one c, punsubscribe_one c}"
  shows "at_key (pm_connection_channels (fst (snd (f k m r)))) d = at_key (pm_connection_channels m) d \<and>
      at_key (pm_connection_patterns (fst (snd (f k m r)))) d = at_key (pm_connection_patterns m) d"
  using assms by (auto simp: subscribe_one_def unsubscribe_one_def psubscribe_one_def punsubscribe_one_def Let_def
      split_beta drop_names_frame)

lemma handle_other_counts:
  assumes "handle_pubsub_operation m r c q conn t = (ds, m', r', conn')" and "d \<noteq> c"
  shows "get_connection_subscription_count d m' = get_connection_subscription_count d m"
proof -
  have each: "f \<in> {subscribe_one c, unsubscribe_one c, psubscribe_one c, punsubscribe_one c} \<Longrightarrow>
      each_name f ks m r = (msgs, m', r') \<Longrightarrow> ?thesis" for f ks msgs
    using each_name_names [of f d ks m r, OF one_names [where f = f, OF assms(2)]] by (simp add: get_connection_subscription_count_def)
  have removed: "unsubscribe_removed c ks (m\<lparr>pm_connection_channels := AList.delete c al\<rparr>) r = (msgs, m', r') \<Longrightarrow>
      al = pm_connection_channels m \<Longrightarrow> ?thesis" for ks al msgs
    using removed_count [where conn = conn] assms(2) by (fastforce simp: get_connection_subscription_count_def)
  have premoved: "punsubscribe_removed c ks (m\<lparr>pm_connection_patterns := AList.delete c al\<rparr>) r = (msgs, m', r') \<Longrightarrow>
      al = pm_connection_patterns m \<Longrightarrow> ?thesis" for ks al msgs
    using premoved_count [where conn = conn] assms(2) by (fastforce simp: get_connection_subscription_count_def)
  show ?thesis
    using assms(1) each removed premoved
    by (cases q) (auto simp: handle_pubsub_operation_def unsubscribe_def punsubscribe_def each_name_eqs
        split: prod.splits option.splits)
qed

end
