(* ===== verification/Publish_Spec.thy ===== *)
theory Publish_Spec
  imports Pubsub_Mode
begin

text \<open>
  PUBLISH across the workers: who is sent the message, what the other workers make of it, and
  the number that is replied.
\<close>

lemma send_nth:
  "distinct ids \<Longrightarrow> j < length qs \<Longrightarrow>
   send_to_threads msg ids qs ! j = (if j \<in> set ids then try_send msg (qs ! j) else qs ! j)"
  by (induction msg ids qs rule: send_to_threads.induct) (auto simp: nth_list_update)

lemma broadcast_simps [simp]:
  "gr_channel_subscriber_counts (broadcast_to_threads msg ids r) = gr_channel_subscriber_counts r"
  "gr_pattern_subscriber_counts (broadcast_to_threads msg ids r) = gr_pattern_subscriber_counts r"
  "gr_pattern_to_threads (broadcast_to_threads msg ids r) = gr_pattern_to_threads r"
  "gr_channel_to_threads (broadcast_to_threads msg ids r) = gr_channel_to_threads r"
  "gr_queues (broadcast_to_threads msg ids r) = send_to_threads msg ids (gr_queues r)"
  by (simp_all add: broadcast_to_threads_def)

lemma pattern_threads:
  assumes "system_ok ms r"
  shows "distinct (get_all_pattern_threads r)"
    and "set (get_all_pattern_threads r) = {j. j < length ms \<and> (\<exists>p. at_key (pm_pattern_subs (ms ! j)) p \<noteq> [])}"
proof -
  show "distinct (get_all_pattern_threads r)" by (simp add: get_all_pattern_threads_def)
  have tidy: "tidy (gr_pattern_to_threads r)"
    and T: "set (at_key (gr_pattern_to_threads r) p) = {i. i < length ms \<and> at_key (pm_pattern_subs (ms ! i)) p \<noteq> []}" for p
    using assms by (auto simp: system_ok_def half_ok_def shares_known_def)
  have "(\<Union>e \<in> set al. set (snd e)) = (\<Union>p. set (at_key al p))" if "tidy al" for al :: "(bytes \<times> nat list) list"
    using that by (auto simp: tidy_def at_key_def split: option.splits intro: map_of_SomeD dest: map_of_SomeD)
      (metis map_of_eq_Some_iff option.simps(5))
  then have "set (get_all_pattern_threads r) = (\<Union>p. set (at_key (gr_pattern_to_threads r) p))"
    using tidy by (simp add: get_all_pattern_threads_def)
  then show "set (get_all_pattern_threads r) = {j. j < length ms \<and> (\<exists>p. at_key (pm_pattern_subs (ms ! j)) p \<noteq> [])}"
    by (auto simp: T)
qed

definition sent_to :: "manager list \<Rightarrow> nat \<Rightarrow> nat \<Rightarrow> bytes \<Rightarrow> bytes \<Rightarrow> (nat \<times> pubsub_message) list" where
  "sent_to ms i j channel message =
     (if j = i then []
      else (if at_key (pm_exact_subs (ms ! j)) channel \<noteq> [] then publish_local channel message (ms ! j) else []) @
        (if \<exists>p. at_key (pm_pattern_subs (ms ! j)) p \<noteq> [] then pattern_deliveries channel message (ms ! j) else []))"

lemma publish_across:
  assumes "system_ok ms r" and "j < length ms" and "length (gr_queues r ! j) + 2 \<le> QUEUE_BOUND"
    and "publish m r channel message i = (ds, r1, replied)"
  shows "fst (process_inbox (ms ! j) r1) = fst (process_inbox (ms ! j) r) @ sent_to ms i j channel message"
proof -
  have j: "j < length (gr_queues r)" "pm_thread_id (ms ! j) = j" using assms(1,2) by (auto simp: system_ok_def)
  have d: "distinct (get_channel_threads channel r)"
    using assms(1) by (simp add: system_ok_def half_ok_def get_channel_threads_def tidy_distinct)
  have in_channel: "j \<in> set (get_channel_threads channel r) \<longleftrightarrow> at_key (pm_exact_subs (ms ! j)) channel \<noteq> []"
    using thread_sets(3) [OF assms(1), of channel] assms(2) by simp
  have in_patterns: "j \<in> set (get_all_pattern_threads r) \<longleftrightarrow> (\<exists>p. at_key (pm_pattern_subs (ms ! j)) p \<noteq> [])"
    using pattern_threads(2) [OF assms(1)] assms(2) by simp
  have q: "gr_queues r1 ! j = gr_queues r ! j @
      (if at_key (pm_exact_subs (ms ! j)) channel \<noteq> [] then [BPublish channel message (Some i)] else []) @
      (if \<exists>p. at_key (pm_pattern_subs (ms ! j)) p \<noteq> [] then [BPatternPublish channel message (Some i)] else [])"
    using assms(3,4) j(1)
    by (auto simp: publish_def Let_def send_nth d pattern_threads(1) [OF assms(1)] in_channel in_patterns try_send_def)
  show ?thesis
    using j(2) q by (cases "j = i") (simp_all add: process_inbox_def sent_to_def deliver_broadcast_def)
qed

lemma publish_total:
  assumes "system_ok ms r" and "publish m r channel message i = (ds, r1, replied)"
  shows "ds = publish_local channel message m \<and>
    replied = (\<Sum>m \<leftarrow> ms. length (at_key (pm_exact_subs m) channel)) + get_total_pattern_matches channel r \<and>
    system_ok ms r1"
proof -
  have r1: "r1 = broadcast_to_threads (BPatternPublish channel message (Some i)) (get_all_pattern_threads r)
      (broadcast_to_threads (BPublish channel message (Some i)) (get_channel_threads channel r) r)"
    using assms(2) by (simp add: publish_def Let_def)
  have "system_ok ms r1" unfolding r1 using broadcast_ok [OF broadcast_ok [OF assms(1)]] .
  with assms thread_sets(1) [OF this, of channel] show ?thesis
    by (auto simp: publish_def Let_def get_total_pattern_matches_def)
qed

text \<open>What one worker delivers for a message, whether it is the publishing one or another.\<close>

definition delivered :: "manager list \<Rightarrow> nat \<Rightarrow> nat \<Rightarrow> bytes \<Rightarrow> bytes \<Rightarrow> (nat \<times> pubsub_message) list" where
  "delivered ms i j channel message =
     (if j = i then publish_local channel message (ms ! i) else sent_to ms i j channel message)"

lemma delivered_set:
  assumes "pubsub_reach literal_pattern n ms r" and "i < n" and "j < n"
  shows "set (delivered ms i j channel message) =
    {(c, PMessage channel message) |c. c \<in> set (at_key (pm_exact_subs (ms ! j)) channel)} \<union>
    {(c, PPatternMessage p channel message) |c p. c \<in> set (at_key (pm_pattern_subs (ms ! j)) p) \<and> matches p channel}"
  using pattern_deliveries_reach [OF assms(1,3), of channel message]
  by (auto simp: delivered_def sent_to_def publish_local_def image_iff)

lemma delivered_twice:
  assumes "i \<noteq> j" and "c \<in> set (at_key (pm_exact_subs (ms ! j)) channel)" and "at_key (pm_pattern_subs (ms ! j)) p \<noteq> []"
  shows "delivered ms i j channel message =
    publish_local channel message (ms ! j) @ pattern_deliveries channel message (ms ! j)"
  using assms by (auto simp: delivered_def sent_to_def)

end
