(* ===== verification/Server_Spec.thy ===== *)
theory Server_Spec
  imports Server_Frame Publish_Spec
begin

text \<open>
  The invariant of the running server over all workers: the bookkeeping of pub/sub, the pub/sub
  mode of every connection, the client registry and the number of active connections all
  agree with the connections that the workers hold. It is kept by every event.
\<close>

section \<open>Writing\<close>

lemma consume_keeps [simp]:
  "identity (consume_writes n conn) = identity conn" "cn_closed (consume_writes n conn) = cn_closed conn"
  by (simp_all add: consume_writes_def identity_def)

lemma write_pending_keeps:
  "write_pending ws sk conn = (b, sk1, conn1) \<Longrightarrow>
     identity conn1 = identity conn \<and> cn_closed conn1 = cn_closed conn \<and> sk_writable sk1 = sk_writable sk"
proof (induction ws arbitrary: sk conn)
  case (Cons result results)
  show ?case
  proof (cases "\<exists>data n. pending_writes conn = Some data \<and> result = Wrote n \<and> \<not> n < length data")
    case False
    with Cons.prems show ?thesis by (auto simp: Let_def split: option.splits write_result.splits if_splits)
  next
    case True
    then obtain data n where "pending_writes conn = Some data" "result = Wrote n" "\<not> n < length data" by blast
    with Cons.prems have "write_pending results (sk\<lparr>sk_sent := sk_sent sk @ data\<rparr>) (consume_writes (length data) conn) = (b, sk1, conn1)"
      by (simp add: min_def split: if_splits)
    from Cons.IH [OF this] show ?thesis by simp
  qed
qed simp

lemma unwritten_consume [simp]: "unwritten (consume_writes n conn) = drop n (unwritten conn)"
  by (simp add: consume_writes_def unwritten_def add.commute)

text \<open>The loop makes one call at most, and what is sent and what remains is what there was.\<close>

lemma write_pending_once: "write_pending (result # ws) sk conn = write_pending [result] sk conn"
proof -
  have "pending_writes (consume_writes (length (unwritten conn)) conn) = None" by (simp add: pending_writes_unwritten)
  then have "write_pending ws sk' (consume_writes (length (unwritten conn)) conn) =
      (False, sk', consume_writes (length (unwritten conn)) conn)" for sk' by (cases ws) simp_all
  then show ?thesis
    by (cases result) (auto simp: pending_writes_unwritten Let_def min_def split: option.split)
qed

lemma write_pending_conserves:
  assumes "write_pending ws sk conn = (b, sk1, conn1)"
  shows "sk_sent sk1 @ unwritten conn1 = sk_sent sk @ unwritten conn"
proof (cases ws)
  case Nil
  with assms show ?thesis by simp
next
  case (Cons result ws')
  then have "write_pending [result] sk conn = (b, sk1, conn1)" using assms write_pending_once [of result ws' sk conn] by simp
  then show ?thesis
    by (auto simp: pending_writes_unwritten Let_def split: if_splits write_result.splits)
qed

section \<open>Deliveries\<close>

fun skeleton_of :: "nat \<times> socket \<times> connection \<Rightarrow> nat \<times> nat \<times> nat \<times> bool" where
  "skeleton_of (token, sk, conn) = (token, cn_connection_id conn, cn_subscription_count conn, cn_closed conn)"

abbreviation skeleton :: "(nat \<times> socket \<times> connection) list \<Rightarrow> (nat \<times> nat \<times> nat \<times> bool) list" where
  "skeleton conns \<equiv> map skeleton_of conns"

lemma write_messages_simps [simp]:
  "cn_connection_id (write_messages ms conn) = cn_connection_id conn"
  "cn_subscription_count (write_messages ms conn) = cn_subscription_count conn"
  "cn_closed (write_messages ms conn) = cn_closed conn"
  by (induction ms conn rule: write_messages.induct) (simp_all add: reply_def)

lemma process_messages_simps [simp]:
  "cn_connection_id (process_pubsub_messages conn) = cn_connection_id conn"
  "cn_subscription_count (process_pubsub_messages conn) = cn_subscription_count conn"
  "cn_closed (process_pubsub_messages conn) = cn_closed conn"
  by (simp_all add: process_pubsub_messages_def)

lemma queue_message_simps [simp]:
  "cn_connection_id (queue_pubsub_message msg conn) = cn_connection_id conn"
  "cn_subscription_count (queue_pubsub_message msg conn) = cn_subscription_count conn"
  "cn_closed (queue_pubsub_message msg conn) = cn_closed conn"
  by (simp_all add: queue_pubsub_message_def)

lemma identityD:
  "identity conn1 = identity conn \<Longrightarrow> cn_connection_id conn1 = cn_connection_id conn \<and>
     cn_subscription_count conn1 = cn_subscription_count conn"
  by (simp add: identity_def)

lemma deliver_message_skeleton [simp]: "skeleton (deliver_message c msg ws conns) = skeleton conns"
proof (induction c msg ws conns rule: deliver_message.induct)
  case (2 c msg ws token sk conn rest)
  let ?conn = "process_pubsub_messages (queue_pubsub_message msg conn)"
  obtain b sk1 conn1 where w: "write_pending ws sk ?conn = (b, sk1, conn1)" by (metis prod_cases3)
  with write_pending_keeps [OF w] 2 show ?case by (auto dest: identityD)
qed simp

lemma deliver_messages_skeleton [simp]: "skeleton (deliver_messages ds ws conns) = skeleton conns"
  by (induction ds ws conns rule: deliver_messages.induct) simp_all

section \<open>The invariant\<close>

definition ids :: "worker \<Rightarrow> nat list" where
  "ids wk = map (\<lambda>(token, sk, conn). cn_connection_id conn) (wk_connections wk)"

lemma ids_skeleton: "ids wk = map (\<lambda>(token, c, n, closed). c) (skeleton (wk_connections wk))"
  by (auto simp: ids_def)

lemma ids_distinct:
  "distinct (ids wk) \<Longrightarrow> (t, sk, conn) \<in> set (wk_connections wk) \<Longrightarrow> (t', sk', conn') \<in> set (wk_connections wk) \<Longrightarrow>
     t \<noteq> t' \<Longrightarrow> cn_connection_id conn \<noteq> cn_connection_id conn'"
  using inj_onD [of "\<lambda>(token, sk, conn). cn_connection_id conn" "set (wk_connections wk)" "(t, sk, conn)" "(t', sk', conn')"]
  by (auto simp: ids_def distinct_map)

definition worker_ok :: "nat \<Rightarrow> nat \<Rightarrow> worker \<Rightarrow> bool" where
  "worker_ok next_id i wk \<longleftrightarrow> wk_thread_id wk = i \<and> distinct (map fst (wk_connections wk)) \<and>
     (\<forall>(token, c, n, closed) \<in> set (skeleton (wk_connections wk)). token < wk_next_token wk \<and> c < next_id \<and>
        n = get_connection_subscription_count c (wk_manager wk) \<and> \<not> closed) \<and>
     (\<forall>c. get_connection_subscription_count c (wk_manager wk) \<noteq> 0 \<longrightarrow> c \<in> set (ids wk))"

definition all_ids :: "worker list \<Rightarrow> nat list" where
  "all_ids ws = concat (map ids ws)"

text \<open>\<open>gone\<close> counts the connections that workers have closed at shutdown.\<close>

definition server_ok :: "u64 \<Rightarrow> worker list \<Rightarrow> 's shared \<Rightarrow> bool" where
  "server_ok gone ws sh \<longleftrightarrow> system_ok (map wk_manager ws) (sh_registry sh) \<and>
     (\<forall>i < length ws. worker_ok (sh_connection_id sh) i (ws ! i)) \<and>
     distinct (all_ids ws) \<and> registry_ok (wd_clients (sh_world sh)) \<and>
     (\<forall>c. get_client c (wd_clients (sh_world sh)) \<noteq> None \<longleftrightarrow> c \<in> set (all_ids ws)) \<and>
     sh_active_connections sh = word_of_nat (length (all_ids ws)) + gone"

lemma all_ids_around: "i < length ws \<Longrightarrow> \<exists>A B. \<forall>wk. all_ids (ws[i := wk]) = A @ ids wk @ B"
  by (intro exI [of _ "concat (map ids (take i ws))"] exI [of _ "concat (map ids (drop (Suc i) ws))"])
    (simp add: all_ids_def upd_conv_take_nth_drop)

lemma all_ids_same: "i < length ws \<Longrightarrow> ids wk = ids (ws ! i) \<Longrightarrow> all_ids (ws[i := wk]) = all_ids ws"
  using all_ids_around [of i ws] by (metis list_update_id)

lemma server_ok_start:
  "server_ok 0 (start_workers config) (new_shared env config s)"
proof -
  have "all_ids (start_workers config) = []" by (simp add: all_ids_def start_workers_def ids_def new_worker_def)
  moreover have "map wk_manager (start_workers config) = map new_manager [0..<cfg_threads config]"
    by (simp add: start_workers_def new_worker_def)
  moreover have "get_connection_subscription_count c (new_manager i) = 0" for c i
    by (simp add: get_connection_subscription_count_def new_manager_def)
  then have "worker_ok n i (new_worker i)" for n i by (simp add: worker_ok_def new_worker_def)
  ultimately show ?thesis
    using new_registry_ok system_ok_new [of "cfg_threads config"]
    by (simp add: server_ok_def new_shared_def get_client_def new_client_registry_def) (simp add: start_workers_def)
qed

section \<open>One worker changes\<close>

lemma map_manager_update: "map wk_manager (ws[i := wk]) = (map wk_manager ws)[i := wk_manager wk]"
  by (rule map_update)

lemma worker_ok_skeleton:
  assumes "worker_ok n i wk" and "skeleton (wk_connections wk1) = skeleton (wk_connections wk)"
    and "wk_manager wk1 = wk_manager wk" "wk_thread_id wk1 = wk_thread_id wk" "wk_next_token wk1 = wk_next_token wk"
  shows "worker_ok n i wk1" and "ids wk1 = ids wk"
proof -
  show ids: "ids wk1 = ids wk" by (simp only: ids_skeleton assms(2))
  have "map fst (wk_connections w) = map fst (skeleton (wk_connections w))" for w
    by (induction "wk_connections w" arbitrary: w) (auto intro: nth_equalityI)
  then have "map fst (wk_connections wk1) = map fst (wk_connections wk)" by (metis assms(2))
  with assms ids show "worker_ok n i wk1" by (simp add: worker_ok_def)
qed

lemma inbox_server_ok:
  assumes "server_ok gone ws sh" and "i < length ws" and "inbox_step results (ws ! i) sh = (wk, sh1)"
  shows "server_ok gone (ws[i := wk]) sh1"
proof -
  let ?r = "snd (process_inbox (wk_manager (ws ! i)) (sh_registry sh))"
  from assms(3) have wk: "skeleton (wk_connections wk) = skeleton (wk_connections (ws ! i))" "wk_manager wk = wk_manager (ws ! i)"
    "wk_thread_id wk = wk_thread_id (ws ! i)" "wk_next_token wk = wk_next_token (ws ! i)" "sh1 = sh\<lparr>sh_registry := ?r\<rparr>"
    by (auto simp: inbox_step_def split_beta)
  have ok: "worker_ok (sh_connection_id sh) i (ws ! i)" using assms(1,2) by (simp add: server_ok_def)
  note w = worker_ok_skeleton [OF ok wk(1-4)]
  have "map wk_manager (ws[i := wk]) = map wk_manager ws"
    using assms(2) by (simp add: map_update wk(2) list_update_same_conv)
  moreover have "system_ok (map wk_manager ws) ?r" using assms(1) by (intro process_inbox_ok) (simp add: server_ok_def)
  moreover have "worker_ok (sh_connection_id sh) j (ws[i := wk] ! j)" if "j < length ws" for j
    using w(1) assms(1) that by (cases "j = i") (simp_all add: server_ok_def)
  ultimately show ?thesis
    using assms(1) all_ids_same [OF assms(2) w(2)] by (simp add: server_ok_def wk(5))
qed

lemma worker_ok_later: "worker_ok n i wk \<Longrightarrow> n \<le> n' \<Longrightarrow> worker_ok n' i wk"
  by (fastforce simp: worker_ok_def)

lemma update_fresh: "k \<notin> fst ` set al \<Longrightarrow> AList.update k v al = al @ [(k, v)]"
  by (induction al) auto

lemma accept_server_ok:
  assumes "server_ok gone ws sh" and "i < length ws" and "accept_connection env config addr (ws ! i) sh = (wk, sh1)"
  shows "server_ok gone (ws[i := wk]) sh1"
proof -
  define conn where "conn = set_client_registry (new_with_addr 0 env config (Some addr) (sh_connection_id sh))"
  define token where "token = wk_next_token (ws ! i)"
  let ?n = "sh_connection_id sh"
  have conn: "cn_connection_id conn = ?n" "cn_subscription_count conn = 0" "\<not> cn_closed conn"
    by (simp_all add: conn_def set_client_registry_def new_with_addr_def)
  have ok: "worker_ok ?n j (ws ! j)" if "j < length ws" for j using assms(1) that by (simp add: server_ok_def)
  have "token \<notin> fst ` set (wk_connections (ws ! i))"
    using ok [OF assms(2)] by (fastforce simp: worker_ok_def token_def)
  then have wk: "wk_connections wk = wk_connections (ws ! i) @ [(token, \<lparr>sk_sent = [], sk_writable = False\<rparr>, conn)]"
    "wk_manager wk = wk_manager (ws ! i)" "wk_thread_id wk = wk_thread_id (ws ! i)" "wk_next_token wk = Suc token"
    and sh1: "sh_registry sh1 = sh_registry sh" "sh_connection_id sh1 = Suc ?n"
      "wd_clients (sh_world sh1) = register_client (info_of conn (wk_thread_id (ws ! i))) (wd_clients (sh_world sh))"
      "sh_active_connections sh1 = sh_active_connections sh + 1"
    using assms(3) by (auto simp: accept_connection_def Let_def conn_def token_def update_fresh)
  have ids: "ids wk = ids (ws ! i) @ [?n]" by (simp add: ids_def wk(1) conn(1))
  have fresh: "?n \<notin> set (ids (ws ! j))" if "j < length ws" for j
    using ok [OF that] by (fastforce simp: worker_ok_def ids_def)
  have zero: "get_connection_subscription_count ?n (wk_manager (ws ! i)) = 0"
    using ok [OF assms(2)] fresh [OF assms(2)] by (auto simp: worker_ok_def)
  have i: "worker_ok (Suc ?n) i wk"
    using ok [OF assms(2)] zero conn \<open>token \<notin> _\<close>
    by (fastforce simp: worker_ok_def wk ids token_def)
  have "worker_ok (Suc ?n) j (ws[i := wk] ! j)" if "j < length ws" for j
    using that i worker_ok_later [OF ok [OF that], of "Suc ?n"] by (cases "j = i") simp_all
  moreover have "map wk_manager (ws[i := wk]) = map wk_manager ws"
    using assms(2) by (simp add: map_update wk(2) list_update_same_conv)
  moreover obtain A B where AB: "\<And>wk. all_ids (ws[i := wk]) = A @ ids wk @ B" using all_ids_around [OF assms(2)] by blast
  then have old: "all_ids ws = A @ ids (ws ! i) @ B" by (metis list_update_id)
  have "?n \<notin> set (all_ids ws)" using fresh by (fastforce simp: all_ids_def in_set_conv_nth)
  ultimately show ?thesis
    using assms(1) by (auto simp: server_ok_def sh1 AB old ids get_after_register info_of_def conn(1))
qed

section \<open>Events\<close>

lemma subscribe_ok:
  assumes "system_ok ms r" and "i < length ms" and "subscribe c ks (ms ! i) r = (msgs, m', r')"
  shows "system_ok (ms[i := m']) r'"
  using assms each_name_ok [where f = "subscribe_one c" and i = i, OF subscribe_one_ok] by (simp only: each_name_eqs)

lemma psubscribe_ok:
  assumes "system_ok ms r" and "i < length ms" and "psubscribe c ks (ms ! i) r = (msgs, m', r')"
  shows "system_ok (ms[i := m']) r'"
  using assms each_name_ok [where f = "psubscribe_one c" and i = i, OF psubscribe_one_ok] by (simp only: each_name_eqs)

lemma handle_system_ok:
  assumes "system_ok ms r" and "i < length ms" and "handle_pubsub_operation (ms ! i) r c q conn t = (ds, m', r', conn')"
  shows "system_ok (ms[i := m']) r'"
proof (cases q)
  case (OpSubscribe ks)
  obtain msgs m1 r1 where e: "subscribe c ks (ms ! i) r = (msgs, m1, r1)" by (metis prod_cases3)
  with OpSubscribe assms(3) have "m' = m1" "r' = r1" by (simp_all add: handle_pubsub_operation_def)
  with e subscribe_ok [OF assms(1,2)] show ?thesis by simp
next
  case (OpUnsubscribe ks)
  obtain msgs m1 r1 where e: "unsubscribe c ks (ms ! i) r = (msgs, m1, r1)" by (metis prod_cases3)
  with OpUnsubscribe assms(3) have "m' = m1" "r' = r1" by (simp_all add: handle_pubsub_operation_def)
  with e unsubscribe_ok [OF assms(1,2)] show ?thesis by simp
next
  case (OpPSubscribe ks)
  obtain msgs m1 r1 where e: "psubscribe c ks (ms ! i) r = (msgs, m1, r1)" by (metis prod_cases3)
  with OpPSubscribe assms(3) have "m' = m1" "r' = r1" by (simp_all add: handle_pubsub_operation_def)
  with e psubscribe_ok [OF assms(1,2)] show ?thesis by simp
next
  case (OpPUnsubscribe ks)
  obtain msgs m1 r1 where e: "punsubscribe c ks (ms ! i) r = (msgs, m1, r1)" by (metis prod_cases3)
  with OpPUnsubscribe assms(3) have "m' = m1" "r' = r1" by (simp_all add: handle_pubsub_operation_def)
  with e punsubscribe_ok [OF assms(1,2)] show ?thesis by simp
next
  case (OpPublish channel message)
  obtain ds1 r1 replied where p: "publish (ms ! i) r channel message t = (ds1, r1, replied)" by (metis prod_cases3)
  with OpPublish assms(3) have "m' = ms ! i" "r' = r1" by (simp_all add: handle_pubsub_operation_def)
  with publish_total [OF assms(1) p] show ?thesis by simp
qed (use assms(1,3) in \<open>auto simp: handle_pubsub_operation_def\<close>)

lemma handle_keeps_closed:
  "handle_pubsub_operation m r c q conn t = (ds, m', r', conn') \<Longrightarrow> cn_closed conn' = cn_closed conn"
  by (auto simp: handle_pubsub_operation_def reply_def split: pubsub_op.splits prod.splits)

definition half_event :: "manager list \<Rightarrow> nat \<Rightarrow> nat \<Rightarrow> connection \<Rightarrow> manager \<Rightarrow> registry \<Rightarrow> bool" where
  "half_event ms i c conn m r \<longleftrightarrow> system_ok (ms[i := m]) r \<and> cn_connection_id conn = c \<and> mode_agrees conn m \<and>
     (\<forall>d. d \<noteq> c \<longrightarrow> get_connection_subscription_count d m = get_connection_subscription_count d (ms ! i))"

lemma half_event_handle:
  assumes "half_event ms i c conn m r" and "i < length ms"
    and "handle_pubsub_operation m r (cn_connection_id conn) q conn t = (ds, m', r', conn')"
  shows "half_event ms i c conn' m' r' \<and> cn_closed conn' = cn_closed conn"
proof -
  have "system_ok (ms[i := m'] ) r'"
    using handle_system_ok [of "ms[i := m]" r i _ q conn t ds m' r' conn'] assms by (simp add: half_event_def)
  moreover have "d \<noteq> c \<Longrightarrow> get_connection_subscription_count d m' = get_connection_subscription_count d m" for d
    using handle_other_counts [OF assms(3)] assms(1) by (simp add: half_event_def)
  ultimately show ?thesis
    using assms(1) handle_mode_agrees [OF _ assms(3)] handle_keeps_id [OF assms(3)] handle_keeps_closed [OF assms(3)]
    by (simp add: half_event_def)
qed

lemma half_event_operations:
  "half_event ms i c conn m r \<Longrightarrow> i < length ms \<Longrightarrow> handle_operations m r qs conn t = (ds, m', r', conn') \<Longrightarrow>
   half_event ms i c conn' m' r' \<and> cn_closed conn' = cn_closed conn"
proof (induction m r qs conn t arbitrary: ds rule: handle_operations.induct)
  case (2 m r q qs conn t)
  obtain ds1 m1 r1 conn1 where h: "handle_pubsub_operation m r (cn_connection_id conn) q conn t = (ds1, m1, r1, conn1)"
    by (metis prod_cases4)
  obtain ds2 where rest: "handle_operations m1 r1 qs conn1 t = (ds2, m', r', conn')"
    using "2.prems"(3) h by (auto simp: Let_def split: prod.splits)
  have "half_event ms i c conn1 m1 r1 \<and> cn_closed conn1 = cn_closed conn"
    using half_event_handle [OF "2.prems"(1,2) h] .
  with "2.IH" [OF h [symmetric] refl refl refl _ "2.prems"(2) rest] show ?case by simp
qed auto

definition event_inv :: "manager list \<Rightarrow> nat \<Rightarrow> nat \<Rightarrow> 's shared \<Rightarrow>
    (nat \<times> pubsub_message) list \<times> bool \<times> socket \<times> connection \<times> manager \<times> 's shared \<Rightarrow> bool" where
  "event_inv ms i c sh0 = (\<lambda>(ds, should_close, sk, conn, m, sh). half_event ms i c conn m (sh_registry sh) \<and>
     registry_ok (wd_clients (sh_world sh)) \<and>
     (\<forall>d. get_client d (wd_clients (sh_world sh)) = None \<longleftrightarrow> get_client d (wd_clients (sh_world sh0)) = None) \<and>
     sh_active_connections sh = sh_active_connections sh0 \<and> sh_connection_id sh = sh_connection_id sh0)"

lemma half_event_cong:
  "half_event ms i c conn m r \<Longrightarrow> cn_connection_id conn' = cn_connection_id conn \<Longrightarrow>
     cn_subscription_count conn' = cn_subscription_count conn \<Longrightarrow> half_event ms i c conn' m r"
  by (simp add: half_event_def mode_agrees_def)

lemma finish_read_inv:
  assumes "event_inv ms i c sh0 (ds0, b0, sk, conn, m, sh)" and "i < length ms"
    and "finish_read t ops results sk conn m sh = (ds, failed, sk1, conn1, m1, sh1)"
  shows "event_inv ms i c sh0 (ds', b', sk1, conn1, m1, sh1) \<and> cn_closed conn1 = cn_closed conn"
proof -
  obtain ds1 m2 r2 conn2 where h: "handle_operations m (sh_registry sh) ops conn t = (ds1, m2, r2, conn2)" by (metis prod_cases4)
  have he: "half_event ms i c conn2 m2 r2 \<and> cn_closed conn2 = cn_closed conn"
  proof -
    have "half_event ms i c conn m (sh_registry sh)" using assms(1) by (simp add: event_inv_def)
    from half_event_operations [OF this assms(2) h] show ?thesis .
  qed
  obtain b sk2 conn3 where w: "write_pending results sk (process_pubsub_messages conn2) = (b, sk2, conn3)" by (metis prod_cases3)
  note keeps = write_pending_keeps [OF w]
  define sh2 where "sh2 = sh\<lparr>sh_registry := r2, sh_world := (sh_world sh)\<lparr>wd_clients :=
    update_client (cn_connection_id conn2) (cn_client_name (process_pubsub_messages conn2))
      (cn_commands_processed (process_pubsub_messages conn2)) (cn_flags (process_pubsub_messages conn2))
      (wd_clients (sh_world sh))\<rparr>\<rparr>"
  have "finish_read t ops results sk conn m sh =
      (ds1, b, if pending_writes conn3 \<noteq> None then sk2\<lparr>sk_writable := True\<rparr> else sk2, conn3, m2, sh2)"
    by (simp add: finish_read_def h w Let_def sh2_def)
  with assms(3) have res: "conn1 = conn3" "m1 = m2" "sh1 = sh2" by simp_all
  have "half_event ms i c conn3 m2 r2"
    using identityD [OF conjunct1 [OF keeps]] by (intro half_event_cong [OF conjunct1 [OF he]]) simp_all
  moreover have same: "get_client d (update_client j x n f reg) = None \<longleftrightarrow> get_client d reg = None" for d j x n f reg
    by (auto simp: get_after_update)
  ultimately show ?thesis
    using assms(1) he keeps by (simp add: event_inv_def res sh2_def update_client_ok same)
qed

lemma process_read_inv:
  assumes "event_inv ms i c sh0 (ds, b, sk, conn, m, sh)" and "process_read cap fx env data conn (sh_world sh) = Some (r, conn1, w1)"
  shows "event_inv ms i c sh0 (ds', b', sk', conn1, m, sh\<lparr>sh_world := w1\<rparr>)"
proof -
  note f = process_read_frame [OF assms(2)]
  have he: "half_event ms i c conn m (sh_registry sh)" using assms(1) by (simp add: event_inv_def)
  have "half_event ms i c conn1 m (sh_registry sh)"
    using identityD [OF conjunct1 [OF f]] by (intro half_event_cong [OF he]) simp_all
  with assms(1) f show ?thesis by (simp add: event_inv_def)
qed

lemma event_inv_flags: "event_inv ms i c sh0 (ds, b, sk, st) \<Longrightarrow> event_inv ms i c sh0 (ds', b', sk', st)"
  by (cases st) (simp add: event_inv_def)

text \<open>The state in which a loop returns or panics, and whether it returns.\<close>

fun run_end :: "'a run \<Rightarrow> (bool \<times> 'a) option" where
  "run_end Hangs = None"
| "run_end (Panics st) = Some (False, st)"
| "run_end (Returns st) = Some (True, st)"

lemma read_loop_inv:
  assumes "event_inv ms i c sh0 (ds, b, sk, conn, m, sh)" and "\<not> cn_closed conn" and "i < length ms"
    and "run_end (read_loop cap fx env t reads (ds, b, sk, conn, m, sh)) = Some (returned, ds', b', sk', conn', m', sh')"
  shows "event_inv ms i c sh0 (ds', b', sk', conn', m', sh') \<and> (\<not> b' \<or> \<not> returned \<longrightarrow> \<not> cn_closed conn')"
  using assms
proof (induction reads arbitrary: ds b sk conn m sh)
  case (Cons rd reads)
  obtain result ws where rd: "rd = (result, ws)" by force
  show ?case
  proof (cases result)
    case (ReadData data)
    show ?thesis
    proof (cases "process_read cap fx env data conn (sh_world sh)")
      case None
      with Cons.prems(4) rd ReadData show ?thesis by simp
    next
      case (Some x)
      then obtain r conn1 w1 where p: "process_read cap fx env data conn (sh_world sh) = Some (r, conn1, w1)" by (cases x) auto
      note inv = process_read_inv [OF Cons.prems(1) p]
      have panic: "event_inv ms i c sh0 (ds, b, sk, conn, m, sh\<lparr>sh_world := w1\<rparr>)"
        using Cons.prems(1) inv process_read_frame [OF p] by (simp add: event_inv_def)
      show ?thesis
      proof (cases r)
        case (Inl e)
        with Cons.prems(2,4) rd ReadData p inv panic show ?thesis by (cases e) auto
      next
        case (Inr ops)
        obtain ds1 failed sk1 conn2 m1 sh1 where f: "finish_read t ops ws sk conn1 m (sh\<lparr>sh_world := w1\<rparr>) = (ds1, failed, sk1, conn2, m1, sh1)"
          by (metis prod_cases6)
        note inv2 = finish_read_inv [OF inv Cons.prems(3) f]
        show ?thesis
          using Cons.prems(3,4) rd ReadData p Inr f inv2 Cons.IH [of "ds @ ds1" "b \<or> failed" sk1 conn2 m1 sh1]
          by (cases "cn_closed conn2") auto
      qed
    qed
  qed (use Cons.prems rd in \<open>auto intro: event_inv_flags\<close>)
qed auto

text \<open>The entry of the token is replaced, then possibly removed, and the deliveries are made.\<close>

lemma ids_update:
  assumes "map_of conns token = Some (sk, conn)" and "cn_connection_id conn1 = cn_connection_id conn"
  shows "map (\<lambda>(token, sk, conn). cn_connection_id conn) (AList.update token (sk1, conn1) conns) =
     map (\<lambda>(token, sk, conn). cn_connection_id conn) conns"
  using assms by (induction conns) (auto split: if_splits)

lemma update_members:
  "distinct (map fst al) \<Longrightarrow> (k', v') \<in> set (AList.update k v al) \<longleftrightarrow> (k' = k \<and> v' = v) \<or> (k' \<noteq> k \<and> (k', v') \<in> set al)"
  by (induction al) force+

lemma count_dropped:
  assumes "connection_dropped c m r = (m', r')"
  shows "get_connection_subscription_count c m' = 0"
    and "d \<noteq> c \<Longrightarrow> get_connection_subscription_count d m' = get_connection_subscription_count d m"
proof -
  obtain msgs m1 r1 where u: "unsubscribe c None m r = (msgs, m1, r1)" by (metis prod_cases3)
  obtain msgs' where p: "punsubscribe c None m1 r1 = (msgs', m', r')"
    using assms u by (auto simp: connection_dropped_def split: prod.splits)
  have one: "at_key (pm_connection_channels m1) = (at_key (pm_connection_channels m))(c := [])"
    "pm_connection_patterns m1 = pm_connection_patterns m"
    using u removed_count [of c _ "m\<lparr>pm_connection_channels := AList.delete c (pm_connection_channels m)\<rparr>" r msgs m1 r1]
    by (auto simp: unsubscribe_def map_of_cases split: option.splits)
  have two: "at_key (pm_connection_patterns m') = (at_key (pm_connection_patterns m1))(c := [])"
    "pm_connection_channels m' = pm_connection_channels m1"
    using p premoved_count [of c _ "m1\<lparr>pm_connection_patterns := AList.delete c (pm_connection_patterns m1)\<rparr>" r1 msgs' m' r']
    by (auto simp: punsubscribe_def map_of_cases split: option.splits)
  show "get_connection_subscription_count c m' = 0"
    and "d \<noteq> c \<Longrightarrow> get_connection_subscription_count d m' = get_connection_subscription_count d m"
    by (simp_all add: get_connection_subscription_count_def one two)
qed

lemma event_entry:
  assumes "server_ok gone ws sh" and "i < length ws" and "map_of (wk_connections (ws ! i)) token = Some (sk, conn)"
    and "event_inv (map wk_manager ws) i (cn_connection_id conn) sh (ds, b, sk1, conn1, m, sh1)"
  defines "wk \<equiv> (ws ! i)\<lparr>wk_manager := m, wk_connections := AList.update token (sk1, conn1) (wk_connections (ws ! i))\<rparr>"
  shows "ids wk = ids (ws ! i)" and "distinct (map fst (wk_connections wk))" and "wk_thread_id wk = i"
    and "\<And>token' sk' conn'. (token', sk', conn') \<in> set (wk_connections wk) \<Longrightarrow> token' < wk_next_token wk \<and>
      cn_connection_id conn' < sh_connection_id sh1 \<and> mode_agrees conn' m \<and> (token' = token \<or> \<not> cn_closed conn')"
    and "(token, sk1, conn1) \<in> set (wk_connections wk)"
    and "get_connection_subscription_count c m \<noteq> 0 \<Longrightarrow> c \<in> set (ids wk)"
proof -
  have ok: "worker_ok (sh_connection_id sh) i (ws ! i)" using assms(1,2) by (simp add: server_ok_def)
  have inv: "cn_connection_id conn1 = cn_connection_id conn" "mode_agrees conn1 m" "sh_connection_id sh1 = sh_connection_id sh"
    "d \<noteq> cn_connection_id conn \<Longrightarrow>
      get_connection_subscription_count d m = get_connection_subscription_count d (wk_manager (ws ! i))" for d
    using assms(2,4) by (auto simp: event_inv_def half_event_def)
  have old: "distinct (map fst (wk_connections (ws ! i)))" "distinct (ids (ws ! i))"
    using ok assms(1,2) by (auto simp: worker_ok_def server_ok_def all_ids_def distinct_concat_iff)
  have here: "(token, sk, conn) \<in> set (wk_connections (ws ! i))" using assms(3) by (rule map_of_SomeD)
  show ids: "ids wk = ids (ws ! i)" using ids_update [OF assms(3) inv(1)] by (simp add: ids_def wk_def)
  show "distinct (map fst (wk_connections wk))" using old(1) by (simp add: wk_def distinct_update)
  show "wk_thread_id wk = i" using ok by (simp add: worker_ok_def wk_def)
  show "(token, sk1, conn1) \<in> set (wk_connections wk)" by (simp add: wk_def update_members [OF old(1)])
  show "get_connection_subscription_count c m \<noteq> 0 \<Longrightarrow> c \<in> set (ids wk)"
    using ok here inv(4) [of c] unfolding ids by (cases "c = cn_connection_id conn") (force simp: ids_def, simp add: worker_ok_def)
  fix token' sk' conn'
  assume "(token', sk', conn') \<in> set (wk_connections wk)"
  then consider "token' = token" "conn' = conn1" | "token' \<noteq> token" "(token', sk', conn') \<in> set (wk_connections (ws ! i))"
    by (auto simp: wk_def update_members [OF old(1)])
  then show "token' < wk_next_token wk \<and> cn_connection_id conn' < sh_connection_id sh1 \<and> mode_agrees conn' m \<and>
      (token' = token \<or> \<not> cn_closed conn')"
  proof cases
    case 1
    with ok here inv show ?thesis by (auto simp: worker_ok_def wk_def)
  next
    case 2
    then have "cn_connection_id conn' \<noteq> cn_connection_id conn"
      using ids_distinct [OF old(2) _ here] by blast
    with ok 2 inv(3,4) show ?thesis by (fastforce simp: worker_ok_def wk_def mode_agrees_def)
  qed
qed

lemma event_entry_ok:
  assumes "server_ok gone ws sh" and "i < length ws" and "map_of (wk_connections (ws ! i)) token = Some (sk, conn)"
    and "event_inv (map wk_manager ws) i (cn_connection_id conn) sh (ds, b, sk1, conn1, m, sh1)" and "\<not> cn_closed conn1"
  defines "wk \<equiv> (ws ! i)\<lparr>wk_manager := m, wk_connections := AList.update token (sk1, conn1) (wk_connections (ws ! i))\<rparr>"
  shows "server_ok gone (ws[i := wk]) sh1"
proof -
  note entry = event_entry [OF assms(1-4), folded wk_def]
  have old: "distinct (map fst (wk_connections (ws ! i)))" using assms(1,2) by (simp add: server_ok_def worker_ok_def)
  have inv: "system_ok ((map wk_manager ws)[i := m]) (sh_registry sh1)" "registry_ok (wd_clients (sh_world sh1))"
    "sh_connection_id sh1 = sh_connection_id sh" "sh_active_connections sh1 = sh_active_connections sh"
    "\<And>d. (get_client d (wd_clients (sh_world sh1)) = None) = (get_client d (wd_clients (sh_world sh)) = None)"
    using assms(4) by (auto simp: event_inv_def half_event_def)
  have here: "(token, sk', conn') \<in> set (wk_connections wk) \<Longrightarrow> conn' = conn1" for sk' conn'
    by (simp add: wk_def update_members [OF old])
  have "worker_ok (sh_connection_id sh1) i wk"
    unfolding worker_ok_def
  proof (intro conjI ballI)
    fix e assume "e \<in> set (skeleton (wk_connections wk))"
    then obtain token' sk' conn' where e: "e = skeleton_of (token', sk', conn')" "(token', sk', conn') \<in> set (wk_connections wk)"
      by auto
    then show "case e of (token, c, n, closed) \<Rightarrow> token < wk_next_token wk \<and> c < sh_connection_id sh1 \<and>
        n = get_connection_subscription_count c (wk_manager wk) \<and> \<not> closed"
      using entry(4) [OF e(2)] here assms(5) by (auto simp: mode_agrees_def wk_def)
  qed (use entry in \<open>auto simp: wk_def\<close>)
  then have "worker_ok (sh_connection_id sh1) j (ws[i := wk] ! j)" if "j < length ws" for j
    using assms(1) that inv(3) by (cases "j = i") (simp_all add: server_ok_def)
  moreover have "map wk_manager (ws[i := wk]) = (map wk_manager ws)[i := m]" by (simp add: map_update wk_def)
  ultimately show ?thesis
    using assms(1) inv all_ids_same [OF assms(2) entry(1)] by (simp add: server_ok_def del: not_None_eq)
qed

lemma delete_entry:
  assumes "distinct (map fst al)" and "(k, v) \<in> set al"
  shows "\<exists>A B. al = A @ (k, v) # B \<and> AList.delete k al = A @ B"
proof -
  obtain A B where al: "al = A @ (k, v) # B" using split_list [OF assms(2)] by blast
  have absent: "k \<notin> fst ` set xs \<Longrightarrow> AList.delete k xs = xs" for xs :: "('a \<times> 'b) list"
    by (induction xs) auto
  have "AList.delete k al = AList.delete k A @ AList.delete k B" by (simp add: al AList.delete_eq)
  then show ?thesis using assms(1) al absent by auto
qed

lemma event_drop_ok:
  assumes "server_ok gone ws sh" and "i < length ws" and "map_of (wk_connections (ws ! i)) token = Some (sk, conn)"
    and "event_inv (map wk_manager ws) i (cn_connection_id conn) sh (ds, b, sk1, conn1, m, sh1)"
    and "drop_connection token conn1
      ((ws ! i)\<lparr>wk_manager := m, wk_connections := AList.update token (sk1, conn1) (wk_connections (ws ! i))\<rparr>) sh1 = (wk2, sh2)"
  shows "server_ok gone (ws[i := wk2]) sh2"
proof -
  define wk where "wk = (ws ! i)\<lparr>wk_manager := m, wk_connections := AList.update token (sk1, conn1) (wk_connections (ws ! i))\<rparr>"
  let ?c = "cn_connection_id conn1"
  note entry = event_entry [OF assms(1-4), folded wk_def]
  obtain m' r' where d: "connection_dropped ?c m (sh_registry sh1) = (m', r')" by force
  have wk2: "wk_connections wk2 = AList.delete token (wk_connections wk)" "wk_manager wk2 = m'"
    "wk_thread_id wk2 = wk_thread_id wk" "wk_next_token wk2 = wk_next_token wk"
    and sh2: "sh_registry sh2 = r'" "wd_clients (sh_world sh2) = unregister_client ?c (wd_clients (sh_world sh1))"
      "sh_active_connections sh2 = sh_active_connections sh1 - 1" "sh_connection_id sh2 = sh_connection_id sh1"
    using assms(5) d by (auto simp: drop_connection_def wk_def Let_def)
  have inv: "system_ok ((map wk_manager ws)[i := m]) (sh_registry sh1)" "registry_ok (wd_clients (sh_world sh1))"
    "sh_connection_id sh1 = sh_connection_id sh" "sh_active_connections sh1 = sh_active_connections sh"
    "\<And>d. (get_client d (wd_clients (sh_world sh1)) = None) = (get_client d (wd_clients (sh_world sh)) = None)"
    using assms(4) by (auto simp: event_inv_def half_event_def)
  have sys: "system_ok ((map wk_manager ws)[i := m']) r'"
    using connection_dropped_ok [OF inv(1), of i ?c m' r'] assms(2) d by simp
  obtain A B where AB: "wk_connections wk = A @ (token, sk1, conn1) # B" "wk_connections wk2 = A @ B"
    using delete_entry [OF entry(2,5)] by (auto simp: wk2(1))
  let ?ids = "map (\<lambda>(token, sk, conn). cn_connection_id conn)"
  obtain C D where CD: "\<And>w. all_ids (ws[i := w]) = C @ ids w @ D" using all_ids_around [OF assms(2)] by blast
  have "all_ids (ws[i := wk]) = all_ids ws" using all_ids_same [OF assms(2) entry(1)] .
  then have all: "all_ids ws = (C @ ?ids A) @ ?c # (?ids B @ D)" and all2: "all_ids (ws[i := wk2]) = (C @ ?ids A) @ (?ids B @ D)"
    by (simp_all add: CD ids_def AB)
  have dist: "distinct (all_ids ws)" using assms(1) by (simp add: server_ok_def)
  have fresh: "?c \<notin> set (all_ids (ws[i := wk2]))" using dist unfolding all all2 by auto
  have keys: "token \<notin> fst ` set (A @ B)" using entry(2) by (auto simp: AB(1))
  have "worker_ok (sh_connection_id sh2) i wk2"
    unfolding worker_ok_def
  proof (intro conjI ballI allI impI)
    show "distinct (map fst (wk_connections wk2))" using entry(2) by (simp add: AB)
    show "wk_thread_id wk2 = i" using entry(3) wk2(3) by simp
  next
    fix e assume "e \<in> set (skeleton (wk_connections wk2))"
    then obtain x where x: "x \<in> set (A @ B)" "e = skeleton_of x" unfolding AB(2) by (metis imageE set_map)
    obtain token' sk' conn' where "x = (token', sk', conn')" by (metis prod_cases3)
    with x have e: "e = skeleton_of (token', sk', conn')" "(token', sk', conn') \<in> set (A @ B)" by simp_all
    then have "(token', sk', conn') \<in> set (wk_connections wk)" "token' \<noteq> token" using keys by (force simp: AB(1))+
    moreover have "cn_connection_id conn' \<noteq> ?c" using e(2) fresh by (force simp: all2)
    ultimately show "case e of (token, c, n, closed) \<Rightarrow> token < wk_next_token wk2 \<and> c < sh_connection_id sh2 \<and>
        n = get_connection_subscription_count c (wk_manager wk2) \<and> \<not> closed"
      using entry(4) [of token' sk' conn'] count_dropped(2) [OF d]
      by (auto simp: e(1) wk2(2,4) sh2(4) mode_agrees_def)
  next
    fix c assume "get_connection_subscription_count c (wk_manager wk2) \<noteq> 0"
    then have n: "get_connection_subscription_count c m' \<noteq> 0" by (simp add: wk2(2))
    with count_dropped(1) [OF d] have "c \<noteq> ?c" by auto
    moreover from n count_dropped(2) [OF d this] have "get_connection_subscription_count c m \<noteq> 0" by simp
    ultimately show "c \<in> set (ids wk2)" using entry(6) by (auto simp: ids_def AB)
  qed
  then have "worker_ok (sh_connection_id sh2) j (ws[i := wk2] ! j)" if "j < length ws" for j
    using assms(1) that inv(3) sh2(4) by (cases "j = i") (simp_all add: server_ok_def)
  moreover have "map wk_manager (ws[i := wk2]) = (map wk_manager ws)[i := m']" by (simp add: map_update wk2(2))
  moreover have "distinct (all_ids (ws[i := wk2]))" using dist unfolding all all2 by simp
  moreover have "(get_client c (wd_clients (sh_world sh2)) \<noteq> None) = (c \<in> set (all_ids (ws[i := wk2])))" for c
  proof -
    have "(get_client c (wd_clients (sh_world sh)) \<noteq> None) = (c \<in> set (all_ids ws))" using assms(1) by (simp add: server_ok_def)
    then show ?thesis
      using fresh inv(5) by (cases "c = ?c") (auto simp: sh2(2) get_after_unregister all all2)
  qed
  moreover have "sh_active_connections sh2 = word_of_nat (length (all_ids (ws[i := wk2]))) + gone"
    using assms(1) by (simp add: sh2(3) inv(4) all2 server_ok_def all)
  ultimately show ?thesis
    using sys inv(2) unregister_ok by (simp add: server_ok_def sh2(1,2) del: not_None_eq)
qed

lemma deliver_server_ok:
  assumes "server_ok gone (ws[i := wk]) sh" and "i < length ws"
  shows "server_ok gone (ws[i := wk\<lparr>wk_connections := deliver_messages ds later (wk_connections wk)\<rparr>]) sh"
proof -
  let ?wk = "wk\<lparr>wk_connections := deliver_messages ds later (wk_connections wk)\<rparr>"
  have "\<forall>j < length (ws[i := wk]). worker_ok (sh_connection_id sh) j (ws[i := wk] ! j)" using assms(1) unfolding server_ok_def by (elim conjE)
  from spec [OF this, of i] assms(2) have ok: "worker_ok (sh_connection_id sh) i wk" by simp
  have w: "worker_ok (sh_connection_id sh) i ?wk" "ids ?wk = ids wk" by (rule worker_ok_skeleton [OF ok]; simp)+
  have "worker_ok (sh_connection_id sh) j (ws[i := ?wk] ! j)" if "j < length ws" for j
  proof (cases "j = i")
    case False
    have "worker_ok (sh_connection_id sh) j (ws[i := wk] ! j)" using assms(1) that by (simp add: server_ok_def)
    with False show ?thesis by simp
  qed (use w(1) assms(2) in simp)
  moreover have "map wk_manager (ws[i := ?wk]) = map wk_manager (ws[i := wk])" by (simp add: map_update)
  moreover have "all_ids (ws[i := ?wk]) = all_ids (ws[i := wk])"
    using all_ids_around [OF assms(2)] w(2) by metis
  ultimately show ?thesis using assms(1) by (simp add: server_ok_def del: not_None_eq)
qed

lemma event_start:
  assumes "server_ok gone ws sh" and "i < length ws" and "map_of (wk_connections (ws ! i)) token = Some (sk, conn)"
    and "identity conn1 = identity conn"
  shows "event_inv (map wk_manager ws) i (cn_connection_id conn) sh (ds, b, sk1, conn1, wk_manager (ws ! i), sh)"
    and "\<not> cn_closed conn"
proof -
  have "worker_ok (sh_connection_id sh) i (ws ! i)" using assms(1,2) by (simp add: server_ok_def)
  moreover have "(token, sk, conn) \<in> set (wk_connections (ws ! i))" using assms(3) by (rule map_of_SomeD)
  ultimately have "mode_agrees conn (wk_manager (ws ! i))" and closed: "\<not> cn_closed conn"
    by (force simp: worker_ok_def mode_agrees_def)+
  then have "mode_agrees conn1 (wk_manager (ws ! i))" using identityD [OF assms(4)] by (simp add: mode_agrees_def)
  moreover have "(map wk_manager ws)[i := wk_manager (ws ! i)] = map wk_manager ws" using assms(2) by (metis list_update_id nth_map length_map)
  ultimately show "event_inv (map wk_manager ws) i (cn_connection_id conn) sh (ds, b, sk1, conn1, wk_manager (ws ! i), sh)"
    using assms(1,2) identityD [OF assms(4)] by (simp add: event_inv_def half_event_def server_ok_def)
  show "\<not> cn_closed conn" by (rule closed)
qed

lemma handle_event_ok:
  assumes "server_ok gone ws sh" and "i < length ws" and "run_end (handle_event cap fx env token writes reads later (ws ! i) sh) = Some (returned, wk, sh1)"
  shows "server_ok gone (ws[i := wk]) sh1"
proof (cases "map_of (wk_connections (ws ! i)) token")
  case None
  with assms(1,2,3) show ?thesis by (auto simp: handle_event_def)
next
  case (Some entry)
  then obtain sk conn where e: "map_of (wk_connections (ws ! i)) token = Some (sk, conn)" by (cases entry) auto
  obtain failed sk1 conn1 where w: "(case writes of None \<Rightarrow> (False, sk, conn) | Some ws \<Rightarrow> handle_writable ws sk conn) = (failed, sk1, conn1)"
    by (metis prod_cases3)
  have keeps: "identity conn1 = identity conn \<and> cn_closed conn1 = cn_closed conn"
  proof (cases writes)
    case (Some ws')
    obtain b sk2 conn2 where p: "write_pending ws' sk conn = (b, sk2, conn2)" by (metis prod_cases3)
    with w Some write_pending_keeps [OF p] show ?thesis by (simp add: handle_writable_def)
  qed (use w in simp)
  let ?start = "([], failed, sk1, conn1, wk_manager (ws ! i), sh)"
  let ?run = "case reads of None \<Rightarrow> Returns ?start | Some rs \<Rightarrow> read_loop cap fx env (wk_thread_id (ws ! i)) rs ?start"
  note start = event_start [OF assms(1,2) e conjunct1 [OF keeps]]
  let ?wk1 = "\<lambda>sk2 conn2 m. (ws ! i)\<lparr>wk_manager := m, wk_connections := AList.update token (sk2, conn2) (wk_connections (ws ! i))\<rparr>"
  have res: "handle_event cap fx env token writes reads later (ws ! i) sh = (case ?run of Hangs \<Rightarrow> Hangs
      | Panics (ds, should_close, sk2, conn2, m, sh1) \<Rightarrow> Panics (?wk1 sk2 conn2 m, sh1)
      | Returns (ds, should_close, sk2, conn2, m, sh1) \<Rightarrow>
        (let wk1 = ?wk1 sk2 conn2 m;
             (wk2, sh2) = (if should_close then drop_connection token conn2 wk1 sh1 else (wk1, sh1))
         in Returns (wk2\<lparr>wk_connections := deliver_messages ds later (wk_connections wk2)\<rparr>, sh2)))"
    unfolding handle_event_def e option.case prod.case w Let_def ..
  with assms(3) obtain ds b sk2 conn2 m sh2 where run: "run_end ?run = Some (returned, ds, b, sk2, conn2, m, sh2)"
    by (cases ?run) (auto simp: Let_def split: prod.splits)
  have inv: "event_inv (map wk_manager ws) i (cn_connection_id conn) sh (ds, b, sk2, conn2, m, sh2) \<and>
      (\<not> b \<or> \<not> returned \<longrightarrow> \<not> cn_closed conn2)"
  proof (cases reads)
    case None
    with run start keeps show ?thesis by auto
  next
    case (Some rs)
    have "\<not> cn_closed conn1" "i < length (map wk_manager ws)" using start(2) keeps assms(2) by simp_all
    from read_loop_inv [OF start(1) this] run Some show ?thesis by simp
  qed
  show ?thesis
  proof (cases returned)
    case False
    with run have "?run = Panics (ds, b, sk2, conn2, m, sh2)" by (cases ?run) auto
    with assms(3) res have "wk = ?wk1 sk2 conn2 m" "sh1 = sh2" by simp_all
    with inv event_entry_ok [OF assms(1,2) e conjunct1 [OF inv]] False show ?thesis by simp
  next
    case True
    with run have run: "?run = Returns (ds, b, sk2, conn2, m, sh2)" by (cases ?run) auto
    obtain wk2 sh3 where d: "(if b then drop_connection token conn2 (?wk1 sk2 conn2 m) sh2 else (?wk1 sk2 conn2 m, sh2)) = (wk2, sh3)"
      by force
    have "server_ok gone (ws[i := wk2]) sh3"
    proof (cases b)
      case True
      with d event_drop_ok [OF assms(1,2) e conjunct1 [OF inv]] show ?thesis by simp
    next
      case False
      with d inv event_entry_ok [OF assms(1,2) e conjunct1 [OF inv]] show ?thesis by auto
    qed
    moreover have "wk = wk2\<lparr>wk_connections := deliver_messages ds later (wk_connections wk2)\<rparr>" "sh1 = sh3"
      using res run d assms(3) True by auto
    ultimately show ?thesis using deliver_server_ok [OF _ assms(2)] by simp
  qed
qed

end
