(* ===== verification/Server_Output.thy ===== *)
theory Server_Output
  imports Server_Spec "HOL-Library.Sublist"
begin

text \<open>
  What a client is sent. The output of a connection is what its socket has accepted and what
  is still to be written; every handler only appends to it.
\<close>

section \<open>The output of a connection\<close>

definition outgoing :: "socket \<Rightarrow> connection \<Rightarrow> bytes" where
  "outgoing sk conn = sk_sent sk @ unwritten conn"

text \<open>Between two events the buffers are in order and no message is left in the queue.\<close>

definition io_ok :: "connection \<Rightarrow> bool" where
  "io_ok conn \<longleftrightarrow> parser_ok (cn_parser conn) \<and> cn_write_position conn \<le> length (cn_write_buffer conn) \<and>
     cn_pending_pubsub_messages conn = []"

lemma io_ok_new: "io_ok (set_client_registry (new_with_addr fd env config addr c))"
  by (simp add: io_ok_def set_client_registry_def new_with_addr_def parser_ok_def new_parser_def)

text \<open>Appending to the write buffer, whatever happens to what is not input or output.\<close>

definition appends :: "bytes \<Rightarrow> connection \<Rightarrow> connection \<Rightarrow> bool" where
  "appends out conn conn1 \<longleftrightarrow> cn_write_buffer conn1 = cn_write_buffer conn @ out \<and>
     cn_write_position conn1 = cn_write_position conn \<and> cn_parser conn1 = cn_parser conn"

lemma appends_refl: "appends [] conn conn"
  by (simp add: appends_def)

lemma appends_trans: "appends a conn conn1 \<Longrightarrow> appends b conn1 conn2 \<Longrightarrow> appends (a @ b) conn conn2"
  by (simp add: appends_def)

lemma appends_reply: "appends (write_resp_value [] v) conn (reply v conn)"
  by (simp add: appends_def reply_emit emit_def)

lemma appends_unwritten:
  "appends out conn conn1 \<Longrightarrow> cn_write_position conn \<le> length (cn_write_buffer conn) \<Longrightarrow>
     unwritten conn1 = unwritten conn @ out \<and> cn_write_position conn1 \<le> length (cn_write_buffer conn1)"
  by (simp add: appends_def unwritten_def)

lemma set_count_appends: "appends [] conn (set_subscription_count n conn)"
  by (simp add: appends_def set_subscription_count_def Let_def)

lemma queue_message_appends: "appends [] conn (queue_pubsub_message msg conn)"
  by (simp add: appends_def queue_pubsub_message_def)

lemma queue_replies_appends: "appends [] conn (queue_replies f msgs conn)"
proof (induction f msgs conn rule: queue_replies.induct)
  case (2 f msg msgs conn)
  let ?conn = "case f msg of Some n \<Rightarrow> set_subscription_count n conn | None \<Rightarrow> conn"
  have "appends [] conn (queue_pubsub_message msg ?conn)"
    using appends_trans [OF set_count_appends queue_message_appends] queue_message_appends by (cases "f msg") fastforce+
  from appends_trans [OF this "2.IH" [OF refl]] show ?case by (simp add: Let_def)
qed (simp add: appends_refl)

lemma handle_appends:
  assumes "handle_pubsub_operation m r c q conn t = (ds, m1, r1, conn1)"
  shows "\<exists>out. appends out conn conn1"
proof -
  have "\<exists>out. appends out conn (reply v conn)" "\<exists>out. appends out conn (queue_replies f msgs conn)" for v f msgs
    using appends_reply queue_replies_appends by blast+
  with assms show ?thesis by (cases q) (auto simp: handle_pubsub_operation_def split: prod.splits)
qed

lemma operations_append: "handle_operations m r qs conn t = (ds, m1, r1, conn1) \<Longrightarrow> \<exists>out. appends out conn conn1"
proof (induction m r qs conn t arbitrary: ds rule: handle_operations.induct)
  case (2 m r q qs conn t)
  obtain ds1 m2 r2 conn2 where h: "handle_pubsub_operation m r (cn_connection_id conn) q conn t = (ds1, m2, r2, conn2)"
    by (metis prod_cases4)
  obtain ds2 where rest: "handle_operations m2 r2 qs conn2 t = (ds2, m1, r1, conn1)"
    using "2.prems" h by (auto simp: Let_def split: prod.splits)
  obtain out1 out2 where "appends out1 conn conn2" "appends out2 conn2 conn1"
    using handle_appends [OF h] "2.IH" [OF h [symmetric] refl refl refl rest] by blast
  then show ?case using appends_trans by blast
qed (use appends_refl in auto)

lemma write_messages_append:
  "\<exists>out. appends out conn (write_messages ms conn)"
  "cn_pending_pubsub_messages (write_messages ms conn) = cn_pending_pubsub_messages conn"
proof (induction ms conn rule: write_messages.induct)
  case (2 m ms conn)
  case 1
  from "2.IH"(1) show ?case using appends_trans [OF appends_reply] by (metis write_messages.simps(2))
  case 2
  from "2.IH"(2) show ?case by (simp add: reply_def)
qed (use appends_refl in auto)

text \<open>Writing out the queue leaves it empty.\<close>

lemma process_messages_output:
  assumes "cn_write_position conn \<le> length (cn_write_buffer conn)"
  shows "\<exists>out. unwritten (process_pubsub_messages conn) = unwritten conn @ out" and
    "parser_ok (cn_parser conn) \<Longrightarrow> io_ok (process_pubsub_messages conn)"
proof -
  let ?conn = "conn\<lparr>cn_pending_pubsub_messages := []\<rparr>"
  obtain out where out: "appends out ?conn (process_pubsub_messages conn)"
    using write_messages_append(1) by (auto simp: process_pubsub_messages_def)
  moreover have "unwritten ?conn = unwritten conn" by (simp add: unwritten_def)
  ultimately have u: "unwritten (process_pubsub_messages conn) = unwritten conn @ out \<and>
      cn_write_position (process_pubsub_messages conn) \<le> length (cn_write_buffer (process_pubsub_messages conn))"
    using appends_unwritten [OF out] assms by simp
  then show "\<exists>out. unwritten (process_pubsub_messages conn) = unwritten conn @ out" by blast
  assume "parser_ok (cn_parser conn)"
  then show "io_ok (process_pubsub_messages conn)"
    using u out write_messages_append(2) by (simp add: io_ok_def appends_def process_pubsub_messages_def)
qed

lemma process_messages_none: "cn_pending_pubsub_messages conn = [] \<Longrightarrow> process_pubsub_messages conn = conn"
  by (simp add: process_pubsub_messages_def)

section \<open>Writes\<close>

text \<open>A write moves bytes from the buffer to the socket.\<close>

lemma write_pending_output:
  assumes "write_pending ws sk conn = (b, sk1, conn1)"
  shows "outgoing sk1 conn1 = outgoing sk conn" and "io_ok conn \<Longrightarrow> io_ok conn1" and "bare conn1 = bare conn"
    and "cn_parser conn1 = cn_parser conn"
proof -
  show "outgoing sk1 conn1 = outgoing sk conn" using write_pending_conserves [OF assms] by (simp add: outgoing_def)
  have "cn_parser conn1 = cn_parser conn \<and> cn_pending_pubsub_messages conn1 = cn_pending_pubsub_messages conn \<and>
      (cn_write_position conn \<le> length (cn_write_buffer conn) \<longrightarrow> cn_write_position conn1 \<le> length (cn_write_buffer conn1)) \<and>
      bare conn1 = bare conn"
  proof (cases ws)
    case (Cons result ws')
    then have "write_pending [result] sk conn = (b, sk1, conn1)" using assms write_pending_once [of result ws' sk conn] by simp
    then show ?thesis
      by (auto simp: pending_writes_def consume_writes_def bare_def Let_def min_def split: if_splits write_result.splits)
  qed (use assms in simp)
  then show "io_ok conn \<Longrightarrow> io_ok conn1" and "bare conn1 = bare conn" and "cn_parser conn1 = cn_parser conn"
    by (simp_all add: io_ok_def)
qed

section \<open>Reads\<close>

lemma handle_operations_closed: "handle_operations m r qs conn t = (ds, m1, r1, conn1) \<Longrightarrow> cn_closed conn1 = cn_closed conn"
proof (induction m r qs conn t arbitrary: ds rule: handle_operations.induct)
  case (2 m r q qs conn t)
  obtain ds1 m2 r2 conn2 where h: "handle_pubsub_operation m r (cn_connection_id conn) q conn t = (ds1, m2, r2, conn2)"
    by (metis prod_cases4)
  obtain ds2 where rest: "handle_operations m2 r2 qs conn2 t = (ds2, m1, r1, conn1)"
    using "2.prems" h by (auto simp: Let_def split: prod.splits)
  show ?case using "2.IH" [OF h [symmetric] refl refl refl rest] handle_keeps_closed [OF h] by simp
qed auto

lemma process_read_output:
  assumes "parser_ok (cn_parser conn)" and "process_read cap fx env d conn w = Some (r, conn1, w1)"
  shows "prefix (outgoing sk conn) (outgoing sk conn1)" and "cn_write_position conn1 \<le> length (cn_write_buffer conn1)"
    and "\<not> isl r \<Longrightarrow> \<not> cn_closed conn1 \<Longrightarrow> parser_ok (cn_parser conn1)"
proof -
  obtain x where "serve cap fx env (pending (cn_parser conn) @ d) (bare conn) w = Some x" "read_agrees conn x (r, conn1, w1)"
    using process_read_serve [OF assms(1), of cap fx env d w] assms(2) by (auto simp: option_rel_Some2)
  then obtain out rest where
    x: "unwritten conn1 = unwritten conn @ out" "cn_write_position conn1 \<le> length (cn_write_buffer conn1)"
      "\<And>bs. rest = Some bs \<Longrightarrow> parser_ok (cn_parser conn1)" "rest = None \<Longrightarrow> isl r \<or> cn_closed (bare conn1)"
    by (cases x) (auto simp: read_agrees_def)
  show "prefix (outgoing sk conn) (outgoing sk conn1)" by (simp add: outgoing_def x(1))
  show "cn_write_position conn1 \<le> length (cn_write_buffer conn1)" by (rule x(2))
  show "\<not> isl r \<Longrightarrow> \<not> cn_closed conn1 \<Longrightarrow> parser_ok (cn_parser conn1)" using x(3,4) by (cases rest) auto
qed

lemma finish_read_output:
  assumes "finish_read t ops ws sk conn m sh = (ds, failed, sk1, conn1, m1, sh1)"
    and "cn_write_position conn \<le> length (cn_write_buffer conn)"
  shows "prefix (outgoing sk conn) (outgoing sk1 conn1)" and "parser_ok (cn_parser conn) \<Longrightarrow> io_ok conn1"
proof -
  obtain ds1 m2 r2 conn2 where h: "handle_operations m (sh_registry sh) ops conn t = (ds1, m2, r2, conn2)" by (metis prod_cases4)
  obtain out where out: "appends out conn conn2" using operations_append [OF h] by blast
  note u = appends_unwritten [OF out assms(2)]
  obtain out1 where out1: "unwritten (process_pubsub_messages conn2) = unwritten conn2 @ out1"
    using process_messages_output(1) u by blast
  obtain b sk2 conn3 where w: "write_pending ws sk (process_pubsub_messages conn2) = (b, sk2, conn3)" by (metis prod_cases3)
  have "outgoing sk1 conn1 = outgoing sk2 conn3" "conn1 = conn3"
    using assms(1) by (auto simp: finish_read_def h w Let_def outgoing_def)
  moreover have "outgoing sk2 conn3 = outgoing sk conn @ out @ out1"
    using write_pending_output(1) [OF w] u out1 by (simp add: outgoing_def)
  ultimately show "prefix (outgoing sk conn) (outgoing sk1 conn1)" by simp
  assume "parser_ok (cn_parser conn)"
  then have "io_ok (process_pubsub_messages conn2)" using process_messages_output(2) u out by (simp add: appends_def)
  with write_pending_output(2) [OF w] \<open>conn1 = conn3\<close> show "io_ok conn1" by simp
qed

lemma read_loop_output:
  assumes "io_ok conn" and "run_end (read_loop cap fx env t reads (ds, b, sk, conn, m, sh)) = Some (returned, ds', b', sk', conn', m', sh')"
  shows "prefix (outgoing sk conn) (outgoing sk' conn') \<and> (\<not> b' \<or> \<not> returned \<longrightarrow> io_ok conn')"
  using assms
proof (induction reads arbitrary: ds b sk conn m sh)
  case (Cons rd reads)
  obtain result ws where rd: "rd = (result, ws)" by force
  show ?case
  proof (cases "\<exists>data. result = ReadData data")
    case False
    with Cons.prems rd show ?thesis by (cases result) auto
  next
    case True
    then obtain data where d: "result = ReadData data" by blast
    with Cons.prems(2) rd obtain r conn1 w1 where p: "process_read cap fx env data conn (sh_world sh) = Some (r, conn1, w1)"
      by (cases "process_read cap fx env data conn (sh_world sh)") auto
    have "parser_ok (cn_parser conn)" using Cons.prems(1) by (simp add: io_ok_def)
    note out = process_read_output [OF this p]
    show ?thesis
    proof (cases r)
      case (Inl e)
      with Cons.prems rd d p out(1) show ?thesis by (cases e) auto
    next
      case (Inr ops)
      obtain ds1 failed sk1 conn2 m1 sh1 where f: "finish_read t ops ws sk conn1 m (sh\<lparr>sh_world := w1\<rparr>) = (ds1, failed, sk1, conn2, m1, sh1)"
        by (metis prod_cases6)
      note fin = finish_read_output [OF f out(2)]
      have pre: "prefix (outgoing sk conn) (outgoing sk1 conn2)" using out(1) fin(1) by (rule prefix_order.trans)
      show ?thesis
      proof (cases "cn_closed conn2")
        case True
        with Cons.prems(2) rd d p Inr f pre show ?thesis by auto
      next
        case False
        have "cn_closed conn2 = cn_closed conn1"
          using f by (auto simp: finish_read_def Let_def split: prod.splits dest!: write_pending_keeps handle_operations_closed)
        with False have "io_ok conn2" using fin(2) out(3) Inr by simp
        from Cons.IH [OF this, of "ds @ ds1" "b \<or> failed" sk1 m1 sh1] Cons.prems(2) rd d p Inr f False pre show ?thesis
          by (auto intro: prefix_order.trans)
      qed
    qed
  qed
qed auto

section \<open>Deliveries\<close>

definition extends :: "nat \<times> socket \<times> connection \<Rightarrow> nat \<times> socket \<times> connection \<Rightarrow> bool" where
  "extends = (\<lambda>(t, sk, conn) (t', sk', conn'). t' = t \<and> prefix (outgoing sk conn) (outgoing sk' conn') \<and> io_ok conn')"

definition all_io_ok :: "(nat \<times> socket \<times> connection) list \<Rightarrow> bool" where
  "all_io_ok conns \<longleftrightarrow> (\<forall>(t, sk, conn) \<in> set conns. io_ok conn)"

lemma all_io_ok_simps [simp]:
  "all_io_ok []" "all_io_ok ((t, sk, conn) # conns) \<longleftrightarrow> io_ok conn \<and> all_io_ok conns"
  "all_io_ok (xs @ ys) \<longleftrightarrow> all_io_ok xs \<and> all_io_ok ys"
  by (simp_all add: all_io_ok_def ball_Un)

lemma all_io_ok_update: "all_io_ok conns \<Longrightarrow> io_ok conn \<Longrightarrow> all_io_ok (AList.update t (sk, conn) conns)"
  by (induction conns) auto

lemma all_io_ok_delete: "all_io_ok conns \<Longrightarrow> all_io_ok (AList.delete t conns)"
  by (auto simp: all_io_ok_def AList.delete_eq)

lemma all_io_ok_lookup: "all_io_ok conns \<Longrightarrow> map_of conns t = Some (sk, conn) \<Longrightarrow> io_ok conn"
  by (auto simp: all_io_ok_def dest!: map_of_SomeD)

lemma extends_refl: "all_io_ok conns \<Longrightarrow> list_all2 extends conns conns"
  by (induction conns) (auto simp: extends_def)

lemma extends_trans: "extends a b \<Longrightarrow> extends b c \<Longrightarrow> extends a c"
  by (auto simp: extends_def intro: prefix_order.trans)

lemma extends_io_ok: "list_all2 extends conns conns' \<Longrightarrow> all_io_ok conns'"
  by (induction conns conns' rule: list_all2_induct) (auto simp: extends_def)

lemma extends_lookup:
  "list_all2 extends conns conns' \<Longrightarrow> map_of conns' t = Some (sk', conn') \<Longrightarrow>
     \<exists>sk conn. map_of conns t = Some (sk, conn) \<and> prefix (outgoing sk conn) (outgoing sk' conn')"
  by (induction conns conns' rule: list_all2_induct) (auto simp: extends_def split: if_splits)

lemma deliver_message_extends: "all_io_ok conns \<Longrightarrow> list_all2 extends conns (deliver_message c msg ws conns)"
proof (induction c msg ws conns rule: deliver_message.induct)
  case (2 c msg ws t sk conn rest)
  let ?conn = "queue_pubsub_message msg conn"
  obtain b sk1 conn1 where w: "write_pending ws sk (process_pubsub_messages ?conn) = (b, sk1, conn1)" by (metis prod_cases3)
  have ok: "io_ok conn" using "2.prems" by simp
  have q: "unwritten ?conn = unwritten conn" "cn_write_position ?conn \<le> length (cn_write_buffer ?conn)" "parser_ok (cn_parser ?conn)"
    using ok by (simp_all add: queue_pubsub_message_def unwritten_def io_ok_def)
  have "io_ok conn1" using write_pending_output(2) [OF w] process_messages_output(2) [OF q(2,3)] by simp
  moreover have "prefix (outgoing sk conn) (outgoing sk1 conn1)"
    using write_pending_output(1) [OF w] process_messages_output(1) [OF q(2)] q(1) by (auto simp: outgoing_def)
  ultimately have "extends (t, sk, conn) (t, sk1, conn1)" by (simp add: extends_def)
  with "2" w extends_refl show ?case by (auto simp: extends_def)
qed simp

lemma deliver_messages_extends: "all_io_ok conns \<Longrightarrow> list_all2 extends conns (deliver_messages ds results conns)"
proof (induction ds results conns rule: deliver_messages.induct)
  case (2 c msg ds conns)
  note one = deliver_message_extends [OF "2.prems", of c msg "[]"]
  from list_all2_trans [OF extends_trans one "2.IH" [OF extends_io_ok [OF one]]] show ?case by simp
next
  case (3 c msg ds ws results conns)
  note one = deliver_message_extends [OF "3.prems", of c msg ws]
  from list_all2_trans [OF extends_trans one "3.IH" [OF extends_io_ok [OF one]]] show ?case by simp
qed (simp add: extends_refl)

section \<open>Handlers\<close>

text \<open>A handler keeps the buffers in order, and of every connection that stays it extends the output.\<close>

definition outputs_grow :: "(nat \<times> socket \<times> connection) list \<Rightarrow> (nat \<times> socket \<times> connection) list \<Rightarrow> bool" where
  "outputs_grow conns conns' \<longleftrightarrow> all_io_ok conns' \<and> (\<forall>t sk conn sk' conn'. map_of conns t = Some (sk, conn) \<longrightarrow>
     map_of conns' t = Some (sk', conn') \<longrightarrow> prefix (outgoing sk conn) (outgoing sk' conn'))"

lemma outputs_grow_refl: "all_io_ok conns \<Longrightarrow> outputs_grow conns conns"
  by (simp add: outputs_grow_def)

lemma outputs_grow_deliver:
  assumes "outputs_grow conns conns1" and "list_all2 extends conns1 conns2"
  shows "outputs_grow conns conns2"
  using assms extends_lookup [OF assms(2)] extends_io_ok [OF assms(2)]
  unfolding outputs_grow_def by (fastforce intro: prefix_order.trans)

lemma inbox_grows:
  assumes "all_io_ok (wk_connections wk)" and "inbox_step results wk sh = (wk1, sh1)"
  shows "outputs_grow (wk_connections wk) (wk_connections wk1)"
proof -
  obtain ds where "wk_connections wk1 = deliver_messages ds results (wk_connections wk)"
    using assms(2) by (auto simp: inbox_step_def split: prod.splits)
  with outputs_grow_deliver [OF outputs_grow_refl deliver_messages_extends] assms(1) show ?thesis by simp
qed

lemma accept_grows:
  assumes "all_io_ok (wk_connections wk)" and "wk_next_token wk \<notin> fst ` set (wk_connections wk)"
    and "accept_connection env config addr wk sh = (wk1, sh1)"
  shows "outputs_grow (wk_connections wk) (wk_connections wk1)"
proof -
  obtain sk conn where "wk_connections wk1 = wk_connections wk @ [(wk_next_token wk, sk, conn)]" and "io_ok conn"
    using assms(2,3) io_ok_new by (auto simp: accept_connection_def Let_def update_fresh)
  with assms(1) show ?thesis by (auto simp: outputs_grow_def map_add_def split: option.splits)
qed

lemma delete_update_idem: "AList.delete k (AList.update k v al) = AList.delete k al"
  by (induction al) auto

lemma event_grows:
  assumes "all_io_ok (wk_connections wk)" and "distinct (map fst (wk_connections wk))"
    and "run_end (handle_event cap fx env token writes reads later wk sh) = Some (returned, wk1, sh1)"
  shows "outputs_grow (wk_connections wk) (wk_connections wk1)"
proof (cases "map_of (wk_connections wk) token")
  case None
  with assms show ?thesis by (auto simp: handle_event_def outputs_grow_refl)
next
  case (Some entry)
  then obtain sk conn where e: "map_of (wk_connections wk) token = Some (sk, conn)" by (cases entry) auto
  obtain failed sk1 conn1 where w: "(case writes of None \<Rightarrow> (False, sk, conn) | Some ws \<Rightarrow> handle_writable ws sk conn) = (failed, sk1, conn1)"
    by (metis prod_cases3)
  have first: "outgoing sk1 conn1 = outgoing sk conn \<and> io_ok conn1"
  proof (cases writes)
    case (Some ws)
    obtain b sk2 conn2 where p: "write_pending ws sk conn = (b, sk2, conn2)" by (metis prod_cases3)
    have "outgoing sk1 conn1 = outgoing sk2 conn2" "conn1 = conn2"
      using w Some p by (auto simp: handle_writable_def outgoing_def)
    with write_pending_output(1,2) [OF p] all_io_ok_lookup [OF assms(1) e] show ?thesis by simp
  qed (use w all_io_ok_lookup [OF assms(1) e] in auto)
  let ?start = "([], failed, sk1, conn1, wk_manager wk, sh)"
  let ?run = "case reads of None \<Rightarrow> Returns ?start | Some rs \<Rightarrow> read_loop cap fx env (wk_thread_id wk) rs ?start"
  let ?conns = "\<lambda>sk2 conn2. AList.update token (sk2, conn2) (wk_connections wk)"
  have res: "handle_event cap fx env token writes reads later wk sh = (case ?run of Hangs \<Rightarrow> Hangs
      | Panics (ds, should_close, sk2, conn2, m, sh1) \<Rightarrow> Panics (wk\<lparr>wk_manager := m, wk_connections := ?conns sk2 conn2\<rparr>, sh1)
      | Returns (ds, should_close, sk2, conn2, m, sh1) \<Rightarrow>
        (let wk1 = wk\<lparr>wk_manager := m, wk_connections := ?conns sk2 conn2\<rparr>;
             (wk2, sh2) = (if should_close then drop_connection token conn2 wk1 sh1 else (wk1, sh1))
         in Returns (wk2\<lparr>wk_connections := deliver_messages ds later (wk_connections wk2)\<rparr>, sh2)))"
    unfolding handle_event_def e option.case prod.case w Let_def ..
  with assms(3) obtain ds b sk2 conn2 m sh2 where run: "run_end ?run = Some (returned, ds, b, sk2, conn2, m, sh2)"
    by (cases ?run) (auto simp: Let_def split: prod.splits)
  have out: "prefix (outgoing sk conn) (outgoing sk2 conn2) \<and> (\<not> b \<or> \<not> returned \<longrightarrow> io_ok conn2)"
  proof (cases reads)
    case None
    with run first show ?thesis by auto
  next
    case (Some rs)
    with run first read_loop_output [of conn1] show ?thesis by (metis option.case(2))
  qed
  have stays: "outputs_grow (wk_connections wk) (?conns sk2 conn2)" if "io_ok conn2"
    using that out assms(1) e by (auto simp: outputs_grow_def update_conv' all_io_ok_update)
  have goes: "outputs_grow (wk_connections wk) (AList.delete token (?conns sk2 conn2))"
  proof -
    have "AList.delete token (?conns sk2 conn2) = AList.delete token (wk_connections wk)" by (simp add: delete_update_idem)
    then show ?thesis using all_io_ok_delete [OF assms(1)] by (auto simp: outputs_grow_def delete_conv')
  qed
  show ?thesis
  proof (cases returned)
    case False
    with run have "?run = Panics (ds, b, sk2, conn2, m, sh2)" by (cases ?run) auto
    with assms(3) res have "wk_connections wk1 = ?conns sk2 conn2" by auto
    with stays out False show ?thesis by simp
  next
    case True
    with run have run: "?run = Returns (ds, b, sk2, conn2, m, sh2)" by (cases ?run) auto
    let ?mid = "if b then AList.delete token (?conns sk2 conn2) else ?conns sk2 conn2"
    have "wk_connections wk1 = deliver_messages ds later ?mid"
      using assms(3) res run by (auto simp: Let_def drop_connection_def split: prod.splits if_splits)
    moreover have "outputs_grow (wk_connections wk) ?mid" using stays goes out by simp
    ultimately show ?thesis
      using outputs_grow_deliver deliver_messages_extends by (metis outputs_grow_def)
  qed
qed

end
