(* ===== verification/Event_Loop.thy ===== *)
theory Event_Loop
  imports Server
begin

text \<open>
  \<open>src/src/server.rs\<close>: the control flow around the handlers of \<open>Server\<close>: the loop that accepts
  connections, the event loop of a worker with its exits, and all workers of a server with
  what they share. The results of the calls to the operating system are inputs.
\<close>

section \<open>Accepting\<close>

text \<open>
  An accepted connection is configured and registered for events. Each of the two may fail,
  and the \<open>?\<close> then ends the worker; the token has been taken before the second.
\<close>

datatype accept_setup = Configured | NodelayFailed bytes | RegisterFailed bytes

datatype accept_result = Accepted env bytes accept_setup | AcceptBlocked | AcceptFailed bytes

fun accept_loop ::
  "config \<Rightarrow> accept_result list \<Rightarrow> worker \<Rightarrow> 's shared \<Rightarrow> (server_error + unit) \<times> worker \<times> 's shared" where
  "accept_loop config [] wk sh = (Inr (), wk, sh)"
| "accept_loop config (AcceptBlocked # results) wk sh = (Inr (), wk, sh)"
| "accept_loop config (AcceptFailed e # results) wk sh = (Inr (), wk, sh)"
| "accept_loop config (Accepted env addr setup # results) wk sh = (case setup of
     NodelayFailed e \<Rightarrow> (Inl (Io e), wk, sh)
   | RegisterFailed e \<Rightarrow> (Inl (Io e), wk\<lparr>wk_next_token := wk_next_token wk + 1\<rparr>, sh)
   | Configured \<Rightarrow> (case accept_connection env config addr wk sh of
       (wk1, sh1) \<Rightarrow> accept_loop config results wk1 sh1))"

section \<open>The event loop of a worker\<close>

text \<open>
  \<open>Acceptable\<close> is an event of the listener, \<open>Ready\<close> one of a connection, with the arguments
  of \<open>handle_event\<close>.
\<close>

datatype event =
    Acceptable "accept_result list"
  | Ready env nat "write_result list option" "(read_result \<times> write_result list) list option" "write_result list list"

definition handle_one ::
  "nat \<Rightarrow> 's feox \<Rightarrow> config \<Rightarrow> event \<Rightarrow> worker \<Rightarrow> 's shared \<Rightarrow> ((server_error + unit) \<times> worker \<times> 's shared) run" where
  "handle_one cap fx config ev wk sh = (case ev of
     Acceptable results \<Rightarrow> Returns (accept_loop config results wk sh)
   | Ready env token writes reads later \<Rightarrow> (case handle_event cap fx env token writes reads later wk sh of
       Hangs \<Rightarrow> Hangs
     | Panics st \<Rightarrow> Panics (Inr (), st)
     | Returns st \<Rightarrow> Returns (Inr (), st)))"

datatype poll_result = PollFailed bytes | Polled "event list"

text \<open>
  Where a worker is: at the head of the loop, within the events of an iteration, at its end
  with the result of \<open>run_worker\<close>, or gone in a panic.
\<close>

datatype stage = Looping | Handling "event list" | Ended "server_error + unit" | Crashed

text \<open>
  One step of a worker. At the head of the loop it looks at the shutdown flag, delivers what
  is in its inbox and waits; \<open>results\<close> and \<open>poll\<close> are used there only. An error of \<open>poll\<close>, of
  the configuration of a socket or of its registration ends the worker as it is; only the
  shutdown flag leads to the cleanup. \<open>None\<close> is a handler that does not return.
\<close>

definition worker_step ::
  "nat \<Rightarrow> 's feox \<Rightarrow> config \<Rightarrow> bool \<Rightarrow> write_result list list \<Rightarrow> poll_result \<Rightarrow> stage \<times> worker \<times> 's shared \<Rightarrow>
     (stage \<times> worker \<times> 's shared) option" where
  "worker_step cap fx config stop results poll = (\<lambda>(ctl, wk, sh). case ctl of
     Looping \<Rightarrow>
       if stop then Some (Ended (Inr ()), shutdown_worker wk sh)
       else (case inbox_step results wk sh of (wk1, sh1) \<Rightarrow> (case poll of
         PollFailed e \<Rightarrow> Some (Ended (Inl (Io e)), wk1, sh1)
       | Polled events \<Rightarrow> Some (Handling events, wk1, sh1)))
   | Handling [] \<Rightarrow> Some (Looping, wk, sh)
   | Handling (ev # events) \<Rightarrow> (case handle_one cap fx config ev wk sh of
       Hangs \<Rightarrow> None
     | Panics (_, wk1, sh1) \<Rightarrow> Some (Crashed, wk1, sh1)
     | Returns (Inl e, wk1, sh1) \<Rightarrow> Some (Ended (Inl e), wk1, sh1)
     | Returns (Inr _, wk1, sh1) \<Rightarrow> Some (Handling events, wk1, sh1))
   | Ended r \<Rightarrow> Some (ctl, wk, sh)
   | Crashed \<Rightarrow> Some (ctl, wk, sh))"

section \<open>All workers\<close>

text \<open>\<open>sy_stop\<close> is the shutdown flag.\<close>

record 's system =
  sy_control :: "stage list"
  sy_workers :: "worker list"
  sy_shared :: "'s shared"
  sy_stop :: bool

text \<open>
  \<open>Server::run\<close>: the listener is bound, then each worker is started. \<open>setup\<close> gives the error of a
  worker whose poll instance or listener registration fails, and which then ends at once.
\<close>

definition run_server ::
  "env \<Rightarrow> config \<Rightarrow> 's shared \<Rightarrow> bytes + unit \<Rightarrow> (nat \<Rightarrow> bytes option) \<Rightarrow> server_error + 's system" where
  "run_server env config sh bind setup = (case bind of
     Inl e \<Rightarrow> Inl (Io e)
   | Inr _ \<Rightarrow> Inr \<lparr>
       sy_control = map (\<lambda>i. case setup i of Some e \<Rightarrow> Ended (Inl (Io e)) | None \<Rightarrow> Looping) [0..<cfg_threads config],
       sy_workers = start_workers config,
       sy_shared = sh\<lparr>sh_registry := new_global_registry (cfg_threads config)\<rparr>,
       sy_stop = False\<rparr>)"

text \<open>\<open>Server::shutdown\<close> and \<open>Server::active_connections\<close>.\<close>

definition request_shutdown :: "'s system \<Rightarrow> 's system" where
  "request_shutdown sy = sy\<lparr>sy_stop := True\<rparr>"

definition active_connections :: "'s system \<Rightarrow> u64" where
  "active_connections sy = sh_active_connections (sy_shared sy)"

text \<open>\<open>run\<close> returns when every worker has ended, in whatever way.\<close>

fun has_ended :: "stage \<Rightarrow> bool" where
  "has_ended (Ended r) = True"
| "has_ended Crashed = True"
| "has_ended _ = False"

definition run_returns :: "'s system \<Rightarrow> bool" where
  "run_returns sy \<longleftrightarrow> list_all has_ended (sy_control sy)"

text \<open>A step of the worker \<open>i\<close> within the system.\<close>

definition system_step ::
  "nat \<Rightarrow> 's feox \<Rightarrow> config \<Rightarrow> nat \<Rightarrow> write_result list list \<Rightarrow> poll_result \<Rightarrow> 's system \<Rightarrow> 's system option" where
  "system_step cap fx config i results poll sy =
     (if i < length (sy_workers sy) then
        (case worker_step cap fx config (sy_stop sy) results poll (sy_control sy ! i, sy_workers sy ! i, sy_shared sy) of
           None \<Rightarrow> None
         | Some (ctl, wk, sh) \<Rightarrow> Some (sy\<lparr>sy_control := (sy_control sy)[i := ctl], sy_workers := (sy_workers sy)[i := wk],
             sy_shared := sh\<rparr>))
      else None)"

end
