(* ===== verification/System_Spec.thy ===== *)
theory System_Spec
  imports Server_Output Event_Loop
begin

text \<open>
  The whole server: the invariant of \<open>Server_Spec\<close> and the output of the connections over all
  steps of all workers.
\<close>

section \<open>Steps keep the invariant\<close>

lemma accept_token_skipped:
  assumes "server_ok gone ws sh" and "i < length ws"
  shows "server_ok gone (ws[i := (ws ! i)\<lparr>wk_next_token := wk_next_token (ws ! i) + 1\<rparr>]) sh"
proof -
  let ?wk = "(ws ! i)\<lparr>wk_next_token := wk_next_token (ws ! i) + 1\<rparr>"
  have ids: "ids ?wk = ids (ws ! i)" by (simp add: ids_def)
  have "worker_ok (sh_connection_id sh) i (ws ! i)" using assms by (simp add: server_ok_def)
  then have "worker_ok (sh_connection_id sh) i ?wk" unfolding worker_ok_def ids by fastforce
  then have "worker_ok (sh_connection_id sh) j (ws[i := ?wk] ! j)" if "j < length ws" for j
    using assms that by (cases "j = i") (simp_all add: server_ok_def)
  moreover have "map wk_manager (ws[i := ?wk]) = map wk_manager ws"
    using assms(2) by (simp add: map_update list_update_same_conv)
  ultimately show ?thesis
    using assms(1) all_ids_same [OF assms(2) ids] by (simp add: server_ok_def)
qed

lemma accept_loop_ok:
  assumes "server_ok gone ws sh" and "i < length ws" and "accept_loop config results (ws ! i) sh = (r, wk, sh1)"
  shows "server_ok gone (ws[i := wk]) sh1"
  using assms
proof (induction results arbitrary: ws sh)
  case (Cons result results)
  show ?case
  proof (cases "\<exists>env addr. result = Accepted env addr Configured")
    case True
    then obtain env addr where a: "result = Accepted env addr Configured" by blast
    obtain wk1 sh2 where c: "accept_connection env config addr (ws ! i) sh = (wk1, sh2)" by force
    have "accept_loop config results (ws[i := wk1] ! i) sh2 = (r, wk, sh1)" using Cons.prems(2,3) a c by simp
    from Cons.IH [OF accept_server_ok [OF Cons.prems(1,2) c] _ this] Cons.prems(2) show ?thesis by simp
  next
    case False
    with Cons.prems accept_token_skipped [OF Cons.prems(1,2)] show ?thesis
      by (cases result) (auto split: accept_setup.splits)
  qed
qed auto

lemma server_ok_more_gone:
  "server_ok gone ws sh \<Longrightarrow> server_ok (gone + n) ws (sh\<lparr>sh_active_connections := sh_active_connections sh + n\<rparr>)"
  by (simp add: server_ok_def)

lemma update_same_first: "AList.update k v ((k, v) # al) = (k, v) # al"
  by simp

text \<open>
  The cleanup drops one connection after the other, as the end of a connection does, but does
  not count it.
\<close>

lemma cleanup_ok:
  assumes "server_ok gone ws sh" and "i < length ws" and "cleanup (wk_connections (ws ! i)) (wk_manager (ws ! i)) sh = (m, sh1)"
  shows "server_ok (gone + word_of_nat (length (wk_connections (ws ! i))))
      (ws[i := (ws ! i)\<lparr>wk_manager := m, wk_connections := []\<rparr>]) sh1 \<and>
    sh_active_connections sh1 = sh_active_connections sh"
  using assms
proof (induction "wk_connections (ws ! i)" arbitrary: ws sh gone)
  case Nil
  have "m = wk_manager (ws ! i)" "sh1 = sh" using Nil.prems(3) Nil.hyps [symmetric] by simp_all
  then have "(ws ! i)\<lparr>wk_manager := m, wk_connections := []\<rparr> = ws ! i" using Nil.hyps by simp
  with Nil.prems(1) Nil.hyps [symmetric] \<open>sh1 = sh\<close> show ?case by simp
next
  case (Cons e rest)
  obtain token sk conn where e: "e = (token, sk, conn)" by (metis prod_cases3)
  have conns: "wk_connections (ws ! i) = (token, sk, conn) # rest" using Cons.hyps(2) e by simp
  have "worker_ok (sh_connection_id sh) i (ws ! i)" using Cons.prems(1,2) by (simp add: server_ok_def)
  then have "token \<notin> fst ` set rest" by (simp add: worker_ok_def conns)
  then have del: "AList.delete token rest = rest" by (induction rest) auto
  obtain wk2 sh2 where d: "drop_connection token conn (ws ! i) sh = (wk2, sh2)" by force
  obtain m1 r1 where cd: "connection_dropped (cn_connection_id conn) (wk_manager (ws ! i)) (sh_registry sh) = (m1, r1)" by force
  have same: "(ws ! i)\<lparr>wk_manager := wk_manager (ws ! i), wk_connections := AList.update token (sk, conn) (wk_connections (ws ! i))\<rparr> = ws ! i"
    by (simp add: conns)
  have map: "map_of (wk_connections (ws ! i)) token = Some (sk, conn)" by (simp add: conns)
  have "event_inv (map wk_manager ws) i (cn_connection_id conn) sh ([], False, sk, conn, wk_manager (ws ! i), sh)"
    by (rule event_start(1) [OF Cons.prems(1,2) map refl])
  from event_drop_ok [OF Cons.prems(1,2) map this, unfolded same, OF d] have ok: "server_ok gone (ws[i := wk2]) sh2" .
  define sh3 where "sh3 = sh2\<lparr>sh_active_connections := sh_active_connections sh2 + 1\<rparr>"
  have wk2: "wk2 = (ws ! i)\<lparr>wk_manager := m1, wk_connections := rest\<rparr>" and sh3: "sh3 = sh\<lparr>sh_registry := r1,
      sh_world := (sh_world sh)\<lparr>wd_clients := unregister_client (cn_connection_id conn) (wd_clients (sh_world sh))\<rparr>\<rparr>"
    using d cd by (auto simp: drop_connection_def sh3_def conns del Let_def)
  have "cleanup (wk_connections (ws ! i)) (wk_manager (ws ! i)) sh = cleanup rest m1 sh3"
    by (simp add: conns cd Let_def sh3)
  then have rest: "cleanup (wk_connections (ws[i := wk2] ! i)) (wk_manager (ws[i := wk2] ! i)) sh3 = (m, sh1)"
    using Cons.prems(2,3) by (simp add: wk2)
  have "server_ok (gone + 1) (ws[i := wk2]) sh3" using server_ok_more_gone [OF ok, of 1] by (simp add: sh3_def)
  from Cons.hyps(1) [OF _ this _ rest] Cons.prems(2)
  have "server_ok (gone + 1 + word_of_nat (length rest)) (ws[i := (ws ! i)\<lparr>wk_manager := m, wk_connections := []\<rparr>]) sh1 \<and>
      sh_active_connections sh1 = sh_active_connections sh3" by (simp add: wk2)
  moreover have "gone + 1 + word_of_nat (length rest) = gone + word_of_nat (length (wk_connections (ws ! i)))"
    by (simp add: conns)
  ultimately show ?case by (simp add: sh3)
qed

lemma shutdown_worker_ok:
  assumes "server_ok gone ws sh" and "i < length ws" and "shutdown_worker (ws ! i) sh = (wk, sh1)"
  shows "server_ok (gone + word_of_nat (length (wk_connections (ws ! i)))) (ws[i := wk]) sh1"
    and "sh_active_connections sh1 = sh_active_connections sh" and "wk_connections wk = []"
proof -
  obtain m where c: "cleanup (wk_connections (ws ! i)) (wk_manager (ws ! i)) sh = (m, sh1)"
    and wk: "wk = (ws ! i)\<lparr>wk_manager := m, wk_connections := []\<rparr>"
    using assms(3) by (auto simp: shutdown_worker_def split: prod.splits)
  from cleanup_ok [OF assms(1,2) c]
  show "server_ok (gone + word_of_nat (length (wk_connections (ws ! i)))) (ws[i := wk]) sh1"
    and "sh_active_connections sh1 = sh_active_connections sh" and "wk_connections wk = []"
    by (simp_all add: wk)
qed

section \<open>All reachable states\<close>

text \<open>
  The steps of the workers in any order, with any results of the operating system, from the
  start of a server with any configuration that it accepts; the shutdown may be requested at
  any time.
\<close>

inductive system_reach :: "nat \<Rightarrow> 's feox \<Rightarrow> config \<Rightarrow> 's system \<Rightarrow> bool" for cap fx config where
  start: "new_server build env config = Inr sh \<Longrightarrow> run_server env config sh bind setup = Inr sy \<Longrightarrow> system_reach cap fx config sy"
| worker: "system_reach cap fx config sy \<Longrightarrow> system_step cap fx config i results poll sy = Some sy' \<Longrightarrow> system_reach cap fx config sy'"
| stop: "system_reach cap fx config sy \<Longrightarrow> system_reach cap fx config (request_shutdown sy)"

text \<open>
  A worker that an error or a panic has ended still counts with the state it had: nobody else
  cleans up after it.
\<close>

definition system_inv :: "'s system \<Rightarrow> bool" where
  "system_inv sy \<longleftrightarrow> length (sy_control sy) = length (sy_workers sy) \<and>
     (\<forall>wk \<in> set (sy_workers sy). all_io_ok (wk_connections wk)) \<and>
     (\<forall>i < length (sy_workers sy). sy_control sy ! i = Ended (Inr ()) \<longrightarrow> wk_connections (sy_workers sy ! i) = []) \<and>
     (\<exists>gone. server_ok gone (sy_workers sy) (sy_shared sy) \<and> (gone \<noteq> 0 \<longrightarrow> Ended (Inr ()) \<in> set (sy_control sy)))"

lemma system_inv_start:
  assumes "new_server build env config = Inr sh" and "run_server env config sh bind setup = Inr sy"
  shows "system_inv sy"
proof -
  obtain s where sh: "sh = new_shared env config s" using assms(1) by (auto simp: new_server_def split: sum.splits)
  have sy: "sy_workers sy = start_workers config" "sy_shared sy = sh" "length (sy_control sy) = cfg_threads config"
    using assms(2) by (auto simp: run_server_def sh new_shared_def split: sum.splits)
  have none: "wk \<in> set (start_workers config) \<Longrightarrow> wk_connections wk = []" for wk
    by (auto simp: start_workers_def new_worker_def)
  then have "i < length (start_workers config) \<Longrightarrow> wk_connections (start_workers config ! i) = []" for i by simp
  with none show ?thesis
    using server_ok_start [of config env s] sy by (auto simp: system_inv_def sh) (simp_all add: start_workers_def)
qed

lemma accept_loop_grows:
  assumes "server_ok gone ws sh" and "i < length ws" and "all_io_ok (wk_connections (ws ! i))"
    and "accept_loop config results (ws ! i) sh = (r, wk, sh1)"
  shows "outputs_grow (wk_connections (ws ! i)) (wk_connections wk)"
  using assms
proof (induction results arbitrary: ws sh)
  case Nil
  then show ?case by (auto simp: outputs_grow_refl)
next
  case (Cons result results)
  show ?case
  proof (cases "\<exists>env addr. result = Accepted env addr Configured")
    case True
    then obtain env addr where a: "result = Accepted env addr Configured" by blast
    obtain wk1 sh2 where c: "accept_connection env config addr (ws ! i) sh = (wk1, sh2)" by force
    have "worker_ok (sh_connection_id sh) i (ws ! i)" using Cons.prems(1,2) by (simp add: server_ok_def)
    then have fresh: "wk_next_token (ws ! i) \<notin> fst ` set (wk_connections (ws ! i))" by (fastforce simp: worker_ok_def)
    note one = accept_grows [OF Cons.prems(3) fresh c]
    have "accept_loop config results (ws[i := wk1] ! i) sh2 = (r, wk, sh1)" using Cons.prems(2,4) a c by simp
    from Cons.IH [OF accept_server_ok [OF Cons.prems(1,2) c] _ _ this] Cons.prems(2) one
    have rest: "outputs_grow (wk_connections wk1) (wk_connections wk)" by (simp add: outputs_grow_def)
    have "map_of (wk_connections (ws ! i)) t = Some x \<Longrightarrow> map_of (wk_connections wk1) t = Some x" for t x
      using c fresh by (auto simp: accept_connection_def Let_def update_fresh map_add_def)
    with rest show ?thesis unfolding outputs_grow_def by blast
  next
    case False
    with Cons.prems outputs_grow_refl [OF Cons.prems(3)] show ?thesis
      by (cases result) (auto split: accept_setup.splits)
  qed
qed

text \<open>One step of a worker, as far as the invariant and the outputs go.\<close>

lemma worker_step_inv:
  assumes "server_ok gone ws sh" and "i < length ws" and "all_io_ok (wk_connections (ws ! i))"
    and "worker_step cap fx config stop results poll (ctl, ws ! i, sh) = Some (ctl', wk, sh')"
  shows "outputs_grow (wk_connections (ws ! i)) (wk_connections wk)"
    and "(ctl = Looping \<and> stop \<and> ctl' = Ended (Inr ()) \<and> (\<exists>gone'. server_ok gone' (ws[i := wk]) sh')) \<or>
      server_ok gone (ws[i := wk]) sh'"
proof -
  have dist: "distinct (map fst (wk_connections (ws ! i)))" using assms(1,2) by (simp add: server_ok_def worker_ok_def)
  have "outputs_grow (wk_connections (ws ! i)) (wk_connections wk) \<and>
    ((ctl = Looping \<and> stop \<and> ctl' = Ended (Inr ()) \<and> (\<exists>gone'. server_ok gone' (ws[i := wk]) sh')) \<or>
      server_ok gone (ws[i := wk]) sh')"
  proof (cases ctl)
    case Looping
    show ?thesis
    proof (cases stop)
      case True
      with assms(4) Looping have d: "shutdown_worker (ws ! i) sh = (wk, sh')" "ctl' = Ended (Inr ())"
        by (auto simp: worker_step_def)
      show ?thesis using shutdown_worker_ok [OF assms(1,2) d(1)] d(2) Looping True by (auto simp: outputs_grow_def)
    next
      case False
      obtain wk1 sh1 where b: "inbox_step results (ws ! i) sh = (wk1, sh1)" by force
      with assms(4) Looping False have "wk1 = wk" "sh1 = sh'" by (auto simp: worker_step_def split: poll_result.splits)
      with b inbox_server_ok [OF assms(1,2)] inbox_grows [OF assms(3)] show ?thesis by blast
    qed
  next
    case (Handling evs)
    show ?thesis
    proof (cases evs)
      case Nil
      with assms Handling show ?thesis by (auto simp: worker_step_def outputs_grow_refl)
    next
      case (Cons ev rest)
      show ?thesis
      proof (cases ev)
        case (Acceptable accepts)
        with assms(4) Handling Cons obtain r where a: "accept_loop config accepts (ws ! i) sh = (r, wk, sh')"
          by (auto simp: worker_step_def handle_one_def split: prod.splits sum.splits)
        with accept_loop_ok [OF assms(1,2)] accept_loop_grows [OF assms(1-3)] show ?thesis by blast
      next
        case (Ready env token writes reads later)
        with assms(4) Handling Cons obtain returned
          where a: "run_end (handle_event cap fx env token writes reads later (ws ! i) sh) = Some (returned, wk, sh')"
          by (cases "handle_event cap fx env token writes reads later (ws ! i) sh") (auto simp: worker_step_def handle_one_def)
        show ?thesis using handle_event_ok [OF assms(1,2) a] event_grows [OF assms(3) dist a] by simp
      qed
    qed
  qed (use assms in \<open>auto simp: worker_step_def outputs_grow_refl\<close>)
  then show "outputs_grow (wk_connections (ws ! i)) (wk_connections wk)"
    and "(ctl = Looping \<and> stop \<and> ctl' = Ended (Inr ()) \<and> (\<exists>gone'. server_ok gone' (ws[i := wk]) sh')) \<or>
      server_ok gone (ws[i := wk]) sh'" by simp_all
qed

lemma system_stepE:
  assumes "system_step cap fx config i results poll sy = Some sy'"
  obtains ctl wk sh where "i < length (sy_workers sy)"
    "worker_step cap fx config (sy_stop sy) results poll (sy_control sy ! i, sy_workers sy ! i, sy_shared sy) = Some (ctl, wk, sh)"
    "sy' = sy\<lparr>sy_control := (sy_control sy)[i := ctl], sy_workers := (sy_workers sy)[i := wk], sy_shared := sh\<rparr>"
  using assms by (auto simp: system_step_def split: if_splits option.splits)

lemma ended_stays:
  assumes "worker_step cap fx config stop results poll (ctl, wk, sh) = Some (ctl', wk', sh')" and "has_ended ctl"
  shows "ctl' = ctl \<and> wk' = wk \<and> sh' = sh"
  using assms by (cases ctl) (auto simp: worker_step_def)

lemma ended_empty:
  assumes "worker_step cap fx config stop results poll (ctl, wk, sh) = Some (Ended (Inr ()), wk', sh')"
  shows "(ctl = Ended (Inr ()) \<and> wk' = wk) \<or> wk_connections wk' = []"
  using assms
  by (cases ctl) (auto simp: worker_step_def shutdown_worker_def split: list.splits run.splits sum.splits prod.splits
      if_splits poll_result.splits)

lemma system_inv_step:
  assumes "system_inv sy" and "system_step cap fx config i results poll sy = Some sy'"
  shows "system_inv sy'"
proof -
  from assms(2) obtain ctl wk sh where i: "i < length (sy_workers sy)"
    and w: "worker_step cap fx config (sy_stop sy) results poll (sy_control sy ! i, sy_workers sy ! i, sy_shared sy) = Some (ctl, wk, sh)"
    and sy': "sy' = sy\<lparr>sy_control := (sy_control sy)[i := ctl], sy_workers := (sy_workers sy)[i := wk], sy_shared := sh\<rparr>"
    by (rule system_stepE)
  obtain gone where ok: "server_ok gone (sy_workers sy) (sy_shared sy)" and gone: "gone \<noteq> 0 \<longrightarrow> Ended (Inr ()) \<in> set (sy_control sy)"
    and len: "length (sy_control sy) = length (sy_workers sy)" and io: "\<forall>wk \<in> set (sy_workers sy). all_io_ok (wk_connections wk)"
    using assms(1) by (auto simp: system_inv_def)
  have "all_io_ok (wk_connections (sy_workers sy ! i))" using io i by simp
  note s = worker_step_inv [OF ok i this w]
  have "\<forall>wk \<in> set ((sy_workers sy)[i := wk]). all_io_ok (wk_connections wk)"
    using io s(1) set_update_subset_insert [of "sy_workers sy" i wk] by (auto simp: outputs_grow_def)
  moreover have "Ended (Inr ()) \<in> set ((sy_control sy)[i := ctl])" if e: "Ended (Inr ()) \<in> set (sy_control sy)"
  proof -
    obtain j where j: "j < length (sy_control sy)" "sy_control sy ! j = Ended (Inr ())" using e unfolding in_set_conv_nth by blast
    then have "(sy_control sy)[i := ctl] ! j = Ended (Inr ())"
      using ended_stays [OF w] by (cases "j = i") simp_all
    with j(1) show ?thesis by (metis length_list_update nth_mem)
  qed
  moreover have "Ended (Inr ()) \<in> set ((sy_control sy)[i := Ended (Inr ())])" using i len by (simp add: set_update_memI)
  moreover have "(sy_control sy)[i := ctl] ! j = Ended (Inr ()) \<longrightarrow> wk_connections ((sy_workers sy)[i := wk] ! j) = []"
    if j: "j < length (sy_workers sy)" for j
  proof (cases "j = i \<and> ctl = Ended (Inr ())")
    case True
    with w have "worker_step cap fx config (sy_stop sy) results poll
      (sy_control sy ! i, sy_workers sy ! i, sy_shared sy) = Some (Ended (Inr ()), wk, sh)" by simp
    from ended_empty [OF this] True assms(1) i show ?thesis by (auto simp: system_inv_def)
  next
    case False
    with assms(1) j len show ?thesis by (cases "j = i") (auto simp: system_inv_def)
  qed
  ultimately show ?thesis using s(2) gone len unfolding system_inv_def sy' by auto
qed

lemma system_reach_inv: "system_reach cap fx config sy \<Longrightarrow> system_inv sy"
proof (induction rule: system_reach.induct)
  case (stop sy)
  then show ?case by (simp add: system_inv_def request_shutdown_def)
qed (auto intro: system_inv_start system_inv_step)

text \<open>The output of a connection grows with every step of any worker.\<close>

lemma system_outputs_grow:
  assumes "system_inv sy" and "system_step cap fx config i results poll sy = Some sy'" and "j < length (sy_workers sy)"
  shows "outputs_grow (wk_connections (sy_workers sy ! j)) (wk_connections (sy_workers sy' ! j))"
proof -
  from assms(2) obtain ctl wk sh where i: "i < length (sy_workers sy)"
    and w: "worker_step cap fx config (sy_stop sy) results poll (sy_control sy ! i, sy_workers sy ! i, sy_shared sy) = Some (ctl, wk, sh)"
    and sy': "sy' = sy\<lparr>sy_control := (sy_control sy)[i := ctl], sy_workers := (sy_workers sy)[i := wk], sy_shared := sh\<rparr>"
    by (rule system_stepE)
  obtain gone where ok: "server_ok gone (sy_workers sy) (sy_shared sy)" and io: "\<forall>wk \<in> set (sy_workers sy). all_io_ok (wk_connections wk)"
    using assms(1) by (auto simp: system_inv_def)
  have all: "all_io_ok (wk_connections (sy_workers sy ! k))" if "k < length (sy_workers sy)" for k using io that by simp
  show ?thesis
    using worker_step_inv(1) [OF ok i all [OF i] w] outputs_grow_refl [OF all [OF assms(3)]] assms(3)
    by (cases "j = i") (simp_all add: sy')
qed

end
