(* ===== verification/Launch.thy ===== *)
theory Launch
  imports Event_Loop
begin

text \<open>
  \<open>src/src/bin/server.rs\<close>: from the command line to the running workers. Parsing the arguments
  is the library clap's, reading a configuration file is \<open>from_file\<close> of \<open>Config\<close>; the environment
  variable \<open>FEOX_AUTH_PASSWORD\<close> is an input.
\<close>

record args =
  ar_port :: nat
  ar_bind :: bytes
  ar_threads :: nat
  ar_data_path :: "bytes option"
  ar_verbose :: bool
  ar_config :: "bytes option"
  ar_log_level :: bytes
  ar_requirepass :: "bytes option"

text \<open>The values of a command line without arguments.\<close>

definition default_args :: args where
  "default_args = \<lparr>ar_port = 6379, ar_bind = ''127.0.0.1'', ar_threads = 0, ar_data_path = None,
     ar_verbose = False, ar_config = None, ar_log_level = ''info'', ar_requirepass = None\<rparr>"

definition log_filter :: "args \<Rightarrow> bytes" where
  "log_filter args =
     ''feox_server='' @ (if ar_verbose args then ''debug'' else ar_log_level args) @ '',feoxdb=info''"

definition args_config :: "nat \<Rightarrow> args \<Rightarrow> config" where
  "args_config num_cpus args =
     (let threads = (if ar_threads args = 0 then num_cpus else ar_threads args);
          config = (default_config num_cpus)\<lparr>cfg_bind_addr := ar_bind args, cfg_port := ar_port args,
            cfg_threads := threads, cfg_data_path := ar_data_path args\<rparr>
      in case ar_requirepass args of
           Some password \<Rightarrow> if password = [] then config else config\<lparr>cfg_requirepass := Some password\<rparr>
         | None \<Rightarrow> config)"

text \<open>The second result is the environment variable afterwards.\<close>

definition main_config ::
  "nat \<Rightarrow> (bytes \<Rightarrow> bytes + bytes) \<Rightarrow> (bytes \<Rightarrow> bytes + config) \<Rightarrow> args \<Rightarrow> bytes option \<Rightarrow> bytes + config \<times> bytes option" where
  "main_config num_cpus read_to_string from_str args env_var = (case ar_config args of
     Some path \<Rightarrow> from_file read_to_string from_str path env_var
   | None \<Rightarrow> Inr (args_config num_cpus args, env_var))"

definition plaintext_warning :: "config \<Rightarrow> bool" where
  "plaintext_warning config \<longleftrightarrow> cfg_requirepass config \<noteq> None \<and>
     cfg_bind_addr config \<noteq> ''127.0.0.1'' \<and> cfg_bind_addr config \<noteq> ''localhost''"

text \<open>
  \<open>main\<close>: the configuration, the server, the handler of the shutdown signal (\<open>set_handler\<close> is the
  result of installing it), and the workers. The errors that are not of the server are \<open>Other\<close>.
\<close>

definition launch ::
  "nat \<Rightarrow> (bytes \<Rightarrow> bytes + bytes) \<Rightarrow> (bytes \<Rightarrow> bytes + config) \<Rightarrow>
     (bytes option \<times> nat \<times> bool \<times> nat option \<Rightarrow> feox_error + 's) \<Rightarrow> bytes + unit \<Rightarrow> bytes + unit \<Rightarrow> (nat \<Rightarrow> bytes option) \<Rightarrow>
     env \<Rightarrow> args \<Rightarrow> bytes option \<Rightarrow> server_error + config \<times> 's system" where
  "launch num_cpus read_to_string from_str build set_handler bind setup env args env_var =
     (case main_config num_cpus read_to_string from_str args env_var of
        Inl e \<Rightarrow> Inl (Other e)
      | Inr (config, env_var1) \<Rightarrow>
          try_bind (new_server build env config) (\<lambda>sh.
          case set_handler of
            Inl e \<Rightarrow> Inl (Other e)
          | Inr _ \<Rightarrow> try_bind (run_server env config sh bind setup) (\<lambda>sy. Inr (config, sy))))"

lemma args_config_password:
  "cfg_requirepass (args_config num_cpus args) =
     (case ar_requirepass args of Some (c # cs) \<Rightarrow> Some (c # cs) | _ \<Rightarrow> None)"
  by (auto simp: args_config_def Let_def default_config_def split: option.split list.split)

lemma args_config_valid:
  "validate (args_config num_cpus args) = Inr () \<longleftrightarrow> (0 < ar_threads args \<or> 0 < num_cpus) \<and> 0 < ar_port args"
  by (auto simp: args_config_def Let_def validate_iff default_config_def split: option.split)

text \<open>Without a configuration file the environment variable is not looked at.\<close>

lemma main_config_no_file:
  "ar_config args = None \<Longrightarrow> main_config num_cpus rd from_str args env_var = Inr (args_config num_cpus args, env_var)"
  by (simp add: main_config_def)

text \<open>A program that gets as far as running workers has a valid configuration and a worker per thread of it.\<close>

lemma launchE:
  assumes "launch num_cpus rd from_str build set_handler bind setup env args env_var = Inr (config, sy)"
  obtains sh env_var1 where "main_config num_cpus rd from_str args env_var = Inr (config, env_var1)"
    "new_server build env config = Inr sh" "run_server env config sh bind setup = Inr sy"
proof -
  obtain env_var1 where c: "main_config num_cpus rd from_str args env_var = Inr (config, env_var1)"
    and rest: "try_bind (new_server build env config) (\<lambda>sh. try_bind (run_server env config sh bind setup) (\<lambda>sy. Inr (config, sy))) =
      Inr (config, sy)"
    using assms by (cases set_handler) (auto simp: launch_def try_bind_Inr split: sum.splits)
  from rest obtain sh where "new_server build env config = Inr sh" "run_server env config sh bind setup = Inr sy"
    by (auto simp: try_bind_Inr)
  with c show ?thesis by (rule that)
qed

lemma launch_workers:
  assumes "launch num_cpus rd from_str build set_handler bind setup env args env_var = Inr (config, sy)"
  shows "validate config = Inr () \<and> length (sy_workers sy) = cfg_threads config \<and> length (sy_control sy) = cfg_threads config"
  by (rule launchE [OF assms]) (auto simp: new_server_def run_server_def start_workers_def split: sum.splits)

end
