(* ===== verification/Props_Server.thy ===== *)
theory Props_Server
  imports System_Spec Launch
begin

text \<open>
  The properties of pub/sub and of the launch of the server.
\<close>

section \<open>Patterns\<close>

text \<open>C10: The pattern trie of a worker refines the set of its pattern subscriptions: after any sequence of
  insertions and removals, a lookup finds exactly the subscriptions whose pattern matches the channel, for
  patterns without classes and escapes that do not end in two stars.\<close>

theorem trie_refines_subscriptions:
  assumes "\<forall>(b, p, conn) \<in> set ops. plain_pattern p \<and> (\<forall>q. p \<noteq> q @ ''**'')"
  shows "set (find_matches (trie_run ops) ch) = {(p, conn) \<in> subscriptions ops. matches p ch}"
  using assms by (rule trie_run_finds)

theorem trie_refines_subscriptions_witness:
  "set (find_matches (trie_run [(True, ''n.*'', 1), (False, ''n.u'', 2), (True, ''n.u'', 2)]) ''n.u'') =
     {(p, conn) \<in> {(''n.*'', 1)}. matches p ''n.u''}"
proof -
  have "''n.*'' \<noteq> q @ ''**''" "''n.u'' \<noteq> q @ ''**''" for q by (auto simp: Cons_eq_append_conv)
  then show ?thesis
    using trie_refines_subscriptions [of "[(True, ''n.*'', 1), (False, ''n.u'', 2), (True, ''n.u'', 2)]" "''n.u''"]
    by (simp add: plain_pattern_def)
qed

text \<open>C38: The three matchers of the server disagree. That of KEYS and SCAN computes the declarative meaning of
  every pattern. That of PUBLISH counts and PUBSUB CHANNELS does on channel names without a star, but \<open>*\<close>
  does not match \<open>*abc\<close>. That of the deliveries misses \<open>a**\<close> on \<open>a\<close>, finds one subscription twice, and
  lets a second character class at the same place stand for the first.\<close>

theorem matchers_disagree:
  "glob_match pattern str = matches pattern str \<and>
   (CHR ''*'' \<notin> set str \<longrightarrow> registry_glob_match pattern str = matches pattern str) \<and>
   \<not> registry_glob_match ''*'' ''*abc'' \<and> matches ''*'' ''*abc'' \<and>
   find_matches (trie_insert ''a**'' c new_node) ''a'' = [] \<and> matches ''a**'' ''a'' \<and>
   find_matches (trie_insert ''*a*'' c new_node) ''aa'' = [(''*a*'', c), (''*a*'', c)] \<and>
   find_matches (trie_insert ''[b]'' c (trie_insert ''[a]'' c new_node)) ''b'' = []"
proof -
  have "find_matches (trie_insert ''a**'' c new_node) ''a'' = []" by code_simp
  moreover have "find_matches (trie_insert ''*a*'' c new_node) ''aa'' = [(''*a*'', c), (''*a*'', c)]" by code_simp
  moreover have "find_matches (trie_insert ''[b]'' c (trie_insert ''[a]'' c new_node)) ''b'' = []" by code_simp
  moreover have "matches ''a**'' ''a''" by code_simp
  ultimately show ?thesis
    using glob_match_eq_matches registry_match_no_star registry_match_star_text by auto
qed

theorem matchers_disagree_witness:
  "registry_glob_match ''n?ws.*'' ''news.uk'' = matches ''n?ws.*'' ''news.uk''"
  using matchers_disagree [of "''n?ws.*''" "''news.uk''"] by simp

section \<open>Pub/sub\<close>

text \<open>A state of two workers in which the connections 1 and 2 of the second one subscribe to \<open>c\<close> and to \<open>n*\<close>.\<close>

definition sub_c :: "manager \<times> registry" where
  "sub_c = snd (subscribe 1 [''c''] (new_manager 1) (new_global_registry 2))"

definition sub_both :: "manager \<times> registry" where
  "sub_both = snd (psubscribe 2 [''c*''] (fst sub_c) (snd sub_c))"

lemma literal_c_star: "literal_pattern ''c*''"
  by (auto simp: literal_pattern_def plain_pattern_def Cons_eq_append_conv)

lemma sub_both_reach: "pubsub_reach literal_pattern 2 [new_manager 0, fst sub_both] (snd sub_both)"
proof -
  have two: "map new_manager [0..<2] = [new_manager 0, new_manager 1]" by (simp add: upt_rec)
  obtain msgs where s: "subscribe 1 [''c''] (new_manager 1) (new_global_registry 2) = (msgs, fst sub_c, snd sub_c)"
    unfolding sub_c_def by (metis prod.collapse)
  obtain msgs' where p: "psubscribe 2 [''c*''] (fst sub_c) (snd sub_c) = (msgs', fst sub_both, snd sub_both)"
    unfolding sub_both_def by (metis prod.collapse)
  have "pubsub_reach literal_pattern 2 [new_manager 0, fst sub_c] (snd sub_c)"
    using pubsub_reach.sub [OF pubsub_reach.start, of 1 2 1 "[''c'']" msgs "fst sub_c" "snd sub_c" literal_pattern] s
    by (simp add: two)
  from pubsub_reach.psub [OF this, of 1 "[''c*'']" 2 msgs' "fst sub_both" "snd sub_both"] p literal_c_star show ?thesis by simp
qed

text \<open>C14: In every state that the workers can reach by subscribing, unsubscribing, dropping connections and
  publishing, the bookkeeping is consistent: a connection is among the subscribers of a channel exactly if the
  channel is among the channels of the connection, its subscription count is the number of its channels and
  patterns, and the registry knows for every channel the number of subscribers over all workers, exactly the
  workers that have some, and lists exactly the channels in use.\<close>

theorem pubsub_bookkeeping:
  assumes "pubsub_reach P n ms r" and "i < n"
  shows "(c \<in> set (at_key (pm_exact_subs (ms ! i)) k) \<longleftrightarrow> k \<in> set (at_key (pm_connection_channels (ms ! i)) c)) \<and>
    get_connection_subscription_count c (ms ! i) =
      card {k. c \<in> set (at_key (pm_exact_subs (ms ! i)) k)} + card {p. c \<in> set (at_key (pm_pattern_subs (ms ! i)) p)} \<and>
    get_channel_subscriber_count k r = (\<Sum>m \<leftarrow> ms. length (at_key (pm_exact_subs m) k)) \<and>
    get_pattern_subscriber_count k r = (\<Sum>m \<leftarrow> ms. length (at_key (pm_pattern_subs m) k)) \<and>
    set (get_channel_threads k r) = {j. j < n \<and> at_key (pm_exact_subs (ms ! j)) k \<noteq> []} \<and>
    set (get_all_channels r) = {k. \<exists>j < n. at_key (pm_exact_subs (ms ! j)) k \<noteq> []} \<and> distinct (get_all_channels r)"
proof -
  have ok: "system_ok ms r" "length ms = n" using pubsub_reach_ok [OF assms(1)] by simp_all
  then have "tables_inverse (at_key (pm_exact_subs (ms ! i))) (at_key (pm_connection_channels (ms ! i)))"
    using assms(2) by (auto simp: system_ok_def half_ok_def)
  then show ?thesis
    using names_of_connection [OF ok(1), of i c] thread_sets [OF ok(1), of k] all_channels_listed [OF ok(1)] ok(2) assms(2)
    by (simp add: add_once_inverse)
qed

theorem pubsub_bookkeeping_witness:
  "get_channel_subscriber_count ''c'' (snd sub_both) =
     (\<Sum>m \<leftarrow> [new_manager 0, fst sub_both]. length (at_key (pm_exact_subs m) ''c''))"
  using pubsub_bookkeeping [OF sub_both_reach, of 0 1 "''c''"] by simp

text \<open>C11: PUBLISH reaches everyone. From a reachable state in which the queue of a worker is empty, and with patterns
  that mean the same to the trie, the worker delivers (at once if it publishes, from its inbox otherwise) the
  message to the subscribers of the channel and, once per matching pattern at least, to the subscribers of the
  patterns that match it, and to nobody else; the reply counts the channel subscribers of all workers and what the
  registry counts for the patterns.\<close>

theorem publish_reaches_everyone:
  assumes "pubsub_reach literal_pattern n ms r" and "i < n" and "j < n" and "gr_queues r ! j = []"
    and "publish (ms ! i) r channel message i = (ds, r1, replied)"
  shows "set (if j = i then ds else fst (process_inbox (ms ! j) r1)) =
      {(c, PMessage channel message) |c. c \<in> set (at_key (pm_exact_subs (ms ! j)) channel)} \<union>
      {(c, PPatternMessage p channel message) |c p. c \<in> set (at_key (pm_pattern_subs (ms ! j)) p) \<and> matches p channel} \<and>
    replied = (\<Sum>m \<leftarrow> ms. length (at_key (pm_exact_subs m) channel)) + get_total_pattern_matches channel r \<and>
    system_ok ms r1"
proof -
  have ok: "system_ok ms r" "length ms = n" using pubsub_reach_ok [OF assms(1)] by simp_all
  note pub = publish_total [OF ok(1) assms(5)]
  have "(if j = i then ds else fst (process_inbox (ms ! j) r1)) = delivered ms i j channel message"
    using pub publish_across [OF ok(1) _ _ assms(5), of j] ok(2) assms(3,4)
    by (simp add: delivered_def process_inbox_def QUEUE_BOUND_def) (auto simp: process_inbox_def system_ok_def)
  then show ?thesis using delivered_set [OF assms(1-3), of channel message] pub by simp
qed

lemma sub_both_queues: "gr_queues (snd sub_both) = [[], []]"
  by code_simp

theorem publish_reaches_everyone_witness:
  "\<exists>ds r1 replied. publish (new_manager 0) (snd sub_both) ''c'' ''hi'' 0 = (ds, r1, replied) \<and> replied = 2 \<and>
     (1, PMessage ''c'' ''hi'') \<in> set (fst (process_inbox (fst sub_both) r1))"
proof -
  obtain ds r1 replied where p: "publish (new_manager 0) (snd sub_both) ''c'' ''hi'' 0 = (ds, r1, replied)" by (metis prod_cases3)
  have e: "at_key (pm_exact_subs (fst sub_both)) ''c'' = [1]" "at_key (pm_exact_subs (new_manager 0)) ''c'' = []"
    "get_total_pattern_matches ''c'' (snd sub_both) = 1" by code_simp+
  from publish_reaches_everyone [OF sub_both_reach, of 0 1 "''c''" "''hi''" ds r1 replied] p e sub_both_queues show ?thesis
    by auto
qed

text \<open>C26: A worker other than the publishing one that has a subscriber of the channel and a subscriber of a
  matching pattern delivers the message to the latter twice: it is sent to such a worker as a channel message and
  again as a pattern message, and the former is delivered to the patterns too.\<close>

theorem publish_delivers_twice:
  assumes "pubsub_reach literal_pattern n ms r" and "j < n" and "i \<noteq> j" and "gr_queues r ! j = []"
    and "publish (ms ! i) r channel message i = (ds, r1, replied)"
    and "at_key (pm_exact_subs (ms ! j)) channel \<noteq> []"
    and "c \<in> set (at_key (pm_pattern_subs (ms ! j)) p)" and "matches p channel"
  shows "2 \<le> count_list (fst (process_inbox (ms ! j) r1)) (c, PPatternMessage p channel message)"
proof -
  have ok: "system_ok ms r" "length ms = n" using pubsub_reach_ok [OF assms(1)] by simp_all
  have "fst (process_inbox (ms ! j) r1) = publish_local channel message (ms ! j) @ pattern_deliveries channel message (ms ! j)"
    using publish_across [OF ok(1) _ _ assms(5), of j] ok assms(2-4,6,7)
    by (auto simp: process_inbox_def QUEUE_BOUND_def sent_to_def system_ok_def split: if_splits)
  moreover have "(c, PPatternMessage p channel message) \<in> set (pattern_deliveries channel message (ms ! j))"
    using pattern_deliveries_reach [OF assms(1,2), of channel message] assms(7,8) by auto
  then have "0 < count_list (pattern_deliveries channel message (ms ! j)) (c, PPatternMessage p channel message)"
    by (simp add: count_list_0_iff flip: neq0_conv)
  ultimately show ?thesis by (simp add: publish_local_def)
qed

theorem publish_delivers_twice_witness:
  "\<exists>ds r1 replied. publish (new_manager 0) (snd sub_both) ''c'' ''hi'' 0 = (ds, r1, replied) \<and>
     2 \<le> count_list (fst (process_inbox (fst sub_both) r1)) (2, PPatternMessage ''c*'' ''c'' ''hi'')"
proof -
  obtain ds r1 replied where p: "publish (new_manager 0) (snd sub_both) ''c'' ''hi'' 0 = (ds, r1, replied)" by (metis prod_cases3)
  have e: "at_key (pm_exact_subs (fst sub_both)) ''c'' \<noteq> []" "2 \<in> set (at_key (pm_pattern_subs (fst sub_both)) ''c*'')" "matches ''c*'' ''c''"
    by code_simp+
  from publish_delivers_twice [OF sub_both_reach, of 1 0 "''c''" "''hi''" ds r1 replied 2 "''c*''"] p e sub_both_queues show ?thesis
    by auto
qed

text \<open>The pub/sub mode follows the tables: after every operation of a connection its subscription count is the
  number of its channels and patterns in the tables of its worker, the flag \<open>pubsub\<close> of CLIENT LIST is set by that
  count, and the numbers of all other connections are unchanged.\<close>

lemma mode_follows_tables:
  assumes "mode_agrees conn m" and "handle_pubsub_operation m r (cn_connection_id conn) q conn t = (ds, m1, r1, conn1)"
  shows "cn_subscription_count conn1 = get_connection_subscription_count (cn_connection_id conn1) m1 \<and>
    (d \<noteq> cn_connection_id conn \<longrightarrow> get_connection_subscription_count d m1 = get_connection_subscription_count d m) \<and>
    (''pubsub'' \<in> set (cn_flags (set_subscription_count k conn)) \<longleftrightarrow> 0 < k)"
  using handle_mode_agrees [OF assms] handle_other_counts [OF assms(2)]
  by (simp add: mode_agrees_def set_subscription_count_def Let_def)

definition some_conn :: connection where
  "some_conn = new_with_addr 0 \<lparr>env_now = 0, env_unix = 0, env_version = ''0'', env_pid = 1\<rparr> (default_config 1) None 1"

lemma mode_follows_tables_witness:
  "\<exists>ds m1 r1 conn1. handle_pubsub_operation (new_manager 0) (new_global_registry 1) 1 (OpSubscribe [''a'', ''b'']) some_conn 0 =
     (ds, m1, r1, conn1) \<and> cn_subscription_count conn1 = get_connection_subscription_count 1 m1"
proof -
  obtain ds m1 r1 conn1 where h: "handle_pubsub_operation (new_manager 0) (new_global_registry 1) (cn_connection_id some_conn)
      (OpSubscribe [''a'', ''b'']) some_conn 0 = (ds, m1, r1, conn1)" by (metis prod_cases4)
  have "mode_agrees some_conn (new_manager 0)"
    by (simp add: mode_agrees_def some_conn_def new_with_addr_def get_connection_subscription_count_def new_manager_def)
  from mode_follows_tables [OF this h, of 0 0] handle_keeps_id [OF h] h show ?thesis
    by (simp add: some_conn_def new_with_addr_def)
qed

section \<open>Launch\<close>

text \<open>C40: The password check of the server decides equality with the configured password. Started without a
  configuration file the server takes the password from the command line alone, an empty one counting as none:
  the environment variable \<open>FEOX_AUTH_PASSWORD\<close> is not looked at, so that the documented way to set it leaves
  the server without authentication. If it gets to run, it runs that configuration, with a worker per thread.\<close>

theorem launch_password:
  assumes "ar_config args = None"
  shows "main_config num_cpus rd from_str args env_var = Inr (args_config num_cpus args, env_var) \<and>
    (check_password (args_config num_cpus args) pw \<longleftrightarrow> ar_requirepass args = Some pw \<and> pw \<noteq> []) \<and>
    (auth_required (args_config num_cpus args) \<longleftrightarrow> ar_requirepass args \<noteq> None \<and> ar_requirepass args \<noteq> Some []) \<and>
    (launch num_cpus rd from_str build set_handler bind fails env args env_var = Inr (config, sy) \<longrightarrow>
      config = args_config num_cpus args \<and> system_reach cap fx config sy \<and>
      length (sy_workers sy) = cfg_threads config \<and> 0 < cfg_threads config)"
proof -
  have "config = args_config num_cpus args \<and> system_reach cap fx config sy \<and>
      length (sy_workers sy) = cfg_threads config \<and> 0 < cfg_threads config"
    if l: "launch num_cpus rd from_str build set_handler bind fails env args env_var = Inr (config, sy)"
    by (rule launchE [OF l]) (use launch_workers [OF l] main_config_no_file [OF assms, of num_cpus rd from_str env_var]
        in \<open>auto simp: validate_iff intro: system_reach.start\<close>)
  then show ?thesis
    using main_config_no_file [OF assms, of num_cpus rd from_str env_var] args_config_password [of num_cpus args]
    by (auto simp: check_password_iff auth_required_def split: option.splits list.splits)
qed

theorem launch_password_witness:
  "\<exists>config sy. launch 4 (\<lambda>_. Inl ''no file'') (\<lambda>_. Inl ''no file'') (\<lambda>_. Inr empty_mem) (Inr ()) (Inr ()) (\<lambda>_. None)
       \<lparr>env_now = 0, env_unix = 0, env_version = ''0'', env_pid = 1\<rparr> default_args (Some ''secret'') = Inr (config, sy) \<and>
     \<not> auth_required config \<and> length (sy_workers sy) = 4"
proof -
  let ?env = "\<lparr>env_now = 0, env_unix = 0, env_version = ''0'', env_pid = 1\<rparr>"
  let ?launch = "launch 4 (\<lambda>_. Inl ''no file'') (\<lambda>_. Inl ''no file'') (\<lambda>_. Inr empty_mem) (Inr ()) (Inr ()) (\<lambda>_. None) ?env
    default_args (Some ''secret'')"
  have args: "ar_config default_args = None" "ar_requirepass default_args = None" by (simp_all add: default_args_def)
  have t: "cfg_threads (args_config 4 default_args) = 4" "validate (args_config 4 default_args) = Inr ()"
    unfolding args_config_valid by (simp_all add: args_config_def default_args_def default_config_def)
  have "\<exists>config sy. ?launch = Inr (config, sy)"
    by (simp add: launch_def main_config_no_file [OF args(1)] new_server_def t run_server_def)
  then obtain config sy where l: "?launch = Inr (config, sy)" by blast
  from launch_password [OF args(1), of 4 "\<lambda>_. Inl ''no file''" "\<lambda>_. Inl ''no file''" "Some ''secret''" "''secret''"
      "\<lambda>_. Inr empty_mem" "Inr ()" "Inr ()" "\<lambda>_. None" ?env config sy 16 mem_store] l args(2) t(1)
  show ?thesis by auto
qed

end
