(* ===== verification/Session_Spec.thy ===== *)
theory Session_Spec
  imports System_Spec Connection_Spec
begin

text \<open>
  What the server is for its clients: a map of keys. A client sends commands on keys, cut into
  reads in any way; the store changes as the map does, and the client is sent exactly the
  replies of the map. The abstract side is \<open>answers\<close>; the concrete side is the chain of
  socket, parser, command parser, fast path, executor, store and write buffer.
\<close>

section \<open>Commands on a map\<close>

datatype request =
    GetKey bytes
  | SetKey bytes bytes
  | DelKeys "bytes list"
  | CountKeys "bytes list"
  | GetKeys "bytes list"
  | SetKeys "(bytes \<times> bytes) list"
  | PingServer

fun answer :: "request \<Rightarrow> (bytes \<Rightarrow> bytes option) \<Rightarrow> resp_value \<times> (bytes \<Rightarrow> bytes option)" where
  "answer (GetKey k) m = (BulkString (m k), m)"
| "answer (SetKey k v) m = (SimpleString ''OK'', m(k \<mapsto> v))"
| "answer (DelKeys ks) m = (Integer (word_of_nat (card (set ks \<inter> dom m))), m |` (- set ks))"
| "answer (CountKeys ks) m = (Integer (word_of_nat (length (filter (\<lambda>k. m k \<noteq> None) ks))), m)"
| "answer (GetKeys ks) m = (Array (Some (map (\<lambda>k. BulkString (m k)) ks)), m)"
| "answer (SetKeys kvs) m = (SimpleString ''OK'', m ++ map_of (rev kvs))"
| "answer PingServer m = (SimpleString ''PONG'', m)"

text \<open>The replies to several commands, as bytes.\<close>

fun answers :: "request list \<Rightarrow> (bytes \<Rightarrow> bytes option) \<Rightarrow> bytes \<times> (bytes \<Rightarrow> bytes option)" where
  "answers [] m = ([], m)"
| "answers (r # rs) m = (case answer r m of (v, m1) \<Rightarrow> (case answers rs m1 of
     (out, m2) \<Rightarrow> (write_resp_value [] v @ out, m2)))"

lemma answers_append:
  "answers (rs @ rs') m = (fst (answers rs m) @ fst (answers rs' (snd (answers rs m))), snd (answers rs' (snd (answers rs m))))"
  by (induction rs arbitrary: m) (auto split: prod.split)

section \<open>On the wire\<close>

fun request_words :: "request \<Rightarrow> bytes list" where
  "request_words (GetKey k) = [''GET'', k]"
| "request_words (SetKey k v) = [''SET'', k, v]"
| "request_words (DelKeys ks) = ''DEL'' # ks"
| "request_words (CountKeys ks) = ''EXISTS'' # ks"
| "request_words (GetKeys ks) = ''MGET'' # ks"
| "request_words (SetKeys kvs) = ''MSET'' # concat (map (\<lambda>(k, v). [k, v]) kvs)"
| "request_words PingServer = [''PING'']"

definition request_value :: "request \<Rightarrow> resp_value" where
  "request_value r = Array (Some (map bulk (request_words r)))"

definition encode :: "request \<Rightarrow> bytes" where
  "encode r = write_resp_value [] (request_value r)"

text \<open>
  The commands within the limits of the protocol: lengths that are machine integers, no more
  words than the parser reserves room for, and pairs that the store accepts.
\<close>

definition request_ok :: "nat \<Rightarrow> (bytes \<Rightarrow> bytes \<Rightarrow> bool) \<Rightarrow> request \<Rightarrow> bool" where
  "request_ok cap accepts r \<longleftrightarrow>
     length (request_words r) \<le> cap \<and> length (request_words r) < 2 ^ 63 \<and>
     list_all (\<lambda>w. length w < 2 ^ 63) (request_words r) \<and>
     (case r of SetKey k v \<Rightarrow> accepts k v
      | SetKeys kvs \<Rightarrow> kvs \<noteq> [] \<and> list_all (\<lambda>(k, v). accepts k v) kvs
      | DelKeys ks \<Rightarrow> ks \<noteq> [] | CountKeys ks \<Rightarrow> ks \<noteq> [] | GetKeys ks \<Rightarrow> ks \<noteq> [] | _ \<Rightarrow> True)"

lemma request_wire_ok: "request_ok cap accepts r \<Longrightarrow> wire_ok cap (request_value r)"
  by (simp add: request_ok_def request_value_def list_all_iff)

lemma parse_encode:
  "request_ok cap accepts r \<Longrightarrow> parse_value cap (encode r @ rest) = Inr (Some (request_value r, length (encode r)))"
  unfolding encode_def by (rule parse_write_value [OF request_wire_ok])

text \<open>However the bytes of some commands are cut, a piece holds some whole commands and an incomplete rest.\<close>

lemma incomplete_prefix: "parse_value cap (bs @ d) = Inr None \<Longrightarrow> parse_value cap bs = Inr None"
  using parse_append(1) [of cap bs d] by force

lemma append_cut:
  "bs @ d = x @ y \<Longrightarrow> length x \<le> length bs \<Longrightarrow> \<exists>bs1. bs = x @ bs1 \<and> bs1 @ d = y"
  "bs @ d = x @ y \<Longrightarrow> length bs < length x \<Longrightarrow> \<exists>bs1. x = bs @ bs1 \<and> bs1 \<noteq> []"
  by (auto simp: append_eq_append_conv2)

lemma split_requests:
  assumes "list_all (request_ok cap accepts) reqs" and "parse_value cap tail = Inr None"
    and "bs @ d = concat (map encode reqs) @ tail"
  shows "\<exists>rs1 rs2 rest. reqs = rs1 @ rs2 \<and> bs = concat (map encode rs1) @ rest \<and> rest @ d = concat (map encode rs2) @ tail \<and>
    parse_value cap rest = Inr None"
  using assms
proof (induction reqs arbitrary: bs)
  case Nil
  then have "parse_value cap bs = Inr None" using incomplete_prefix [of cap bs d] by simp
  with Nil show ?case by simp
next
  case (Cons r reqs)
  show ?case
  proof (cases "length (encode r) \<le> length bs")
    case True
    have "bs @ d = encode r @ concat (map encode reqs) @ tail" using Cons.prems(3) by simp
    with True obtain bs1 where bs: "bs = encode r @ bs1" "bs1 @ d = concat (map encode reqs) @ tail"
      using append_cut(1) by blast
    from Cons.IH [OF _ Cons.prems(2) bs(2)] Cons.prems(1) obtain rs1 rs2 rest where
      "reqs = rs1 @ rs2" "bs1 = concat (map encode rs1) @ rest" "rest @ d = concat (map encode rs2) @ tail" "parse_value cap rest = Inr None"
      by auto
    with bs(1) show ?thesis by (intro exI [of _ "r # rs1"] exI [of _ rs2] exI [of _ rest]) simp
  next
    case False
    have "bs @ d = encode r @ concat (map encode reqs) @ tail" using Cons.prems(3) by simp
    with False obtain bs1 where r: "encode r = bs @ bs1" "bs1 \<noteq> []"
      using append_cut(2) [of bs d "encode r"] by auto
    have p: "parse_value cap (bs @ bs1) = Inr (Some (request_value r, length (bs @ bs1)))"
      using parse_encode [of cap accepts r "[]"] Cons.prems(1) r(1) by simp
    have "parse_value cap bs = Inr None"
    proof (rule ccontr)
      assume "parse_value cap bs \<noteq> Inr None"
      then have "parse_value cap bs = Inr (Some (request_value r, length (bs @ bs1)))" using parse_append(1) [of cap bs bs1] p by simp
      with parse_consumes(1) [of cap bs] r(2) show False by fastforce
    qed
    with Cons.prems(3) show ?thesis by (intro exI [of _ "[]"] exI [of _ "r # reqs"] exI [of _ bs]) simp
  qed
qed

section \<open>One command\<close>

fun request_command :: "request \<Rightarrow> command" where
  "request_command (GetKey k) = Get k"
| "request_command (SetKey k v) = Set k v None None"
| "request_command (DelKeys ks) = Del ks"
| "request_command (CountKeys ks) = Exists ks"
| "request_command (GetKeys ks) = MGet ks"
| "request_command (SetKeys kvs) = MSet kvs"
| "request_command PingServer = Ping None"

lemma extract_bulks: "try_map extract_bytes (map bulk ws) = Inr ws"
  by (induction ws) (auto simp: extract_bytes_def)

lemma extract_bulk_pairs: "extract_pairs (concat (map (\<lambda>(k, v). [bulk k, bulk v]) kvs)) = Inr kvs"
  by (induction kvs) (auto simp: extract_bytes_def)

lemma words_of_pairs:
  "map bulk (concat (map (\<lambda>(k, v). [k, v]) kvs)) = concat (map (\<lambda>(k, v). [bulk k, bulk v]) kvs)"
  "length (concat (map (\<lambda>(k, v). [bulk k, bulk v]) kvs)) = 2 * length kvs"
  "concat (map (\<lambda>(k, v). [bulk k, bulk v]) kvs) = [] \<longleftrightarrow> kvs = []"
  by (induction kvs) auto

lemma parse_request: "request_ok cap accepts r \<Longrightarrow> parse_command (request_value r) = Inr (request_command r)"
  by (cases r) (auto simp: request_ok_def request_value_def parse_command_def parse_arms_def parse_arm_defs to_ascii_uppercase_def byte_simps
      extract_bulks extract_bulk_pairs words_of_pairs extract_bytes_def simp del: map_concat concat_eq_Nil_conv)

text \<open>EXISTS counts a key as often as it is named.\<close>

context feox_store
begin

lemma exec_exists_spec:
  assumes "good (wd_store w)"
  shows "\<exists>s'. exec_exists fx keys w =
       (Integer (word_of_nat (length (filter (\<lambda>k. view (wd_store w) k \<noteq> None) keys))), set_store s' w) \<and> good s' \<and>
     view s' = view (wd_store w)"
proof -
  have "\<exists>s'. count_existing fx keys s = (length (filter (\<lambda>k. view s k \<noteq> None) keys), s') \<and> good s' \<and> view s' = view s"
    if "good s" for s
    using that
  proof (induction keys arbitrary: s)
    case (Cons k keys)
    obtain s1 where s1: "fx_contains_key fx s k = (view s k \<noteq> None, s1)" "good s1" "view s1 = view s"
      using contains_run [OF Cons.prems] by blast
    with Cons.IH [of s1] show ?case by (cases "view s k") auto
  qed simp
  from this [OF assms] show ?thesis by (auto simp: exec_exists_def)
qed

text \<open>What the executor does for a command is what the map does.\<close>

lemma run_request:
  assumes "good (wd_store w)" and "request_ok cap accepts r"
  shows "\<exists>w1. run_command fx env ex (request_command r) w = Some (fst (answer r (view (wd_store w))), w1) \<and>
    good (wd_store w1) \<and> view (wd_store w1) = snd (answer r (view (wd_store w))) \<and> wd_clients w1 = wd_clients w"
proof (cases r)
  case (GetKey k)
  with exec_get_spec [OF assms(1), of k] show ?thesis by auto
next
  case (SetKey k v)
  with exec_set_spec [OF assms(1), of k v None None] assms(2) show ?thesis by (auto simp: request_ok_def)
next
  case (DelKeys ks)
  with exec_del_spec [OF assms(1), of ks] show ?thesis by auto
next
  case (CountKeys ks)
  with exec_exists_spec [OF assms(1), of ks] show ?thesis by auto
next
  case (GetKeys ks)
  with exec_mget_spec [OF assms(1), of ks] show ?thesis by auto
next
  case (SetKeys kvs)
  then have "(k, v) \<in> set kvs \<Longrightarrow> accepts k v" for k v using assms(2) by (auto simp: request_ok_def list_all_iff)
  with SetKeys exec_mset_spec [OF assms(1), of kvs] show ?thesis by auto
next
  case PingServer
  with assms(1) show ?thesis by (simp add: exec_ping_def)
qed

end

section \<open>One value on a connection\<close>

text \<open>A connection on which commands are run at once.\<close>

definition ready :: "connection \<Rightarrow> bool" where
  "ready conn \<longleftrightarrow> cn_authenticated conn \<and> cn_transaction_state conn = NoTransaction \<and> cn_subscription_count conn = 0"

definition fast_request :: "request \<Rightarrow> bool" where
  "fast_request r \<longleftrightarrow> (case r of GetKey k \<Rightarrow> True | SetKey k v \<Rightarrow> True | _ \<Rightarrow> False)"

lemma request_slow:
  assumes "ready conn" and "\<not> fast_request r"
  shows "try_fast_path fx (request_value r) conn w = (False, conn, w)"
    and "handle_command fx env (request_command r) conn w = run_and_respond fx env (request_command r) conn w"
proof -
  show "try_fast_path fx (request_value r) conn w = (False, conn, w)"
    using assms(2) by (cases r) (simp_all add: fast_request_def request_value_def try_fast_path_def fast_path_get_def
        eq_ignore_ascii_case_upper to_ascii_uppercase_def byte_simps)
  show "handle_command fx env (request_command r) conn w = run_and_respond fx env (request_command r) conn w"
    using assms by (cases r) (simp_all add: fast_request_def ready_def handle_command_def is_in_pubsub_mode_def set_client_name_def
        handle_transaction_def dispatch_def is_pubsub_command_def Let_def)
qed

text \<open>The executor's reply, and where the fast path is taken, its reply too.\<close>

lemma request_reply:
  assumes "feox_store fx view good accepts" and "good (wd_store w)" and "request_ok cap accepts r" and "fast_request r"
  shows "\<exists>w1. try_fast_path fx (request_value r) conn w = (True, reply (fst (answer r (view (wd_store w)))) conn, w1) \<and>
    run_command fx env ex (request_command r) w = Some (fst (answer r (view (wd_store w))), w1)"
proof -
  have names: "eq_ignore_ascii_case ''SET'' ''SET''" "eq_ignore_ascii_case ''GET'' ''GET''" by (simp_all add: eq_ignore_ascii_case_upper)
  obtain w1 where run: "run_command fx env ex (request_command r) w = Some (fst (answer r (view (wd_store w))), w1)"
    using feox_store.run_request [OF assms(1-3), of env ex] by blast
  show ?thesis
  proof (cases r)
    case (GetKey k)
    with run fast_get_value [OF assms(1,2) names(2) get_not_set [OF names(2)], of k conn] show ?thesis
      by (simp add: request_value_def)
  next
    case (SetKey k v)
    with run fast_set_value [OF assms(1,2) _ names(1), of k v conn] assms(3) show ?thesis
      by (simp add: request_value_def request_ok_def)
  qed (use assms(4) in \<open>simp_all add: fast_request_def\<close>)
qed

lemma reply_writes: "cn_write_buffer (reply v conn) = cn_write_buffer conn @ write_resp_value [] v"
  by (simp add: reply_def write_resp_value_append [of "cn_write_buffer conn"])

lemma handle_request:
  assumes "feox_store fx view good accepts" and "good (wd_store w)" and "request_ok cap accepts r" and "ready conn"
  shows "\<exists>conn1 w1. handle_value fx env (request_value r) conn w = Some (Next, conn1, w1) \<and> ready conn1 \<and>
    cn_write_buffer conn1 = cn_write_buffer conn @ write_resp_value [] (fst (answer r (view (wd_store w)))) \<and>
    good (wd_store w1) \<and> view (wd_store w1) = snd (answer r (view (wd_store w))) \<and> wd_clients w1 = wd_clients w \<and>
    cn_closed conn1 = cn_closed conn"
proof -
  let ?conn = "conn\<lparr>cn_commands_processed := cn_commands_processed conn + 1\<rparr>"
  let ?v = "fst (answer r (view (wd_store w)))"
  have conn: "ready ?conn" "cn_transaction_state conn = NoTransaction" using assms(4) by (simp_all add: ready_def)
  let ?ex = "(cn_executor conn)\<lparr>ex_commands_processed := ex_commands_processed (cn_executor conn) + 1\<rparr>"
  obtain w1 where w1: "run_command fx env ?ex (request_command r) w = Some (?v, w1)" "good (wd_store w1)"
    "view (wd_store w1) = snd (answer r (view (wd_store w)))" "wd_clients w1 = wd_clients w"
    using feox_store.run_request [OF assms(1-3)] by blast
  show ?thesis
  proof (cases "fast_request r")
    case True
    from request_reply [OF assms(1-3) True, of ?conn env ?ex] w1(1)
    have "try_fast_path fx (request_value r) ?conn w = (True, reply ?v ?conn, w1)" by auto
    with w1 conn show ?thesis by (simp add: handle_value_def Let_def ready_def reply_writes)
  next
    case False
    have "run_and_respond fx env (request_command r) ?conn w = Some (Next, respond ?v (?conn\<lparr>cn_executor := ?ex\<rparr>), w1)"
      using w1(1) by (simp add: run_and_respond_def execute_def Let_def)
    with request_slow(1) [OF conn(1) False, of fx w] request_slow(2) [OF conn(1) False, of fx env w] parse_request [OF assms(3)] w1 conn
    show ?thesis
      by (simp add: handle_value_def Let_def ready_def respond_def reply_writes)
  qed
qed

section \<open>Reads\<close>

lemma ready_simps [simp]:
  "ready (bare conn) = ready conn" "ready (conn\<lparr>cn_parser := p\<rparr>) = ready conn"
  by (simp_all add: ready_def bare_def)

text \<open>The reference of a read, on whole commands and an incomplete rest.\<close>

lemma serve_requests:
  assumes "feox_store fx view good accepts" and "good (wd_store w)" and "list_all (request_ok cap accepts) rs"
    and "parse_value cap rest = Inr None" and "ready conn"
  shows "\<exists>conn1 w1. serve cap fx env (concat (map encode rs) @ rest) (bare conn) w =
      Some (fst (answers rs (view (wd_store w))), Inr [], Some rest, bare conn1, w1) \<and> ready conn1 \<and>
    good (wd_store w1) \<and> view (wd_store w1) = snd (answers rs (view (wd_store w))) \<and> cn_closed conn1 = cn_closed conn"
  using assms(2,3,5)
proof (induction rs arbitrary: conn w)
  case Nil
  then show ?case using assms(4) by (intro exI [of _ conn] exI [of _ w]) (simp add: serve.simps)
next
  case (Cons r rs)
  let ?v = "fst (answer r (view (wd_store w)))"
  have r: "request_ok cap accepts r" "ready (bare conn)" using Cons.prems(2,3) by simp_all
  obtain conn1 w1 where h: "handle_value fx env (request_value r) (bare conn) w = Some (Next, conn1, w1)" "ready conn1"
    "cn_write_buffer conn1 = write_resp_value [] ?v" "good (wd_store w1)"
    "view (wd_store w1) = snd (answer r (view (wd_store w)))" "cn_closed conn1 = cn_closed conn"
    using handle_request [OF assms(1) Cons.prems(1) r, of env] by auto
  have "list_all (request_ok cap accepts) rs" using Cons.prems(2) by simp
  from Cons.IH [OF h(4) this h(2)] h(5,6) obtain conn2 w2 where
    "serve cap fx env (concat (map encode rs) @ rest) (bare conn1) w1 =
      Some (fst (answers rs (view (wd_store w1))), Inr [], Some rest, bare conn2, w2)" "ready conn2" "good (wd_store w2)"
    "view (wd_store w2) = snd (answers rs (view (wd_store w1)))" "cn_closed conn2 = cn_closed conn" by auto
  moreover have "parse_value cap (concat (map encode (r # rs)) @ rest) = Inr (Some (request_value r, length (encode r)))"
    using parse_encode [OF r(1), of "concat (map encode rs) @ rest"] by simp
  ultimately show ?case
    by (intro exI [of _ conn2] exI [of _ w2])
      (simp add: serve.simps [of cap fx env "encode r @ concat (map encode rs) @ rest"] h(1,3,5) split: prod.split)
qed

lemma read_requests:
  assumes "feox_store fx view good accepts" and "good (wd_store w)" and "list_all (request_ok cap accepts) rs"
    and "parse_value cap rest = Inr None" and "ready conn" and "parser_ok (cn_parser conn)"
    and "pending (cn_parser conn) @ d = concat (map encode rs) @ rest"
  shows "\<exists>conn1 w1. process_read cap fx env d conn w = Some (Inr [], conn1, w1) \<and> ready conn1 \<and>
    parser_ok (cn_parser conn1) \<and> pending (cn_parser conn1) = rest \<and> cn_closed conn1 = cn_closed conn \<and>
    outgoing sk conn1 = outgoing sk conn @ fst (answers rs (view (wd_store w))) \<and>
    cn_write_position conn1 \<le> length (cn_write_buffer conn1) \<and>
    cn_pending_pubsub_messages conn1 = cn_pending_pubsub_messages conn \<and>
    good (wd_store w1) \<and> view (wd_store w1) = snd (answers rs (view (wd_store w)))"
proof -
  obtain conn0 w1 where s: "serve cap fx env (pending (cn_parser conn) @ d) (bare conn) w =
      Some (fst (answers rs (view (wd_store w))), Inr [], Some rest, bare conn0, w1)" "ready conn0"
    "good (wd_store w1)" "view (wd_store w1) = snd (answers rs (view (wd_store w)))" "cn_closed conn0 = cn_closed conn"
    unfolding assms(7) using serve_requests [OF assms(1-5), of env] by blast
  from process_read_serve [OF assms(6), of cap fx env d w] obtain r conn1 w2 where
    p: "process_read cap fx env d conn w = Some (r, conn1, w2)" and
    a: "read_agrees conn (fst (answers rs (view (wd_store w))), Inr [], Some rest, bare conn0, w1) (r, conn1, w2)"
    unfolding s(1) by (auto simp: option_rel_Some1)
  have "identity conn1 = identity conn" using process_read_frame [OF p] by simp
  then have "cn_pending_pubsub_messages conn1 = cn_pending_pubsub_messages conn" by (simp add: identity_def)
  moreover have "ready conn1" "cn_closed conn1 = cn_closed conn"
    using a s(2,5) ready_simps(1) [of conn1] ready_simps(1) [of conn0] bare_simps(2) [of conn1] bare_simps(2) [of conn0]
    by (auto simp: read_agrees_def)
  ultimately show ?thesis using p a s(3,4) by (auto simp: read_agrees_def outgoing_def)
qed

section \<open>An event\<close>

lemma write_without_failure:
  "write_pending ws sk conn = (b, sk1, conn1) \<Longrightarrow> WriteFailed \<notin> set ws \<Longrightarrow> \<not> b"
proof (induction ws arbitrary: sk conn)
  case (Cons result ws)
  then show ?case
    by (cases result) (auto simp: Let_def split: option.splits if_splits)
qed simp

text \<open>Nothing of the connection but its buffers changes when the replies are written.\<close>

lemma finish_read_nothing:
  assumes "finish_read t [] ws sk conn m sh = (ds, failed, sk1, conn1, m1, sh1)" and "WriteFailed \<notin> set ws"
    and "cn_pending_pubsub_messages conn = []" and "cn_write_position conn \<le> length (cn_write_buffer conn)"
    and "parser_ok (cn_parser conn)"
  shows "ds = [] \<and> \<not> failed \<and> m1 = m \<and> outgoing sk1 conn1 = outgoing sk conn \<and> bare conn1 = bare conn \<and>
    cn_parser conn1 = cn_parser conn \<and> io_ok conn1 \<and> wd_store (sh_world sh1) = wd_store (sh_world sh)"
proof -
  obtain b sk2 conn2 where w: "write_pending ws sk conn = (b, sk2, conn2)" by (metis prod_cases3)
  have "io_ok conn" using assms(3-5) by (simp add: io_ok_def)
  with write_pending_output [OF w] write_without_failure [OF w assms(2)] assms(1) show ?thesis
    by (auto simp: finish_read_def process_messages_none [OF assms(3)] w Let_def outgoing_def split: if_splits)
qed

definition pieces_read :: "(bytes \<times> write_result list) list \<Rightarrow> (read_result \<times> write_result list) list" where
  "pieces_read pieces = map (\<lambda>(d, ws). (ReadData d, ws)) pieces @ [(ReadBlocked, [])]"

lemma read_loop_requests:
  assumes "feox_store fx view good accepts" and "list_all (request_ok cap accepts) reqs" and "parse_value cap tail = Inr None"
    and "\<forall>(d, ws) \<in> set pieces. WriteFailed \<notin> set ws"
    and "pending (cn_parser conn) @ concat (map fst pieces) = concat (map encode reqs) @ tail"
    and "parse_value cap (pending (cn_parser conn)) = Inr None"
    and "io_ok conn" and "ready conn" and "\<not> cn_closed conn" and "good (wd_store (sh_world sh))"
  shows "\<exists>sk1 conn1 sh1. read_loop cap fx env t (pieces_read pieces) ([], False, sk, conn, m, sh) =
      Returns ([], False, sk1, conn1, m, sh1) \<and>
    outgoing sk1 conn1 = outgoing sk conn @ fst (answers reqs (view (wd_store (sh_world sh)))) \<and>
    view (wd_store (sh_world sh1)) = snd (answers reqs (view (wd_store (sh_world sh)))) \<and> good (wd_store (sh_world sh1)) \<and>
    pending (cn_parser conn1) = tail \<and> ready conn1 \<and> io_ok conn1 \<and> \<not> cn_closed conn1"
  using assms(2,4-)
proof (induction pieces arbitrary: reqs sk conn sh)
  case Nil
  have p: "pending (cn_parser conn) = concat (map encode reqs) @ tail" using Nil.prems(3) by simp
  have "reqs = []"
  proof (cases reqs)
    case (Cons r rs)
    with p Nil.prems(1) have "parse_value cap (pending (cn_parser conn)) = Inr (Some (request_value r, length (encode r)))"
      using parse_encode [of cap accepts r] by simp
    with Nil.prems(4) show ?thesis by simp
  qed simp
  with p Nil show ?case by (auto simp: pieces_read_def)
next
  case (Cons piece pieces)
  obtain d ws where piece: "piece = (d, ws)" by force
  have "(pending (cn_parser conn) @ d) @ concat (map fst pieces) = concat (map encode reqs) @ tail"
    using Cons.prems(3) piece by simp
  from split_requests [OF Cons.prems(1) assms(3) this] obtain rs1 rs2 rest where
    rs: "reqs = rs1 @ rs2" "pending (cn_parser conn) @ d = concat (map encode rs1) @ rest"
      "rest @ concat (map fst pieces) = concat (map encode rs2) @ tail" "parse_value cap rest = Inr None" by blast
  have ok: "list_all (request_ok cap accepts) rs1" "list_all (request_ok cap accepts) rs2" using Cons.prems(1) rs(1) by simp_all
  have io: "parser_ok (cn_parser conn)" "cn_pending_pubsub_messages conn = []" using Cons.prems(5) by (simp_all add: io_ok_def)
  obtain conn1 w1 where r: "process_read cap fx env d conn (sh_world sh) = Some (Inr [], conn1, w1)" "ready conn1"
    "parser_ok (cn_parser conn1)" "pending (cn_parser conn1) = rest" "cn_closed conn1 = cn_closed conn"
    "outgoing sk conn1 = outgoing sk conn @ fst (answers rs1 (view (wd_store (sh_world sh))))"
    "cn_write_position conn1 \<le> length (cn_write_buffer conn1)" "cn_pending_pubsub_messages conn1 = []"
    "good (wd_store w1)" "view (wd_store w1) = snd (answers rs1 (view (wd_store (sh_world sh))))"
    using read_requests [OF assms(1) Cons.prems(8) ok(1) rs(4) Cons.prems(6) io(1) rs(2), of env sk] io(2) by metis
  obtain ds failed sk2 conn2 m2 sh2 where f: "finish_read t [] ws sk conn1 m (sh\<lparr>sh_world := w1\<rparr>) = (ds, failed, sk2, conn2, m2, sh2)"
    by (metis prod_cases6)
  have "WriteFailed \<notin> set ws" using Cons.prems(2) piece by simp
  from finish_read_nothing [OF f this r(8,7,3)] have
    f1: "ds = []" "\<not> failed" "m2 = m" "outgoing sk2 conn2 = outgoing sk conn1" "bare conn2 = bare conn1"
      "cn_parser conn2 = cn_parser conn1" "io_ok conn2" "wd_store (sh_world sh2) = wd_store w1" by simp_all
  have c2: "ready conn2" "\<not> cn_closed conn2"
    using f1(5) r(2,5) Cons.prems(7) ready_simps(1) bare_simps(2) by metis+
  have "\<forall>(d, ws) \<in> set pieces. WriteFailed \<notin> set ws" using Cons.prems(2) by simp
  from Cons.IH [OF ok(2) this _ _ f1(7) c2, of sh2 sk2] rs(3,4) r(4,9) f1(6,8) obtain sk3 conn3 sh3 where
    "read_loop cap fx env t (pieces_read pieces) ([], False, sk2, conn2, m, sh2) = Returns ([], False, sk3, conn3, m, sh3)"
    "outgoing sk3 conn3 = outgoing sk2 conn2 @ fst (answers rs2 (view (wd_store w1)))"
    "view (wd_store (sh_world sh3)) = snd (answers rs2 (view (wd_store w1)))" "good (wd_store (sh_world sh3))"
    "pending (cn_parser conn3) = tail" "ready conn3" "io_ok conn3" "\<not> cn_closed conn3" by auto
  moreover have "read_loop cap fx env t (pieces_read (piece # pieces)) ([], False, sk, conn, m, sh) =
      read_loop cap fx env t (pieces_read pieces) ([], False, sk2, conn2, m, sh2)"
    using r(1) f f1(1-3) c2(2) by (simp add: pieces_read_def piece)
  ultimately show ?case using f1(4) r(6,10) rs(1) by (simp add: answers_append)
qed

text \<open>A connection that is ready and holds no whole command.\<close>

definition waiting :: "nat \<Rightarrow> connection \<Rightarrow> bool" where
  "waiting cap conn \<longleftrightarrow> ready conn \<and> parse_value cap (pending (cn_parser conn)) = Inr None"

lemma event_requests:
  assumes "feox_store fx view good accepts" and "list_all (request_ok cap accepts) reqs" and "parse_value cap tail = Inr None"
    and "\<forall>(d, ws) \<in> set pieces. WriteFailed \<notin> set ws" and "\<forall>ws \<in> set_option writes. WriteFailed \<notin> set ws"
    and "pending (cn_parser conn) @ concat (map fst pieces) = concat (map encode reqs) @ tail"
    and "map_of (wk_connections wk) token = Some (sk, conn)" and "waiting cap conn" and "io_ok conn" and "\<not> cn_closed conn"
    and "good (wd_store (sh_world sh))"
  shows "\<exists>wk1 sh1 sk1 conn1. handle_event cap fx env token writes (Some (pieces_read pieces)) later wk sh = Returns (wk1, sh1) \<and>
    wk_connections wk1 = AList.update token (sk1, conn1) (wk_connections wk) \<and>
    outgoing sk1 conn1 = outgoing sk conn @ fst (answers reqs (view (wd_store (sh_world sh)))) \<and>
    view (wd_store (sh_world sh1)) = snd (answers reqs (view (wd_store (sh_world sh)))) \<and> good (wd_store (sh_world sh1)) \<and>
    pending (cn_parser conn1) = tail \<and> waiting cap conn1"
proof -
  obtain failed sk0 conn0 where w: "(case writes of None \<Rightarrow> (False, sk, conn) | Some ws \<Rightarrow> handle_writable ws sk conn) = (failed, sk0, conn0)"
    by (metis prod_cases3)
  have first: "\<not> failed \<and> outgoing sk0 conn0 = outgoing sk conn \<and> io_ok conn0 \<and> bare conn0 = bare conn \<and> cn_parser conn0 = cn_parser conn"
  proof (cases writes)
    case (Some ws)
    obtain b sk2 conn2 where p: "write_pending ws sk conn = (b, sk2, conn2)" by (metis prod_cases3)
    have "\<not> b" using write_without_failure [OF p] assms(5) Some by simp
    with write_pending_output [OF p] w Some p assms(9) show ?thesis by (auto simp: handle_writable_def outgoing_def)
  qed (use w assms(9) in auto)
  have conn0: "ready conn0" "\<not> cn_closed conn0"
    using first assms(8,10) ready_simps(1) bare_simps(2) by (metis waiting_def)+
  have p0: "pending (cn_parser conn0) @ concat (map fst pieces) = concat (map encode reqs) @ tail"
    "parse_value cap (pending (cn_parser conn0)) = Inr None" "io_ok conn0"
    using first assms(6,8) by (simp_all add: waiting_def)
  obtain sk1 conn1 sh1 where r: "read_loop cap fx env (wk_thread_id wk) (pieces_read pieces) ([], False, sk0, conn0, wk_manager wk, sh) =
      Returns ([], False, sk1, conn1, wk_manager wk, sh1)"
    "outgoing sk1 conn1 = outgoing sk0 conn0 @ fst (answers reqs (view (wd_store (sh_world sh))))"
    "view (wd_store (sh_world sh1)) = snd (answers reqs (view (wd_store (sh_world sh))))" "good (wd_store (sh_world sh1))"
    "pending (cn_parser conn1) = tail" "ready conn1"
    using read_loop_requests [OF assms(1-4) p0(1-3) conn0 assms(11), of env "wk_thread_id wk" sk0 "wk_manager wk"] by metis
  have "handle_event cap fx env token writes (Some (pieces_read pieces)) later wk sh =
      Returns (wk\<lparr>wk_connections := AList.update token (sk1, conn1) (wk_connections wk)\<rparr>, sh1)"
    using first by (simp add: handle_event_def assms(7) w r(1))
  with r(2-6) first assms(3) show ?thesis
    by (intro exI [of _ "wk\<lparr>wk_connections := AList.update token (sk1, conn1) (wk_connections wk)\<rparr>"] exI [of _ sh1]
        exI [of _ sk1] exI [of _ conn1]) (simp add: waiting_def)
qed

text \<open>The same in a reachable state of the whole server.\<close>

lemma system_serves:
  assumes "feox_store fx view good accepts" and "system_reach cap fx config sy" and "i < length (sy_workers sy)"
    and "sy_control sy ! i = Handling (Ready env token writes (Some (pieces_read pieces)) later # events)"
    and "map_of (wk_connections (sy_workers sy ! i)) token = Some (sk, conn)" and "waiting cap conn"
    and "good (wd_store (sh_world (sy_shared sy)))"
    and "list_all (request_ok cap accepts) reqs" and "parse_value cap tail = Inr None"
    and "pending (cn_parser conn) @ concat (map fst pieces) = concat (map encode reqs) @ tail"
    and "\<forall>(d, ws) \<in> set pieces. WriteFailed \<notin> set ws" and "\<forall>ws \<in> set_option writes. WriteFailed \<notin> set ws"
  shows "\<exists>sy1 sk1 conn1. system_step cap fx config i results poll sy = Some sy1 \<and> sy_control sy1 ! i = Handling events \<and>
    map_of (wk_connections (sy_workers sy1 ! i)) token = Some (sk1, conn1) \<and>
    outgoing sk1 conn1 = outgoing sk conn @ fst (answers reqs (view (wd_store (sh_world (sy_shared sy))))) \<and>
    view (wd_store (sh_world (sy_shared sy1))) = snd (answers reqs (view (wd_store (sh_world (sy_shared sy))))) \<and>
    good (wd_store (sh_world (sy_shared sy1))) \<and> pending (cn_parser conn1) = tail \<and> waiting cap conn1"
proof -
  have inv: "system_inv sy" using assms(2) by (rule system_reach_inv)
  then obtain gone where ok: "server_ok gone (sy_workers sy) (sy_shared sy)" and len: "length (sy_control sy) = length (sy_workers sy)"
    and io: "\<forall>wk \<in> set (sy_workers sy). all_io_ok (wk_connections wk)" by (auto simp: system_inv_def)
  have "io_ok conn" using io assms(3) all_io_ok_lookup [OF _ assms(5)] by simp
  have "worker_ok (sh_connection_id (sy_shared sy)) i (sy_workers sy ! i)" using ok assms(3) by (simp add: server_ok_def)
  then have "\<not> cn_closed conn" using map_of_SomeD [OF assms(5)] by (force simp: worker_ok_def)
  from event_requests [OF assms(1,8,9,11,12,10,5,6) \<open>io_ok conn\<close> this assms(7), of env later] obtain wk1 sh1 sk1 conn1 where
    e: "handle_event cap fx env token writes (Some (pieces_read pieces)) later (sy_workers sy ! i) (sy_shared sy) = Returns (wk1, sh1)"
    "wk_connections wk1 = AList.update token (sk1, conn1) (wk_connections (sy_workers sy ! i))"
    "outgoing sk1 conn1 = outgoing sk conn @ fst (answers reqs (view (wd_store (sh_world (sy_shared sy)))))"
    "view (wd_store (sh_world sh1)) = snd (answers reqs (view (wd_store (sh_world (sy_shared sy)))))"
    "good (wd_store (sh_world sh1))" "pending (cn_parser conn1) = tail" "waiting cap conn1" by blast
  have "map_of (wk_connections wk1) token = Some (sk1, conn1)" unfolding e(2) by (simp add: update_conv')
  with assms(3,4) len e show ?thesis
    by (simp add: system_step_def worker_step_def handle_one_def)
qed

end
