(* ===== verification/Shutdown_Spec.thy ===== *)
theory Shutdown_Spec
  imports System_Spec
begin

text \<open>
  The end of the workers: the shutdown ends every worker whose handlers return, and cleans up
  what it ends; an error or a panic ends a worker too, and leaves its connections behind.
\<close>

section \<open>Shutdown\<close>

text \<open>The steps of one worker alone, each with its inputs.\<close>

fun worker_steps ::
  "nat \<Rightarrow> 's feox \<Rightarrow> config \<Rightarrow> nat \<Rightarrow> (write_result list list \<times> poll_result) list \<Rightarrow> 's system \<Rightarrow> 's system option" where
  "worker_steps cap fx config i [] sy = Some sy"
| "worker_steps cap fx config i ((results, poll) # inputs) sy = (case system_step cap fx config i results poll sy of
     None \<Rightarrow> None
   | Some sy' \<Rightarrow> worker_steps cap fx config i inputs sy')"

fun steps_left :: "stage \<Rightarrow> nat" where
  "steps_left Looping = 1"
| "steps_left (Handling events) = length events + 2"
| "steps_left (Ended r) = 0"
| "steps_left Crashed = 0"

lemma step_towards_end:
  assumes "worker_step cap fx config True results poll (ctl, wk, sh) = Some (ctl', wk', sh')"
  shows "steps_left ctl' \<le> steps_left ctl - 1"
  using assms by (cases ctl) (auto simp: worker_step_def split: list.splits run.splits sum.splits prod.splits)

lemma shutdown_ends:
  assumes "worker_steps cap fx config i inputs sy = Some sy'" and "sy_stop sy" and "i < length (sy_workers sy)"
    and "length (sy_control sy) = length (sy_workers sy)" and "steps_left (sy_control sy ! i) \<le> length inputs"
  shows "has_ended (sy_control sy' ! i)"
  using assms
proof (induction inputs arbitrary: sy)
  case Nil
  then show ?case by (cases "sy_control sy ! i") auto
next
  case (Cons input inputs)
  obtain results poll where input: "input = (results, poll)" by force
  with Cons.prems(1) obtain sy1 where s: "system_step cap fx config i results poll sy = Some sy1"
    and rest: "worker_steps cap fx config i inputs sy1 = Some sy'" by (auto split: option.splits)
  from s obtain ctl wk sh where
    w: "worker_step cap fx config (sy_stop sy) results poll (sy_control sy ! i, sy_workers sy ! i, sy_shared sy) = Some (ctl, wk, sh)"
    and sy1: "sy1 = sy\<lparr>sy_control := (sy_control sy)[i := ctl], sy_workers := (sy_workers sy)[i := wk], sy_shared := sh\<rparr>"
    by (rule system_stepE)
  have "steps_left ctl \<le> steps_left (sy_control sy ! i) - 1" using step_towards_end w Cons.prems(2) by (metis (full_types))
  with Cons.IH [OF rest] Cons.prems show ?case by (simp add: sy1)
qed

text \<open>When all workers have ended through the shutdown, no client is registered and nothing is subscribed to.\<close>

lemma no_connections_no_subscribers:
  assumes "server_ok gone ws sh" and "i < length ws" and "wk_connections (ws ! i) = []"
  shows "at_key (pm_exact_subs (wk_manager (ws ! i))) k = []" and "at_key (pm_pattern_subs (wk_manager (ws ! i))) k = []"
proof -
  let ?m = "wk_manager (ws ! i)"
  have "worker_ok (sh_connection_id sh) i (ws ! i)" using assms(1,2) by (simp add: server_ok_def)
  then have zero: "get_connection_subscription_count c ?m = 0" for c using assms(3) by (auto simp: worker_ok_def ids_def)
  have "tables_inverse (at_key (pm_exact_subs ?m)) (at_key (pm_connection_channels ?m))"
    "tables_inverse (at_key (pm_pattern_subs ?m)) (at_key (pm_connection_patterns ?m))"
    using assms(1,2) by (auto simp: server_ok_def system_ok_def half_ok_def)
  then have "c \<notin> set (at_key (pm_exact_subs ?m) k)" "c \<notin> set (at_key (pm_pattern_subs ?m) k)" for c
    using zero [of c] by (auto simp: tables_inverse_def get_connection_subscription_count_def map_of_cases)
  moreover have "(\<And>c. c \<notin> set xs) \<Longrightarrow> xs = []" for xs :: "nat list" by (metis list.set_intros(1) neq_Nil_conv)
  ultimately show "at_key (pm_exact_subs ?m) k = []" and "at_key (pm_pattern_subs ?m) k = []" by blast+
qed

lemma no_connections_no_clients:
  assumes "server_ok gone ws sh" and "\<forall>wk \<in> set ws. wk_connections wk = []"
  shows "get_client c (wd_clients (sh_world sh)) = None" and "get_all_channels (sh_registry sh) = []"
    and "get_channel_subscriber_count k (sh_registry sh) = 0" and "get_pattern_subscriber_count k (sh_registry sh) = 0"
proof -
  have "all_ids ws = []" using assms(2) by (simp add: all_ids_def ids_def)
  then show "get_client c (wd_clients (sh_world sh)) = None" using assms(1) by (simp add: server_ok_def)
  have none: "at_key (pm_exact_subs (wk_manager wk)) k = []" "at_key (pm_pattern_subs (wk_manager wk)) k = []" if "wk \<in> set ws" for wk k
    using no_connections_no_subscribers [OF assms(1)] assms(2) that by (metis in_set_conv_nth)+
  have ok: "system_ok (map wk_manager ws) (sh_registry sh)" using assms(1) by (simp add: server_ok_def)
  have "set (get_all_channels (sh_registry sh)) = {}" using all_channels_listed [OF ok] none by auto
  then show "get_all_channels (sh_registry sh) = []" by simp
  show "get_channel_subscriber_count k (sh_registry sh) = 0" "get_pattern_subscriber_count k (sh_registry sh) = 0"
    using thread_sets(1,2) [OF ok, of k] none by (simp_all add: sum_list_eq_0_iff)
qed

section \<open>After a worker has ended\<close>

text \<open>What the whole server can do next.\<close>

definition moves :: "nat \<Rightarrow> 's feox \<Rightarrow> config \<Rightarrow> 's system \<Rightarrow> 's system \<Rightarrow> bool" where
  "moves cap fx config sy sy' \<longleftrightarrow>
     (\<exists>i results poll. system_step cap fx config i results poll sy = Some sy') \<or> sy' = request_shutdown sy"

lemma moves_reach: "(moves cap fx config)\<^sup>*\<^sup>* sy sy' \<Longrightarrow> system_reach cap fx config sy \<Longrightarrow> system_reach cap fx config sy'"
  by (induction rule: rtranclp_induct) (auto simp: moves_def intro: system_reach.intros)

lemma worker_steps_reach:
  "worker_steps cap fx config i inputs sy = Some sy' \<Longrightarrow> system_reach cap fx config sy \<Longrightarrow> system_reach cap fx config sy'"
  by (induction cap fx config i inputs sy rule: worker_steps.induct) (auto intro: system_reach.worker split: option.splits)

lemma step_length: "system_step cap fx config i results poll sy = Some sy' \<Longrightarrow> length (sy_workers sy') = length (sy_workers sy)"
  by (auto elim: system_stepE)

lemma worker_steps_length: "worker_steps cap fx config i inputs sy = Some sy' \<Longrightarrow> length (sy_workers sy') = length (sy_workers sy)"
  by (induction cap fx config i inputs sy rule: worker_steps.induct) (auto dest: step_length split: option.splits)

lemma moves_length: "(moves cap fx config)\<^sup>*\<^sup>* sy sy' \<Longrightarrow> length (sy_workers sy') = length (sy_workers sy)"
  by (induction rule: rtranclp_induct) (auto simp: moves_def request_shutdown_def dest: step_length)

lemma ended_untouched:
  assumes "(moves cap fx config)\<^sup>*\<^sup>* sy sy'" and "has_ended (sy_control sy ! i)"
  shows "sy_control sy' ! i = sy_control sy ! i \<and> sy_workers sy' ! i = sy_workers sy ! i"
  using assms(1)
proof (induction rule: rtranclp_induct)
  case (step sy1 sy2)
  show ?case
  proof (cases "sy2 = request_shutdown sy1")
    case False
    then obtain j results poll where s: "system_step cap fx config j results poll sy1 = Some sy2"
      using step.hyps(2) by (auto simp: moves_def)
    from s obtain ctl wk sh where
      w: "worker_step cap fx config (sy_stop sy1) results poll (sy_control sy1 ! j, sy_workers sy1 ! j, sy_shared sy1) = Some (ctl, wk, sh)"
      and sy2: "sy2 = sy1\<lparr>sy_control := (sy_control sy1)[j := ctl], sy_workers := (sy_workers sy1)[j := wk], sy_shared := sh\<rparr>"
      by (rule system_stepE)
    show ?thesis
    proof (cases "j = i")
      case True
      with ended_stays [OF w] step.IH assms(2) have "sy_control sy1 ! i = ctl" "sy_workers sy1 ! i = wk" by simp_all
      then have "sy_control sy2 = sy_control sy1" "sy_workers sy2 = sy_workers sy1" using True by (auto simp: sy2)
      with step.IH show ?thesis by simp
    next
      case False
      with step.IH show ?thesis by (simp add: sy2)
    qed
  qed (use step.IH in \<open>simp add: request_shutdown_def\<close>)
qed simp

end
