(* ===== verification/System_Bounds.thy ===== *)
theory System_Bounds
  imports System_Spec
begin

text \<open>
  The sizes that stay bounded: no inbox of a worker ever holds more messages than its channel
  has room for, whatever is published.
\<close>

section \<open>The registry\<close>

definition inboxes_bounded :: "registry \<Rightarrow> bool" where
  "inboxes_bounded r \<longleftrightarrow> list_all (\<lambda>queue. length queue \<le> QUEUE_BOUND) (gr_queues r)"

lemma list_all_update: "list_all P xs \<Longrightarrow> P x \<Longrightarrow> list_all P (xs[i := x])"
  using set_update_subset_insert [of xs i x] by (auto simp: list_all_iff)

lemma send_bounded:
  "list_all (\<lambda>queue. length queue \<le> QUEUE_BOUND) queues \<Longrightarrow>
     list_all (\<lambda>queue. length queue \<le> QUEUE_BOUND) (send_to_threads msg threads queues)"
proof (induction msg threads queues rule: send_to_threads.induct)
  case (2 msg i rest queues)
  have "list_all (\<lambda>queue. length queue \<le> QUEUE_BOUND) (queues[i := try_send msg (queues ! i)])" if "i < length queues"
    using "2.prems" that by (intro list_all_update) (auto simp: list_all_length try_send_def)
  with "2" show ?case by simp
qed simp

lemma broadcast_bounded: "inboxes_bounded r \<Longrightarrow> inboxes_bounded (broadcast_to_threads msg threads r)"
  by (simp add: inboxes_bounded_def broadcast_to_threads_def send_bounded)

lemma inbox_bounded: "inboxes_bounded r \<Longrightarrow> process_inbox m r = (ds, r1) \<Longrightarrow> inboxes_bounded r1"
  by (auto simp: inboxes_bounded_def process_inbox_def list_all_update)

lemma count_queues [simp]:
  "gr_queues (increment_channel_subscribers k r) = gr_queues r" "gr_queues (decrement_channel_subscribers k r) = gr_queues r"
  "gr_queues (increment_pattern_subscribers k r) = gr_queues r" "gr_queues (decrement_pattern_subscribers k r) = gr_queues r"
  by (simp_all add: increment_channel_subscribers_def decrement_channel_subscribers_def increment_pattern_subscribers_def
      decrement_pattern_subscribers_def Let_def split: option.split)

lemma drop_queues [simp]:
  "gr_queues (fst (snd (drop_channel_subscriber c k m r))) = gr_queues r"
  "gr_queues (fst (snd (drop_pattern_subscriber c k m r))) = gr_queues r"
  by (auto simp: drop_channel_subscriber_def drop_pattern_subscriber_def Let_def split: option.split)

lemma one_queues [simp]:
  "gr_queues (snd (snd (subscribe_one c k m r))) = gr_queues r" "gr_queues (snd (snd (psubscribe_one c k m r))) = gr_queues r"
  "gr_queues (snd (snd (unsubscribe_one c k m r))) = gr_queues r" "gr_queues (snd (snd (punsubscribe_one c k m r))) = gr_queues r"
  by (simp_all add: subscribe_one_def psubscribe_one_def unsubscribe_one_def punsubscribe_one_def Let_def split_beta)

lemma subscribe_queues [simp]:
  "gr_queues (snd (snd (subscribe c ks m r))) = gr_queues r" "gr_queues (snd (snd (psubscribe c ks m r))) = gr_queues r"
  by (induction ks arbitrary: m r) (simp_all add: Let_def split_beta)

lemma listed_queues [simp]:
  "gr_queues (snd (snd (unsubscribe_listed c ks m r))) = gr_queues r"
  "gr_queues (snd (snd (punsubscribe_listed c ks m r))) = gr_queues r"
  by (induction ks arbitrary: m r) (simp_all add: Let_def split_beta)

lemma removed_queues [simp]:
  "gr_queues (snd (snd (unsubscribe_removed c ks m r))) = gr_queues r"
  "gr_queues (snd (snd (punsubscribe_removed c ks m r))) = gr_queues r"
  by (induction ks arbitrary: m r) (simp_all add: Let_def split_beta)

lemma unsubscribe_queues [simp]:
  "gr_queues (snd (snd (unsubscribe c ks m r))) = gr_queues r" "gr_queues (snd (snd (punsubscribe c ks m r))) = gr_queues r"
  by (simp_all add: unsubscribe_def punsubscribe_def split: option.split)

lemma dropped_queues:
  assumes "connection_dropped c m r = (m1, r1)"
  shows "gr_queues r1 = gr_queues r"
proof -
  have "gr_queues (snd (connection_dropped c m r)) = gr_queues r" by (simp add: connection_dropped_def split_beta)
  with assms show ?thesis by simp
qed

lemma operation_bounded:
  assumes "inboxes_bounded r" and "handle_pubsub_operation m r c q conn t = (ds, m1, r1, conn1)"
  shows "inboxes_bounded r1"
proof -
  have "inboxes_bounded (fst (snd (publish m r channel message t)))" for channel message
    using assms(1) by (simp add: publish_def Let_def broadcast_bounded)
  moreover have "r1 = fst (snd (snd (handle_pubsub_operation m r c q conn t)))" using assms(2) by simp
  ultimately show ?thesis
    using assms(1) by (cases q) (simp_all add: handle_pubsub_operation_def split_beta inboxes_bounded_def)
qed

lemma operations_bounded:
  "inboxes_bounded r \<Longrightarrow> handle_operations m r qs conn t = (ds, m1, r1, conn1) \<Longrightarrow> inboxes_bounded r1"
proof (induction m r qs conn t arbitrary: ds m1 r1 conn1 rule: handle_operations.induct)
  case (2 m r q qs conn t)
  obtain ds1 m2 r2 conn2 where h: "handle_pubsub_operation m r (cn_connection_id conn) q conn t = (ds1, m2, r2, conn2)" by (metis prod_cases4)
  obtain ds2 where rest: "handle_operations m2 r2 qs conn2 t = (ds2, m1, r1, conn1)"
    using "2.prems" h by (auto simp: Let_def split: prod.splits)
  show ?case using "2.IH" [OF h [symmetric] refl refl refl _ rest] operation_bounded [OF "2.prems"(1) h] by simp
qed simp

section \<open>The workers\<close>

abbreviation shared_bounded :: "'s shared \<Rightarrow> bool" where
  "shared_bounded sh \<equiv> inboxes_bounded (sh_registry sh)"

lemma read_loop_bounded:
  assumes "shared_bounded sh"
    and "run_end (read_loop cap fx env t reads (ds, b, sk, conn, m, sh)) = Some (returned, ds', b', sk', conn', m', sh')"
  shows "shared_bounded sh'"
  using assms
proof (induction reads arbitrary: ds b sk conn m sh)
  case (Cons rd reads)
  obtain result ws where rd: "rd = (result, ws)" by force
  show ?case
  proof (cases "\<exists>data. result = ReadData data")
    case False
    with Cons.prems rd show ?thesis by (cases result) auto
  next
    case True
    then obtain data where d: "result = ReadData data" by blast
    with Cons.prems(2) rd obtain r conn1 w1 where p: "process_read cap fx env data conn (sh_world sh) = Some (r, conn1, w1)"
      by (cases "process_read cap fx env data conn (sh_world sh)") auto
    show ?thesis
    proof (cases r)
      case (Inl e)
      with Cons.prems rd d p show ?thesis by (cases e) auto
    next
      case (Inr ops)
      obtain ds1 failed sk1 conn2 m1 sh1 where f: "finish_read t ops ws sk conn1 m (sh\<lparr>sh_world := w1\<rparr>) = (ds1, failed, sk1, conn2, m1, sh1)"
        by (metis prod_cases6)
      then have "shared_bounded sh1"
        using Cons.prems(1) by (auto simp: finish_read_def Let_def dest: operations_bounded split: prod.splits)
      with Cons.IH [of sh1 "ds @ ds1" "b \<or> failed" sk1 conn2 m1] Cons.prems(2) rd d p Inr f show ?thesis
        by (auto split: if_splits)
    qed
  qed
qed auto

lemma event_bounded:
  assumes "shared_bounded sh" and "run_end (handle_event cap fx env token writes reads later wk sh) = Some (returned, wk1, sh1)"
  shows "shared_bounded sh1"
proof (cases "map_of (wk_connections wk) token")
  case (Some entry)
  then obtain sk conn where e: "map_of (wk_connections wk) token = Some (sk, conn)" by (cases entry) auto
  obtain failed sk1 conn1 where w: "(case writes of None \<Rightarrow> (False, sk, conn) | Some ws \<Rightarrow> handle_writable ws sk conn) = (failed, sk1, conn1)"
    by (metis prod_cases3)
  let ?start = "([], failed, sk1, conn1, wk_manager wk, sh)"
  let ?run = "case reads of None \<Rightarrow> Returns ?start | Some rs \<Rightarrow> read_loop cap fx env (wk_thread_id wk) rs ?start"
  obtain b ds sk2 conn2 m sh2 where run: "run_end ?run = Some (returned, ds, b, sk2, conn2, m, sh2)"
    using assms(2) by (cases ?run) (auto simp: handle_event_def e w Let_def split: prod.splits)
  have mid: "shared_bounded sh2"
  proof (cases reads)
    case None
    with run assms(1) show ?thesis by auto
  next
    case (Some rs)
    with run assms(1) read_loop_bounded show ?thesis by (metis option.case(2))
  qed
  have "sh_registry sh1 = sh_registry sh2 \<or> (\<exists>c m1. connection_dropped c m (sh_registry sh2) = (m1, sh_registry sh1))"
    using assms(2) run by (cases ?run)
      (auto simp: handle_event_def e w Let_def drop_connection_def split: prod.splits if_splits)
  with mid show ?thesis by (auto simp: inboxes_bounded_def dest: dropped_queues)
qed (use assms in \<open>auto simp: handle_event_def\<close>)

lemma cleanup_bounded: "shared_bounded sh \<Longrightarrow> cleanup conns m sh = (m1, sh1) \<Longrightarrow> shared_bounded sh1"
proof (induction conns m sh rule: cleanup.induct)
  case (2 token sk conn rest m sh)
  obtain m2 r2 where d: "connection_dropped (cn_connection_id conn) m (sh_registry sh) = (m2, r2)" by force
  from dropped_queues [OF d] "2.prems"(1) have "inboxes_bounded r2" by (simp add: inboxes_bounded_def)
  with "2" d show ?case by (simp add: Let_def)
qed simp

lemma accept_loop_registry: "accept_loop config results wk sh = (r, wk1, sh1) \<Longrightarrow> sh_registry sh1 = sh_registry sh"
proof (induction config results wk sh arbitrary: r wk1 sh1 rule: accept_loop.induct)
  case (4 config env addr set_up results wk sh)
  obtain wk2 sh2 where a: "accept_connection env config addr wk sh = (wk2, sh2)" by force
  then have "sh_registry sh2 = sh_registry sh" by (auto simp: accept_connection_def Let_def)
  with "4" a show ?case by (auto split: accept_setup.splits)
qed auto

lemma worker_step_bounded:
  assumes "shared_bounded sh" and "worker_step cap fx config stop results poll (ctl, wk, sh) = Some (ctl', wk', sh')"
  shows "shared_bounded sh'"
proof (cases ctl)
  case Looping
  show ?thesis
  proof (cases stop)
    case True
    with assms Looping show ?thesis
      by (auto simp: worker_step_def shutdown_worker_def dest: cleanup_bounded split: prod.splits)
  next
    case False
    with assms Looping show ?thesis
      by (auto simp: worker_step_def inbox_step_def dest: inbox_bounded split: prod.splits poll_result.splits)
  qed
next
  case (Handling evs)
  show ?thesis
  proof (cases evs)
    case (Cons ev rest)
    show ?thesis
    proof (cases ev)
      case (Acceptable accepts)
      with assms Handling Cons accept_loop_registry show ?thesis
        by (fastforce simp: worker_step_def handle_one_def split: prod.splits sum.splits)
    next
      case (Ready env token writes reads later)
      with assms Handling Cons obtain returned
        where a: "run_end (handle_event cap fx env token writes reads later wk sh) = Some (returned, wk', sh')"
        by (cases "handle_event cap fx env token writes reads later wk sh") (auto simp: worker_step_def handle_one_def)
      show ?thesis using event_bounded [OF assms(1) a] .
    qed
  qed (use assms Handling in \<open>auto simp: worker_step_def\<close>)
qed (use assms in \<open>auto simp: worker_step_def\<close>)

lemma system_reach_bounded: "system_reach cap fx config sy \<Longrightarrow> shared_bounded (sy_shared sy)"
proof (induction rule: system_reach.induct)
  case (start build env sh bind fails sy)
  then have "sh_registry (sy_shared sy) = new_global_registry (cfg_threads config)"
    by (auto simp: run_server_def split: sum.splits)
  then show ?case by (simp add: inboxes_bounded_def new_global_registry_def list_all_length)
next
  case (worker sy i results poll sy')
  from worker(2) show ?case
  proof (rule system_stepE)
    fix ctl wk sh
    assume "worker_step cap fx config (sy_stop sy) results poll (sy_control sy ! i, sy_workers sy ! i, sy_shared sy) = Some (ctl, wk, sh)"
      and "sy' = sy\<lparr>sy_control := (sy_control sy)[i := ctl], sy_workers := (sy_workers sy)[i := wk], sy_shared := sh\<rparr>"
    with worker_step_bounded [OF worker(3)] show ?thesis by simp
  qed
next
  case (stop sy)
  then show ?case by (simp add: request_shutdown_def)
qed

end
