(* ===== verification/Props_System.thy ===== *)
theory Props_System
  imports Session_Spec Shutdown_Spec System_Bounds Props_Conn
begin

text \<open>
  The properties of the running server: all workers, whatever clients send and the operating
  system answers. The witnesses start from a server with one worker that has accepted one client.
\<close>

section \<open>A server with one client\<close>

definition first_client :: connection where
  "first_client = set_client_registry (new_with_addr 0 some_env (default_config 1) (Some ''a'') 0)"

lemma first_client_simps [simp]:
  "cn_parser first_client = new_parser" "waiting cap first_client" "cn_connection_id first_client = 0"
  "outgoing \<lparr>sk_sent = [], sk_writable = False\<rparr> first_client = []" "unwritten first_client = []"
proof -
  have "parse_value cap [] = Inr None" by (simp add: parse_value.simps)
  then show "cn_parser first_client = new_parser" "waiting cap first_client" "cn_connection_id first_client = 0"
    "outgoing \<lparr>sk_sent = [], sk_writable = False\<rparr> first_client = []" "unwritten first_client = []"
    by (simp_all add: first_client_def set_client_registry_def new_with_addr_def waiting_def ready_def auth_required_def
        default_config_def pending_def new_parser_def outgoing_def unwritten_def)
qed

text \<open>The worker is within the events of an iteration, of which \<open>events\<close> are left.\<close>

lemma one_client:
  fixes fx :: "'s feox"
  shows "\<exists>sy wk. system_reach cap fx (default_config 1) sy \<and> sy_control sy = [Handling events] \<and> \<not> sy_stop sy \<and>
    sy_workers sy = [wk] \<and> wk_connections wk = [(1, \<lparr>sk_sent = [], sk_writable = False\<rparr>, first_client)] \<and>
    wd_store (sh_world (sy_shared sy)) = s"
proof -
  let ?config = "default_config (Suc 0)" and ?arrival = "Acceptable [Accepted some_env ''a'' Configured]"
  let ?sh0 = "new_shared some_env ?config s"
  have valid: "validate ?config = Inr ()" by (simp add: default_config_valid)
  then have new: "new_server (\<lambda>_. Inr s) some_env ?config = Inr ?sh0" by (simp add: new_server_def)
  define sy0 where "sy0 = \<lparr>sy_control = [Looping], sy_workers = [new_worker 0], sy_shared = ?sh0, sy_stop = False\<rparr>"
  have "run_server some_env ?config ?sh0 (Inr ()) (\<lambda>_. None) = Inr sy0"
    by (simp add: run_server_def start_workers_def default_config_def new_shared_def sy0_def)
  note reach0 = system_reach.start [OF new this, of cap fx]
  define sy1 where "sy1 = sy0\<lparr>sy_control := [Handling (?arrival # events)]\<rparr>"
  have "system_step cap fx ?config 0 [] (Polled (?arrival # events)) sy0 = Some sy1"
    by (simp add: system_step_def worker_step_def inbox_step_def process_inbox_def sy0_def sy1_def new_worker_def new_manager_def
        new_shared_def new_global_registry_def default_config_def)
  note reach1 = system_reach.worker [OF reach0 this]
  obtain wk sh where a: "accept_connection some_env ?config ''a'' (new_worker 0) ?sh0 = (wk, sh)" by force
  then have wk: "wk_connections wk = [(1, \<lparr>sk_sent = [], sk_writable = False\<rparr>, first_client)]" "wd_store (sh_world sh) = s"
    by (auto simp: accept_connection_def new_worker_def new_shared_def first_client_def Let_def)
  define sy2 where "sy2 = sy1\<lparr>sy_control := [Handling events], sy_workers := [wk], sy_shared := sh\<rparr>"
  have "system_step cap fx ?config 0 [] (Polled []) sy1 = Some sy2"
    by (simp add: system_step_def worker_step_def handle_one_def sy0_def sy1_def sy2_def a)
  note reach2 = system_reach.worker [OF reach1 this]
  show ?thesis using reach2 wk by (intro exI [of _ sy2] exI [of _ wk]) (simp add: sy2_def sy1_def sy0_def)
qed

section \<open>The invariant\<close>

text \<open>C1: In every state that the running server can reach, whatever clients send and the operating system answers:
  the pub/sub bookkeeping is consistent over all workers; connection ids are unique; the client registry holds
  exactly the open connections; the number of active connections is right until a worker has shut down; no
  connection that a worker holds is closed, its buffers are in order, and its mode agrees with the tables of its
  worker.\<close>

theorem server_invariant:
  assumes "system_reach cap fx config sy"
  shows "system_ok (map wk_manager (sy_workers sy)) (sh_registry (sy_shared sy)) \<and> distinct (all_ids (sy_workers sy)) \<and>
    (\<forall>c. get_client c (wd_clients (sh_world (sy_shared sy))) \<noteq> None \<longleftrightarrow> c \<in> set (all_ids (sy_workers sy))) \<and>
    (Ended (Inr ()) \<notin> set (sy_control sy) \<longrightarrow> active_connections sy = word_of_nat (length (all_ids (sy_workers sy)))) \<and>
    (i < length (sy_workers sy) \<and> (token, sk, conn) \<in> set (wk_connections (sy_workers sy ! i)) \<longrightarrow>
      \<not> cn_closed conn \<and> io_ok conn \<and> mode_agrees conn (wk_manager (sy_workers sy ! i)) \<and>
      cn_connection_id conn < sh_connection_id (sy_shared sy))"
proof -
  have inv: "system_inv sy" using assms by (rule system_reach_inv)
  then obtain gone where ok: "server_ok gone (sy_workers sy) (sy_shared sy)" "gone \<noteq> 0 \<longrightarrow> Ended (Inr ()) \<in> set (sy_control sy)"
    by (auto simp: system_inv_def)
  have "\<not> cn_closed conn \<and> io_ok conn \<and> mode_agrees conn (wk_manager (sy_workers sy ! i)) \<and>
      cn_connection_id conn < sh_connection_id (sy_shared sy)"
    if i: "i < length (sy_workers sy)" "(token, sk, conn) \<in> set (wk_connections (sy_workers sy ! i))"
  proof -
    have "io_ok conn" using inv i by (fastforce simp: system_inv_def all_io_ok_def)
    moreover have "worker_ok (sh_connection_id (sy_shared sy)) i (sy_workers sy ! i)" using ok(1) i(1) by (simp add: server_ok_def)
    ultimately show ?thesis using i(2) by (force simp: worker_ok_def mode_agrees_def)
  qed
  with ok show ?thesis by (auto simp: server_ok_def active_connections_def simp del: not_None_eq)
qed

theorem server_invariant_witness:
  "\<exists>sy :: mem system. system_reach 16 mem_store (default_config 1) sy \<and> active_connections sy = 1 \<and>
     get_client 0 (wd_clients (sh_world (sy_shared sy))) \<noteq> None"
proof -
  obtain sy wk where sy: "system_reach 16 mem_store (default_config 1) sy" "sy_control sy = [Handling []]" "sy_workers sy = [wk]"
    "wk_connections wk = [(1, \<lparr>sk_sent = [], sk_writable = False\<rparr>, first_client)]"
    using one_client [of 16 mem_store "[]"] by blast
  have "all_ids (sy_workers sy) = [0]" by (simp add: sy(3,4) all_ids_def ids_def)
  with server_invariant [OF sy(1), of 0 1 "\<lparr>sk_sent = [], sk_writable = False\<rparr>" first_client] sy show ?thesis
    by (intro exI [of _ sy]) simp
qed

section \<open>What a client gets\<close>

text \<open>C2: The server is a map of keys. In any reachable state, a client that is ready and whose input ends in no
  whole command sends any commands on keys, cut into reads and answered by writes in any way (without an error of
  the socket), and perhaps the beginning of another: the step of its worker returns, the store is the map after
  the commands, the client is sent exactly their replies in order, and is ready for the next event with the
  unfinished bytes kept.\<close>

theorem server_serves_map:
  assumes "feox_store fx view good accepts" and "system_reach cap fx config sy" and "i < length (sy_workers sy)"
    and "sy_control sy ! i = Handling (Ready env token writes (Some (pieces_read pieces)) later # events)"
    and "map_of (wk_connections (sy_workers sy ! i)) token = Some (sk, conn)" and "waiting cap conn"
    and "good (wd_store (sh_world (sy_shared sy)))"
    and "list_all (request_ok cap accepts) reqs" and "parse_value cap tail = Inr None"
    and "pending (cn_parser conn) @ concat (map fst pieces) = concat (map encode reqs) @ tail"
    and "\<forall>(d, ws) \<in> set pieces. WriteFailed \<notin> set ws" and "\<forall>ws \<in> set_option writes. WriteFailed \<notin> set ws"
  shows "\<exists>sy1 sk1 conn1. system_step cap fx config i results poll sy = Some sy1 \<and> sy_control sy1 ! i = Handling events \<and>
    map_of (wk_connections (sy_workers sy1 ! i)) token = Some (sk1, conn1) \<and>
    outgoing sk1 conn1 = outgoing sk conn @ fst (answers reqs (view (wd_store (sh_world (sy_shared sy))))) \<and>
    view (wd_store (sh_world (sy_shared sy1))) = snd (answers reqs (view (wd_store (sh_world (sy_shared sy))))) \<and>
    good (wd_store (sh_world (sy_shared sy1))) \<and> pending (cn_parser conn1) = tail \<and> waiting cap conn1"
  using assms by (rule system_serves)

theorem server_serves_map_witness:
  "\<exists>sy sy1 sk1 conn1. system_reach 16 mem_store (default_config 1) sy \<and>
     system_step 16 mem_store (default_config 1) 0 [] (Polled []) sy = Some sy1 \<and>
     map_of (wk_connections (sy_workers sy1 ! 0)) 1 = Some (sk1, conn1) \<and>
     outgoing sk1 conn1 = write_resp_value [] (SimpleString ''OK'') @ write_resp_value [] (BulkString (Some ''v'')) \<and>
     mem_view (wd_store (sh_world (sy_shared sy1))) = [''k'' \<mapsto> ''v'']"
proof -
  let ?reqs = "[SetKey ''k'' ''v'', GetKey ''k'']"
  define bs where "bs = concat (map encode ?reqs)"
  let ?pieces = "[(take 3 bs, [WriteBlocked]), (drop 3 bs, [Wrote 2])]"
  obtain sy wk where sy: "system_reach 16 mem_store (default_config 1) sy"
    "sy_control sy = [Handling [Ready some_env 1 None (Some (pieces_read ?pieces)) []]]" "sy_workers sy = [wk]"
    "wk_connections wk = [(1, \<lparr>sk_sent = [], sk_writable = False\<rparr>, first_client)]" "wd_store (sh_world (sy_shared sy)) = empty_mem"
    using one_client [of 16 mem_store "[Ready some_env 1 None (Some (pieces_read ?pieces)) []]" empty_mem] by blast
  have conn: "map_of (wk_connections (sy_workers sy ! 0)) 1 = Some (\<lparr>sk_sent = [], sk_writable = False\<rparr>, first_client)"
    "sy_control sy ! 0 = Handling [Ready some_env 1 None (Some (pieces_read ?pieces)) []]" "0 < length (sy_workers sy)"
    using sy(2-4) by simp_all
  have ok: "list_all (request_ok 16 (\<lambda>_ _. True)) ?reqs" by (simp add: request_ok_def)
  have none: "parse_value 16 [] = Inr None" by (simp add: parse_value.simps)
  have bytes: "pending (cn_parser first_client) @ concat (map fst ?pieces) = concat (map encode ?reqs) @ []"
    by (simp add: new_parser_def pending_def) (simp add: bs_def)
  have "mem_good (wd_store (sh_world (sy_shared sy)))" by (simp add: sy(5))
  from server_serves_map [OF mem_is_store sy(1) conn(3,2,1) _ this ok none bytes, of "[]" "Polled []"] sy(5) sy(1)
  show ?thesis by auto
qed

text \<open>C3: No reply is lost, repeated or reordered: over any step of any worker, what a connection has been sent and
  is still to be sent only grows at its end, as long as the connection stays.\<close>

theorem replies_never_lost:
  assumes "system_reach cap fx config sy" and "system_step cap fx config i results poll sy = Some sy1" and "j < length (sy_workers sy)"
    and "map_of (wk_connections (sy_workers sy ! j)) token = Some (sk, conn)"
    and "map_of (wk_connections (sy_workers sy1 ! j)) token = Some (sk1, conn1)"
  shows "prefix (outgoing sk conn) (outgoing sk1 conn1)"
  using system_outputs_grow [OF system_reach_inv [OF assms(1)] assms(2,3)] assms(4,5) by (simp add: outputs_grow_def)

theorem replies_never_lost_witness:
  "\<exists>(sy :: mem system) sy1. system_reach 16 mem_store (default_config 1) sy \<and>
     system_step 16 mem_store (default_config 1) 0 [] (Polled []) sy = Some sy1 \<and>
     (\<exists>sk1 conn1. map_of (wk_connections (sy_workers sy1 ! 0)) 1 = Some (sk1, conn1) \<and> prefix [] (outgoing sk1 conn1))"
proof -
  obtain sy :: "mem system" and wk where sy: "system_reach 16 mem_store (default_config 1) sy" "sy_control sy = [Handling []]"
    "sy_workers sy = [wk]" "wk_connections wk = [(1, \<lparr>sk_sent = [], sk_writable = False\<rparr>, first_client)]"
    using one_client [of 16 mem_store "[]"] by blast
  let ?sy1 = "sy\<lparr>sy_control := [Looping], sy_workers := [wk]\<rparr>"
  have "system_step 16 mem_store (default_config 1) 0 [] (Polled []) sy = Some ?sy1"
    by (simp add: system_step_def worker_step_def sy)
  moreover from replies_never_lost [OF sy(1) this, of 0 1 "\<lparr>sk_sent = [], sk_writable = False\<rparr>" first_client] sy(3,4)
  have "prefix [] (outgoing \<lparr>sk_sent = [], sk_writable = False\<rparr> first_client)" by simp
  ultimately show ?thesis using sy by (intro exI [of _ sy] exI [of _ ?sy1]) simp
qed

text \<open>C29: What a socket has been given and what is still unwritten is always what there was to write, and one call
  suffices. After the replies of a read, the socket is registered for WRITABLE if anything remains; after a
  message that is delivered to it, it is not, however little of the message was written.\<close>

theorem socket_writes:
  "(write_pending (result # ws) sk conn = (b, sk1, conn1) \<longrightarrow> outgoing sk1 conn1 = outgoing sk conn \<and>
      write_pending [result] sk conn = (b, sk1, conn1) \<and> sk_writable sk1 = sk_writable sk) \<and>
    (finish_read t ops results sk conn m sh = (ds, failed, sk2, conn2, m1, sh1) \<and> unwritten conn2 \<noteq> [] \<longrightarrow> sk_writable sk2) \<and>
    (deliver_message (cn_connection_id conn) msg [WriteBlocked] [(token, sk, conn)] =
      [(token, sk, process_pubsub_messages (queue_pubsub_message msg conn))])"
proof -
  have "write_pending [WriteBlocked] sk conn = (False, sk, conn)" for conn by (simp split: option.split)
  moreover have "sk_writable sk2" if "finish_read t ops results sk conn m sh = (ds, failed, sk2, conn2, m1, sh1)" and "unwritten conn2 \<noteq> []"
    using that by (auto simp: finish_read_def Let_def pending_writes_unwritten split: prod.splits if_splits)
  ultimately show ?thesis
    using write_pending_output(1) [of "result # ws" sk conn b sk1 conn1] write_pending_once [of result ws sk conn]
      write_pending_keeps [of "result # ws" sk conn b sk1 conn1]
    by auto
qed

theorem socket_writes_witness:
  "\<exists>sk1 conn1. write_pending [Wrote 2] \<lparr>sk_sent = [], sk_writable = False\<rparr> (first_client\<lparr>cn_write_buffer := ''+OK''\<rparr>) = (False, sk1, conn1) \<and>
     sk_sent sk1 @ unwritten conn1 = ''+OK''"
proof -
  let ?sk = "\<lparr>sk_sent = [], sk_writable = False\<rparr>" and ?conn = "first_client\<lparr>cn_write_buffer := ''+OK''\<rparr>"
  have u: "unwritten ?conn = ''+OK''" by (simp add: unwritten_def first_client_def set_client_registry_def new_with_addr_def)
  obtain b sk1 conn1 where w: "write_pending [Wrote 2] ?sk ?conn = (b, sk1, conn1)" by (metis prod_cases3)
  have b: "b = False" using w u by (auto simp: pending_writes_unwritten)
  from socket_writes [of "Wrote 2" "[]" ?sk ?conn b sk1 conn1] w have "outgoing sk1 conn1 = outgoing ?sk ?conn" by blast
  with w show ?thesis unfolding b by (auto simp: outgoing_def u)
qed

section \<open>The end of the workers\<close>

text \<open>C30: The shutdown ends the server. Once it is requested, every worker ends after at most the events it is in the
  middle of and two more steps, unless a handler never returns; a worker that ends through it, and not by an
  error or a panic before, holds no connection.\<close>

theorem shutdown_ends_workers:
  assumes "system_reach cap fx config sy" and "sy_stop sy" and "i < length (sy_workers sy)"
    and "worker_steps cap fx config i inputs sy = Some sy1" and "steps_left (sy_control sy ! i) \<le> length inputs"
  shows "has_ended (sy_control sy1 ! i) \<and> (sy_control sy1 ! i = Ended (Inr ()) \<longrightarrow> wk_connections (sy_workers sy1 ! i) = [])"
proof -
  have inv: "system_inv sy" "system_inv sy1" using assms(1,4) worker_steps_reach system_reach_inv by blast+
  have "length (sy_workers sy1) = length (sy_workers sy)" using worker_steps_length [OF assms(4)] .
  with inv(2) assms(3) have "sy_control sy1 ! i = Ended (Inr ()) \<longrightarrow> wk_connections (sy_workers sy1 ! i) = []"
    by (simp add: system_inv_def)
  moreover have "length (sy_control sy) = length (sy_workers sy)" using inv(1) by (simp add: system_inv_def)
  ultimately show ?thesis using shutdown_ends [OF assms(4,2,3) _ assms(5)] by simp
qed

text \<open>One worker with one client, between its iterations, after the shutdown has been requested.\<close>

lemma stopped_client:
  fixes fx :: "'s feox"
  shows "\<exists>sy wk. system_reach cap fx (default_config 1) sy \<and> sy_control sy = [Looping] \<and> sy_stop sy \<and>
    sy_workers sy = [wk] \<and> wk_connections wk = [(1, \<lparr>sk_sent = [], sk_writable = False\<rparr>, first_client)]"
proof -
  obtain sy :: "'s system" and wk where sy: "system_reach cap fx (default_config 1) sy" "sy_control sy = [Handling []]"
    "sy_workers sy = [wk]" "wk_connections wk = [(1, \<lparr>sk_sent = [], sk_writable = False\<rparr>, first_client)]"
    using one_client [of cap fx "[]"] by blast
  have "system_step cap fx (default_config 1) 0 [] (Polled []) sy = Some (sy\<lparr>sy_control := [Looping], sy_workers := [wk]\<rparr>)"
    by (simp add: system_step_def worker_step_def sy)
  from system_reach.stop [OF system_reach.worker [OF sy(1) this]] sy(4) show ?thesis
    by (intro exI [of _ "request_shutdown (sy\<lparr>sy_control := [Looping], sy_workers := [wk]\<rparr>)"] exI [of _ wk])
      (simp add: request_shutdown_def)
qed

theorem shutdown_ends_workers_witness:
  "\<exists>(sy :: mem system) sy1. system_reach 16 mem_store (default_config 1) sy \<and> \<not> has_ended (sy_control sy ! 0) \<and>
     worker_steps 16 mem_store (default_config 1) 0 [([], Polled [])] sy = Some sy1 \<and> has_ended (sy_control sy1 ! 0)"
proof -
  obtain sy :: "mem system" and wk where sy: "system_reach 16 mem_store (default_config 1) sy" "sy_control sy = [Looping]"
    "sy_stop sy" "sy_workers sy = [wk]"
    using stopped_client [of 16 mem_store] by blast
  obtain wk1 sh1 where "shutdown_worker wk (sy_shared sy) = (wk1, sh1)" by force
  then obtain sy1 where w: "worker_steps 16 mem_store (default_config 1) 0 [([], Polled [])] sy = Some sy1"
    by (simp add: system_step_def worker_step_def sy)
  from shutdown_ends_workers [OF sy(1,3) _ w] sy w show ?thesis by (intro exI [of _ sy] exI [of _ sy1]) simp
qed

text \<open>C31: The step in which a worker shuts down drops its connections, but does not count them as gone. When all
  workers have ended this way, \<open>run\<close> returns, no client is registered, the registry lists no channel and counts
  no subscriber.\<close>

theorem shutdown_cleans_up:
  assumes "system_reach cap fx config sy"
  shows "(i < length (sy_workers sy) \<and> sy_control sy ! i = Looping \<and> sy_stop sy \<longrightarrow>
      (\<exists>sy1. system_step cap fx config i results poll sy = Some sy1 \<and> sy_control sy1 ! i = Ended (Inr ()) \<and>
        wk_connections (sy_workers sy1 ! i) = [] \<and> active_connections sy1 = active_connections sy)) \<and>
    (list_all (\<lambda>ctl. ctl = Ended (Inr ())) (sy_control sy) \<longrightarrow>
      run_returns sy \<and> get_client c (wd_clients (sh_world (sy_shared sy))) = None \<and>
      get_all_channels (sh_registry (sy_shared sy)) = [] \<and> get_channel_subscriber_count k (sh_registry (sy_shared sy)) = 0 \<and>
      get_pattern_subscriber_count k (sh_registry (sy_shared sy)) = 0)"
proof -
  have inv: "system_inv sy" using assms by (rule system_reach_inv)
  then obtain gone where ok: "server_ok gone (sy_workers sy) (sy_shared sy)" and len: "length (sy_control sy) = length (sy_workers sy)"
    by (auto simp: system_inv_def)
  have "\<exists>sy1. system_step cap fx config i results poll sy = Some sy1 \<and> sy_control sy1 ! i = Ended (Inr ()) \<and>
      wk_connections (sy_workers sy1 ! i) = [] \<and> active_connections sy1 = active_connections sy"
    if "i < length (sy_workers sy)" "sy_control sy ! i = Looping" "sy_stop sy"
  proof -
    obtain wk sh where d: "shutdown_worker (sy_workers sy ! i) (sy_shared sy) = (wk, sh)" by force
    show ?thesis
      using shutdown_worker_ok(2,3) [OF ok that(1) d] that len d
      by (simp add: system_step_def worker_step_def active_connections_def)
  qed
  moreover have "\<forall>wk \<in> set (sy_workers sy). wk_connections wk = []" "run_returns sy"
    if "list_all (\<lambda>ctl. ctl = Ended (Inr ())) (sy_control sy)"
  proof -
    show "\<forall>wk \<in> set (sy_workers sy). wk_connections wk = []"
      using that inv len by (auto simp: system_inv_def list_all_length in_set_conv_nth)
    show "run_returns sy" using that by (auto simp: run_returns_def list_all_iff)
  qed
  ultimately show ?thesis using no_connections_no_clients [OF ok] by blast
qed

theorem shutdown_cleans_up_witness:
  "\<exists>sy1 :: mem system. system_reach 16 mem_store (default_config 1) sy1 \<and> active_connections sy1 = 1 \<and> run_returns sy1 \<and>
     get_client 0 (wd_clients (sh_world (sy_shared sy1))) = None"
proof -
  obtain sy :: "mem system" and wk where sy: "system_reach 16 mem_store (default_config 1) sy" "sy_control sy = [Looping]"
    "sy_stop sy" "sy_workers sy = [wk]" "wk_connections wk = [(1, \<lparr>sk_sent = [], sk_writable = False\<rparr>, first_client)]"
    using stopped_client [of 16 mem_store] by blast
  have "\<exists>gone. server_ok gone (sy_workers sy) (sy_shared sy) \<and> (gone \<noteq> 0 \<longrightarrow> Ended (Inr ()) \<in> set (sy_control sy))"
    using system_reach_inv [OF sy(1)] by (auto simp: system_inv_def)
  then have one: "active_connections sy = 1"
    using sy(2,4,5) by (auto simp: server_ok_def active_connections_def all_ids_def ids_def)
  obtain sy1 where s: "system_step 16 mem_store (default_config 1) 0 [] (Polled []) sy = Some sy1"
    "sy_control sy1 ! 0 = Ended (Inr ())" "active_connections sy1 = active_connections sy"
    using shutdown_cleans_up [OF sy(1), of 0 "[]" "Polled []"] sy(2-4) by auto
  have reach: "system_reach 16 mem_store (default_config 1) sy1" using sy(1) s(1) by (rule system_reach.worker)
  from s(1) sy(2,4) have "length (sy_control sy1) = 1" by (auto simp: system_step_def split: option.splits)
  then have "list_all (\<lambda>ctl. ctl = Ended (Inr ())) (sy_control sy1)" using s(2) by (simp add: list_all_length)
  with shutdown_cleans_up [OF reach, where c = 0] reach one s(3) show ?thesis by (intro exI [of _ sy1]) simp
qed

text \<open>C32: An error of \<open>poll\<close>, or of the configuration of a new socket, ends a worker without the cleanup. Whatever the
  other workers do afterwards, the clients of a worker that has ended with connections stay registered, and its
  subscribers are counted in the replies of PUBLISH although nothing is delivered to them any more: the state that
  the worker leaves behind never changes again.\<close>

theorem failed_worker_leaks:
  assumes "system_reach cap fx config sy" and "i < length (sy_workers sy)"
  shows "(sy_control sy ! i = Looping \<and> \<not> sy_stop sy \<longrightarrow>
      (\<exists>sy1. system_step cap fx config i results (PollFailed e) sy = Some sy1 \<and> sy_control sy1 ! i = Ended (Inl (Io e)) \<and>
        ids (sy_workers sy1 ! i) = ids (sy_workers sy ! i))) \<and>
    (sy_control sy ! i = Handling (Acceptable (Accepted env addr (NodelayFailed e) # accepts) # events) \<longrightarrow>
      (\<exists>sy1. system_step cap fx config i results poll sy = Some sy1 \<and> sy_control sy1 ! i = Ended (Inl (Io e)) \<and>
        sy_workers sy1 ! i = sy_workers sy ! i)) \<and>
    (has_ended (sy_control sy ! i) \<and> (moves cap fx config)\<^sup>*\<^sup>* sy sy2 \<longrightarrow>
      sy_control sy2 ! i = sy_control sy ! i \<and> sy_workers sy2 ! i = sy_workers sy ! i \<and>
      (\<forall>c \<in> set (ids (sy_workers sy ! i)). get_client c (wd_clients (sh_world (sy_shared sy2))) \<noteq> None) \<and>
      length (at_key (pm_exact_subs (wk_manager (sy_workers sy ! i))) k) \<le> get_channel_subscriber_count k (sh_registry (sy_shared sy2)))"
proof -
  have len: "length (sy_control sy) = length (sy_workers sy)"
    using system_reach_inv [OF assms(1)] by (simp add: system_inv_def)
  have poll: "\<exists>sy1. system_step cap fx config i results (PollFailed e) sy = Some sy1 \<and> sy_control sy1 ! i = Ended (Inl (Io e)) \<and>
      ids (sy_workers sy1 ! i) = ids (sy_workers sy ! i)" if "sy_control sy ! i = Looping" "\<not> sy_stop sy"
  proof -
    obtain ds r where b: "process_inbox (wk_manager (sy_workers sy ! i)) (sh_registry (sy_shared sy)) = (ds, r)" by force
    have "ids ((sy_workers sy ! i)\<lparr>wk_connections := deliver_messages ds results (wk_connections (sy_workers sy ! i))\<rparr>) = ids (sy_workers sy ! i)"
      unfolding ids_skeleton using deliver_messages_skeleton by simp
    with that assms(2) len b show ?thesis by (simp add: system_step_def worker_step_def inbox_step_def)
  qed
  have accept: "\<exists>sy1. system_step cap fx config i results poll sy = Some sy1 \<and> sy_control sy1 ! i = Ended (Inl (Io e)) \<and>
      sy_workers sy1 ! i = sy_workers sy ! i"
    if "sy_control sy ! i = Handling (Acceptable (Accepted env addr (NodelayFailed e) # accepts) # events)"
    using that assms(2) len by (simp add: system_step_def worker_step_def handle_one_def)
  have later: "sy_control sy2 ! i = sy_control sy ! i \<and> sy_workers sy2 ! i = sy_workers sy ! i \<and>
      (\<forall>c \<in> set (ids (sy_workers sy ! i)). get_client c (wd_clients (sh_world (sy_shared sy2))) \<noteq> None) \<and>
      length (at_key (pm_exact_subs (wk_manager (sy_workers sy ! i))) k) \<le> get_channel_subscriber_count k (sh_registry (sy_shared sy2))"
    if m: "(moves cap fx config)\<^sup>*\<^sup>* sy sy2" and "has_ended (sy_control sy ! i)"
  proof -
    have same: "sy_control sy2 ! i = sy_control sy ! i" "sy_workers sy2 ! i = sy_workers sy ! i" "length (sy_workers sy2) = length (sy_workers sy)"
      using ended_untouched [OF that] moves_length [OF m] by simp_all
    have "system_inv sy2" using moves_reach [OF m assms(1)] by (rule system_reach_inv)
    then obtain gone where ok: "server_ok gone (sy_workers sy2) (sy_shared sy2)" by (auto simp: system_inv_def)
    have i: "sy_workers sy ! i \<in> set (sy_workers sy2)" using same assms(2) by (metis nth_mem)
    then have "c \<in> set (all_ids (sy_workers sy2))" if "c \<in> set (ids (sy_workers sy ! i))" for c using that by (auto simp: all_ids_def)
    moreover have "system_ok (map wk_manager (sy_workers sy2)) (sh_registry (sy_shared sy2))" using ok by (simp add: server_ok_def)
    from thread_sets(1) [OF this, of k] have "length (at_key (pm_exact_subs (wk_manager (sy_workers sy ! i))) k) \<le>
        get_channel_subscriber_count k (sh_registry (sy_shared sy2))"
      using i member_le_sum_list [of "length (at_key (pm_exact_subs (wk_manager (sy_workers sy ! i))) k)"
          "map (\<lambda>m. length (at_key (pm_exact_subs m) k)) (map wk_manager (sy_workers sy2))"] by simp
    ultimately show ?thesis using same ok by (simp add: server_ok_def)
  qed
  from poll accept later show ?thesis by blast
qed

theorem failed_worker_leaks_witness:
  "\<exists>(sy :: mem system) sy1. system_reach 16 mem_store (default_config 1) sy1 \<and> sy_control sy1 ! 0 = Ended (Inl (Io ''EINVAL'')) \<and>
     get_client 0 (wd_clients (sh_world (sy_shared sy1))) \<noteq> None"
proof -
  let ?events = "[Acceptable [Accepted some_env ''b'' (NodelayFailed ''EINVAL'')]]"
  obtain sy :: "mem system" and wk where sy: "system_reach 16 mem_store (default_config 1) sy" "sy_control sy = [Handling ?events]"
    "sy_workers sy = [wk]" "wk_connections wk = [(1, \<lparr>sk_sent = [], sk_writable = False\<rparr>, first_client)]"
    using one_client [of 16 mem_store ?events] by blast
  then obtain sy1 where s: "system_step 16 mem_store (default_config 1) 0 [] (Polled []) sy = Some sy1"
    "sy_control sy1 ! 0 = Ended (Inl (Io ''EINVAL''))" "sy_workers sy1 ! 0 = wk"
    using failed_worker_leaks [OF sy(1), of 0 "[]" "''EINVAL''" some_env "''b''" "[]" "[]" "Polled []"] by auto
  have reach: "system_reach 16 mem_store (default_config 1) sy1" using sy(1) s(1) by (rule system_reach.worker)
  have "length (sy_workers sy1) = 1" using s(1) sy(3) by (auto simp: system_step_def split: option.splits)
  with failed_worker_leaks [OF reach, of 0 "[]" "[]" some_env "[]" "[]" "[]" "Polled []" sy1 "[]"] s(2,3) sy(4) reach show ?thesis
    by (intro exI [of _ sy] exI [of _ sy1]) (auto simp: ids_def)
qed

section \<open>Bounds\<close>

text \<open>C33: No inbox of a worker ever holds more messages than its channel has room for, 1024, whatever is published; there
  is one inbox per worker. Of every connection, the read positions lie within the buffers, and ids and tokens
  below the counters they are taken from.\<close>

theorem sizes_bounded:
  assumes "system_reach cap fx config sy" and "i < length (sy_workers sy)"
  shows "length (gr_queues (sh_registry (sy_shared sy))) = length (sy_workers sy) \<and>
    length (gr_queues (sh_registry (sy_shared sy)) ! i) \<le> 1024 \<and>
    ((token, sk, conn) \<in> set (wk_connections (sy_workers sy ! i)) \<longrightarrow>
      cn_write_position conn \<le> length (cn_write_buffer conn) \<and>
      rp_position (cn_parser conn) \<le> length (rp_buffer (cn_parser conn)) \<and>
      token < wk_next_token (sy_workers sy ! i) \<and> cn_connection_id conn < sh_connection_id (sy_shared sy))"
proof -
  have inv: "system_inv sy" using assms(1) by (rule system_reach_inv)
  then obtain gone where ok: "server_ok gone (sy_workers sy) (sy_shared sy)" by (auto simp: system_inv_def)
  then have q: "length (gr_queues (sh_registry (sy_shared sy))) = length (sy_workers sy)" by (simp add: server_ok_def system_ok_def)
  then have "length (gr_queues (sh_registry (sy_shared sy)) ! i) \<le> 1024"
    using system_reach_bounded [OF assms(1)] assms(2) by (auto simp: inboxes_bounded_def list_all_length QUEUE_BOUND_def)
  moreover have "cn_write_position conn \<le> length (cn_write_buffer conn) \<and>
      rp_position (cn_parser conn) \<le> length (rp_buffer (cn_parser conn)) \<and>
      token < wk_next_token (sy_workers sy ! i) \<and> cn_connection_id conn < sh_connection_id (sy_shared sy)"
    if c: "(token, sk, conn) \<in> set (wk_connections (sy_workers sy ! i))"
  proof -
    have "io_ok conn" using inv assms(2) c by (fastforce simp: system_inv_def all_io_ok_def)
    moreover have "worker_ok (sh_connection_id (sy_shared sy)) i (sy_workers sy ! i)" using ok assms(2) by (simp add: server_ok_def)
    ultimately show ?thesis using c by (force simp: worker_ok_def io_ok_def parser_ok_def)
  qed
  ultimately show ?thesis using q by blast
qed

theorem sizes_bounded_witness:
  "\<exists>sy :: mem system. system_reach 16 mem_store (default_config 1) sy \<and> length (gr_queues (sh_registry (sy_shared sy)) ! 0) \<le> 1024"
proof -
  obtain sy :: "mem system" and wk where "system_reach 16 mem_store (default_config 1) sy" "sy_workers sy = [wk]"
    using one_client [of 16 mem_store "[]"] by blast
  with sizes_bounded [of 16 mem_store "default_config 1" sy 0] show ?thesis by (intro exI [of _ sy]) simp
qed

end
