(* ===== verification/Spec2Isabelle.thy ===== *)
theory Spec2Isabelle
  imports Props_Protocol Props_Store Props_Conn Props_Server Props_System
begin

text \<open>
  feox-server: a server with the protocol of Redis over the key-value store feoxdb.

  \<^bold>\<open>The program.\<close> \<open>src/src/bin/server.rs\<close> turns the command line into a configuration and starts
  \<open>src/src/server.rs\<close>, which runs a number of worker threads. A worker owns connections
  (\<open>network/connection.rs\<close>) and the table of their subscriptions (\<open>pubsub/manager.rs\<close>, with the
  trie of \<open>pubsub/pattern.rs\<close>). The bytes of a read go through the incremental RESP parser
  (\<open>protocol/resp.rs\<close>); a parsed value becomes a command (\<open>protocol/command/parser.rs\<close>, \<open>mod.rs\<close>,
  with the metadata of \<open>command_table.rs\<close>), and the command is handled by the connection itself
  (transactions, authentication, CLIENT SETNAME), by the executor (\<open>executor.rs\<close>, \<open>list.rs\<close>,
  \<open>hash.rs\<close>, \<open>client.rs\<close>), or, for pub/sub, by \<open>pubsub/handler.rs\<close> after the read. All workers
  share the store, the versions of the watched keys (\<open>watch_registry.rs\<close>), the pending metadata of
  the hashes, the registry of the clients (\<open>client_registry.rs\<close>) and the pub/sub registry
  (\<open>pubsub/registry.rs\<close>) with a bounded inbox per worker.

  \<^bold>\<open>Theories and code.\<close> Paths are below \<open>src/src\<close>.

  \<^item> \<open>Prelude\<close>: bytes, results, the named collections. \<open>Rust_Ints\<close>, \<open>Rust_Strings\<close>: what the
    code uses of the standard library (printing and parsing of integers, little-endian bytes,
    saturating addition, UTF-8 validation and lossy decoding, case mapping).
  \<^item> \<open>Resp\<close>, \<open>Resp_Parser\<close>: \<open>protocol/resp.rs\<close>, values, writer, parser with its buffer.
  \<^item> \<open>Command\<close>, \<open>Command_Parser\<close>, \<open>Command_Table\<close>: \<open>mod.rs\<close>, \<open>parser.rs\<close> (one definition per
    arm of the match, \<open>parse_arms\<close> the match) and \<open>command_table.rs\<close>; \<open>Command_Arity\<close>: the numbers
    of arguments the parser takes, exactly, against those of the table.
  \<^item> \<open>Store\<close>: the interface of feoxdb, see below. \<open>Server_Error\<close>, \<open>Config\<close>: \<open>error.rs\<close>, \<open>config.rs\<close>.
  \<^item> \<open>Watch_Registry\<close>, \<open>Client_Registry\<close>, \<open>Client_Ops\<close>: \<open>watch_registry.rs\<close>,
    \<open>client_registry.rs\<close>, \<open>client.rs\<close>.
  \<^item> \<open>List_Ops\<close>, \<open>Hash_Ops\<close>, \<open>Glob\<close>, \<open>Executor\<close>: \<open>list.rs\<close>, \<open>hash.rs\<close>, the glob matchers, and
    \<open>executor.rs\<close> with one definition per command over the state \<open>world\<close> that all workers share.
  \<^item> \<open>Pattern_Trie\<close>, \<open>Pubsub_Message\<close>, \<open>Pubsub_Registry\<close>, \<open>Pubsub_Manager\<close>, \<open>Pubsub_Handler\<close>: the
    files of \<open>pubsub\<close>.
  \<^item> \<open>Connection\<close>: \<open>network/connection.rs\<close>; \<open>process_read\<close> is the loop over the values of a read,
    \<open>handle_value\<close>, \<open>handle_command\<close> and \<open>dispatch\<close> its body, in the order of the code.
  \<^item> \<open>Server\<close>: \<open>server.rs\<close>, the state of a worker and of what is shared, and the handlers of the
    event loop: \<open>inbox_step\<close>, \<open>accept_connection\<close>, \<open>handle_event\<close>, \<open>shutdown_worker\<close>.
  \<^item> \<open>Event_Loop\<close>: \<open>server.rs\<close>, the control flow around them: \<open>accept_loop\<close>, the loop of a worker with
    all its exits as the steps \<open>worker_step\<close> over its \<open>stage\<close>, \<open>run_server\<close>, \<open>request_shutdown\<close>, and the
    step of one worker within the whole server, \<open>system_step\<close>.
  \<^item> \<open>Launch\<close>: \<open>bin/server.rs\<close>, from the arguments to the configuration and the running workers.

  \<^bold>\<open>What the lemmas show.\<close> \<open>Resp_Parser\<close>: parsing is stable under more input, consumes what it
  returns, and inverts the writer. \<open>List_Spec\<close> and \<open>List_Read\<close>: a list is represented by its
  metadata and entries (\<open>list_at\<close>); pushes and pops refine the operations on the abstract list.
  \<open>Hash_Spec\<close>: a hash is a map of its fields (\<open>hash_map\<close>), the counters and the pending updates
  sum up to its size. \<open>Executor_Spec\<close>: the commands on plain keys as operations on the map of
  keys, with the notifications. \<open>Glob\<close>: the loops against \<open>matches\<close>, the declarative meaning
  of a pattern. \<open>Trie_Spec\<close>: the trie holds and finds the set of its subscriptions.
  \<open>Pubsub_Spec\<close>: the bookkeeping of subscriptions over all workers, once for channels and
  patterns in the locale \<open>subscription_half\<close>, and its reachable states; \<open>Pubsub_Delivery\<close> and
  \<open>Publish_Spec\<close>: who receives a message; \<open>Pubsub_Mode\<close>: the count of a connection follows
  the tables. \<open>Connection_Spec\<close>: transactions, authentication, the fast path;
  \<open>Connection_Stream\<close>: reads against the reference \<open>serve\<close> on the whole stream of bytes.
  \<open>Command_Types\<close>: what is a \<open>String\<close> in the source is valid UTF-8; \<open>Expiry_Spec\<close>: expiry
  times, what is handed to the store and what TTL and PTTL may reply of what remains.
  \<open>Server_Frame\<close> and \<open>Server_Spec\<close>: the invariant of the server and that every handler keeps it;
  \<open>Server_Output\<close>: every handler only appends to the output of a connection; \<open>System_Spec\<close>: both
  over all steps of all workers (\<open>system_reach\<close>), errors, panics and shutdown included;
  \<open>Shutdown_Spec\<close>: how workers end and what they leave behind; \<open>System_Bounds\<close>: the inboxes stay
  bounded; \<open>Session_Spec\<close>: the server refines a map of keys (\<open>answers\<close>), from the bytes of a
  client to the bytes it is sent. The properties are collected in \<open>Props_Protocol\<close>, \<open>Props_Store\<close>,
  \<open>Props_Conn\<close>, \<open>Props_Server\<close> and \<open>Props_System\<close>, where each is a few steps over these lemmas and
  is followed by a witness.

  \<^bold>\<open>The store.\<close> feoxdb is not part of the repository. It is the record \<open>feox\<close> of the methods that
  the server calls, over an unknown state, and an argument of every definition that calls it.
  Its documented behaviour is the locale \<open>feox_store\<close> (\<open>feox_ttl\<close> with expiry times): in a good
  state, with memory left and no other writer in between, the methods read and write a map.
  Of a time to live it says that the store answers what remains, at most the positive time that was
  set last; time passes freely between two calls, and of a time of 0, which SET, EXPIRE and
  PEXPIRE can hand over, nothing is assumed. Theorems about data assume the contract; the ordered association list \<open>mem_store\<close> satisfies it and serves
  the witnesses. Nothing is assumed of the store in the properties of the parser, of pub/sub, of
  transactions, of the authentication gate and of the server invariant. A lost race is a store
  whose compare-and-swap answers false, so the retry loops are exercised as well.

  \<^bold>\<open>Integers, loops and failure.\<close> i64 and u64 are words of 64 bits with wrap-around as in a release
  build; lengths and positions in buffers, the ids of connections and the counts of commands are natural numbers. A loop that may never end is a
  partial function with \<open>None\<close> for not returning (\<open>lpush\<close>, \<open>rpush\<close>, \<open>lpop\<close>, \<open>rpop\<close>); that they
  return is part of what is proved of them. All other loops are total functions. The recursion of
  the RESP parser ends because each element consumes bytes; its stack depth is not modelled. The
  capacity \<open>cap\<close> above which \<open>Vec::with_capacity\<close> panics is a parameter, and the panic is a result.
  A full SCAN iteration is followed for a number of calls above the number of keys, which is
  enough. \<open>'a run\<close> keeps a read that does not return and one that panics apart.

  \<^bold>\<open>Concurrency.\<close> A command on the store, an operation on a registry and a handler of the event
  loop are atomic: \<open>system_reach\<close> interleaves the steps of the workers in any order. Where the
  code releases a lock in the middle of an operation of the pub/sub registry, the part up to
  the release has a definition of its own, and \<open>interest_lost\<close> shows what another thread may undo.
  The collections whose order the code leaves open (the hash maps) are association lists, and
  the properties speak of their sets where the order would matter.

  \<^bold>\<open>Not modelled.\<close> The operating system: the results of \<open>read\<close>, \<open>write\<close>, \<open>accept\<close> and \<open>poll\<close>, of binding
  and registering, are inputs of the steps, and so are the clocks and the environment variable. The
  listening socket is not part of the state, nor is that the sockets of a worker that has ended are closed with
  its thread; the inbox of such a worker goes on taking messages that nothing reads, where the code's send
  fails and the failure is ignored. clap, toml, the file system and the signal handler are arguments of \<open>Launch\<close> and \<open>Config\<close>;
  logging and the initial capacities of buffers are left out. Case mapping beyond ASCII is modelled as far as it
  can yield the ASCII words that the code compares with.
\<close>

end
